(* ===== verification/Prelude.thy ===== *)
theory Prelude
  imports Complex_Main "HOL-Library.AList" "HOL-Library.Multiset" "HOL-Library.Char_ord"
    "HOL-Library.List_Lexorder" "HOL-Library.Monad_Syntax" "HOL-Library.Sublist"
begin

section \<open>Prelude: what the Go language gives every component\<close>

text \<open>
  The shared vocabulary of the development.

  \<^item> Results. A computation of type \<open>'a option\<close> is a piece of Go code that may fail to return:
    \<open>None\<close> is an index panic or a loop that never ends, \<open>Some r\<close> a normal return. The Go
    convention of returning a value or an \<open>error\<close> is the sum \<open>'e + 'a\<close>, \<open>Inl\<close> the error.
  \<^item> Slices. \<open>slice_at\<close> reads a slice at an index and panics out of range, as Go does.
  \<^item> Maps. A Go map with string keys is an association list without duplicate keys
    (\<open>gomap_get\<close>, \<open>gomap_set\<close>, \<open>gomap_del\<close>, \<open>gomap_keys\<close>); the laws the code relies on are the
    locale \<open>string_map\<close>. Go leaves the order in which \<open>range\<close> visits a map open: the order is
    a parameter of every definition with such a loop.
  \<^item> Sorting. \<open>slices.SortFunc\<close> is not stable and promises an ordered result only when the
    comparison is a strict weak order: it is a parameter too, with the locale \<open>sort_func\<close> as its
    contract. Insertion sort, which the Go library runs on slices of at most twelve elements,
    is the instance the witnesses use.
\<close>

named_theorems go_defs \<open>definitions of the language layer, unfolded to evaluate closed terms\<close>

subsection \<open>Integer division\<close>

text \<open>Go's integer division and remainder truncate towards zero.\<close>

definition quot :: "int \<Rightarrow> int \<Rightarrow> int" where
  "quot a b = sgn a * sgn b * (\<bar>a\<bar> div \<bar>b\<bar>)"

definition remn :: "int \<Rightarrow> int \<Rightarrow> int" where
  "remn a b = a - b * quot a b"

lemma quot_nonpos: "d \<le> 0 \<Longrightarrow> 0 < n \<Longrightarrow> quot d n \<le> 0"
  by (auto simp: quot_def sgn_if pos_imp_zdiv_nonneg_iff)

lemma remn_nonpos: "d \<le> 0 \<Longrightarrow> 0 < n \<Longrightarrow> remn d n \<le> 0"
proof -
  assume d: "d \<le> 0" and n: "0 < n"
  have "n * (- d div n) = - d - (- d mod n)" by (simp add: minus_mod_eq_mult_div)
  then have "n * (- d div n) \<le> - d" using n by simp
  then show ?thesis using d n by (auto simp: remn_def quot_def sgn_if)
qed

lemma remn_nonneg: "0 \<le> a \<Longrightarrow> 0 < b \<Longrightarrow> remn a b = a mod b"
  by (auto simp: remn_def quot_def sgn_if minus_mult_div_eq_mod)

subsection \<open>Letters\<close>

definition in_range :: "char \<Rightarrow> char \<Rightarrow> char \<Rightarrow> bool" where
  "in_range lo hi c \<longleftrightarrow> lo \<le> c \<and> c \<le> hi"

definition ascii_upper :: "char \<Rightarrow> char" where
  "ascii_upper c = (if in_range CHR ''a'' CHR ''z'' c then char_of (of_char c - (32 :: nat)) else c)"

definition ascii_lower :: "char \<Rightarrow> char" where
  "ascii_lower c = (if in_range CHR ''A'' CHR ''Z'' c then char_of (of_char c + (32 :: nat)) else c)"

subsection \<open>Slices\<close>

definition slice_at :: "'a list \<Rightarrow> int \<Rightarrow> 'a option" where
  "slice_at xs i = (if 0 \<le> i \<and> i < int (length xs) then Some (xs ! nat i) else None)"

lemma slice_at_in: "0 \<le> i \<Longrightarrow> i < int (length xs) \<Longrightarrow> slice_at xs i = Some (xs ! nat i)"
  by (simp add: slice_at_def)

lemma slice_at_out [simp]: "i < 0 \<or> int (length xs) \<le> i \<Longrightarrow> slice_at xs i = None"
  by (auto simp: slice_at_def)

lemma slice_at_last [simp]: "xs \<noteq> [] \<Longrightarrow> slice_at xs (int (length xs) - 1) = Some (last xs)"
  by (cases "length xs") (auto simp: slice_at_def last_conv_nth)

lemma slice_at_first [simp]: "xs \<noteq> [] \<Longrightarrow> slice_at xs 0 = Some (hd xs)"
  by (simp add: slice_at_def hd_conv_nth)

lemma slice_at_set: "slice_at xs i = Some x \<Longrightarrow> x \<in> set xs"
  by (auto simp: slice_at_def split: if_splits)

text \<open>\<open>slices.DeleteFunc\<close> and \<open>slices.Reverse\<close>.\<close>

definition slices_DeleteFunc :: "('a \<Rightarrow> bool) \<Rightarrow> 'a list \<Rightarrow> 'a list" where
  "slices_DeleteFunc del xs = filter (\<lambda>x. \<not> del x) xs"

lemma fold_DeleteFunc:
  "fold (\<lambda>y. slices_DeleteFunc (del y)) ys xs = filter (\<lambda>x. \<forall>y\<in>set ys. \<not> del y x) xs"
  by (induction ys arbitrary: xs) (auto simp: slices_DeleteFunc_def intro: filter_cong)

text \<open>A loop whose body may panic: a left fold in the option monad.\<close>

fun fold_opt :: "('a \<Rightarrow> 's \<Rightarrow> 's option) \<Rightarrow> 'a list \<Rightarrow> 's \<Rightarrow> 's option" where
  "fold_opt f [] s = Some s"
| "fold_opt f (x # xs) s = Option.bind (f x s) (fold_opt f xs)"

lemma fold_opt_append:
  "fold_opt f (xs @ ys) s = Option.bind (fold_opt f xs s) (fold_opt f ys)"
  by (induction xs arbitrary: s) (auto split: Option.bind_splits)

lemma fold_opt_single [simp]: "fold_opt f [x] = f x"
proof (rule ext)
  fix s
  have "fold_opt f [] = Some" by (rule ext) simp
  then show "fold_opt f [x] s = f x s" by simp
qed

lemma fold_opt_total:
  assumes "\<And>x s. x \<in> set xs \<Longrightarrow> P s \<Longrightarrow> \<exists>s'. f x s = Some s' \<and> P s'" and "P s"
  shows "\<exists>s'. fold_opt f xs s = Some s' \<and> P s'"
  using assms
proof (induction xs arbitrary: s)
  case Nil
  then show ?case by simp
next
  case (Cons x xs)
  from Cons.prems(1)[of x s] Cons.prems(2) obtain s1 where "f x s = Some s1" "P s1" by auto
  moreover have "\<exists>s'. fold_opt f xs s1 = Some s' \<and> P s'"
    using Cons.prems(1) \<open>P s1\<close> by (intro Cons.IH) auto
  ultimately show ?case by simp
qed

lemma fold_opt_invariant:
  assumes "fold_opt f xs s = Some s'" and "P s"
    and "\<And>x s s'. x \<in> set xs \<Longrightarrow> P s \<Longrightarrow> f x s = Some s' \<Longrightarrow> P s'"
  shows "P s'"
  using assms
proof (induction xs arbitrary: s)
  case Nil
  then show ?case by simp
next
  case (Cons x xs)
  from Cons.prems(1) obtain s1 where s1: "f x s = Some s1" "fold_opt f xs s1 = Some s'"
    by (auto split: Option.bind_splits)
  have "P s1" using Cons.prems(3)[OF _ Cons.prems(2) s1(1)] by simp
  then show ?case using Cons.IH[OF s1(2)] Cons.prems(3) by auto
qed

subsection \<open>Maps with string keys\<close>

type_synonym 'v gomap = "(string \<times> 'v) list"

definition gomap_empty :: "'v gomap" where
  "gomap_empty = []"

definition gomap_get :: "'v gomap \<Rightarrow> string \<Rightarrow> 'v option" where
  "gomap_get m k = map_of m k"

definition gomap_set :: "string \<Rightarrow> 'v \<Rightarrow> 'v gomap \<Rightarrow> 'v gomap" where
  "gomap_set k v m = AList.update k v m"

definition gomap_del :: "string \<Rightarrow> 'v gomap \<Rightarrow> 'v gomap" where
  "gomap_del k m = AList.delete k m"

definition gomap_keys :: "'v gomap \<Rightarrow> string list" where
  "gomap_keys m = map fst m"

text \<open>Reading a missing key of a map of slices gives the nil slice.\<close>

definition gomap_slice :: "'v list gomap \<Rightarrow> string \<Rightarrow> 'v list" where
  "gomap_slice m k = (case gomap_get m k of None \<Rightarrow> [] | Some vs \<Rightarrow> vs)"

definition gomap_wf :: "'v gomap \<Rightarrow> bool" where
  "gomap_wf m \<longleftrightarrow> distinct (gomap_keys m)"

lemma gomap_get_map_of: "gomap_get m = map_of m"
  by (rule ext) (simp add: gomap_get_def)

lemmas gomap_defs [go_defs] =
  gomap_empty_def gomap_get_def gomap_set_def gomap_del_def gomap_keys_def

text \<open>
  What the code relies on when it uses a map: the laws of lookup after an insertion or a
  deletion, and a list of keys that names each key of the map once.
\<close>

locale string_map =
  fixes emp :: 'm
    and upd :: "string \<Rightarrow> 'v \<Rightarrow> 'm \<Rightarrow> 'm"
    and del :: "string \<Rightarrow> 'm \<Rightarrow> 'm"
    and look :: "'m \<Rightarrow> string \<Rightarrow> 'v option"
    and keys :: "'m \<Rightarrow> string list"
    and wf :: "'m \<Rightarrow> bool"
  assumes look_emp: "look emp k = None"
    and look_upd: "look (upd k v m) = (look m)(k \<mapsto> v)"
    and look_del: "look (del k m) = (look m)(k := None)"
    and keys_dom: "set (keys m) = dom (look m)"
    and keys_distinct: "wf m \<Longrightarrow> distinct (keys m)"
    and wf_emp: "wf emp"
    and wf_upd: "wf m \<Longrightarrow> wf (upd k v m)"
    and wf_del: "wf m \<Longrightarrow> wf (del k m)"
begin

lemma look_upd_same: "look (upd k v m) k = Some v"
  by (simp add: look_upd)

lemma look_upd_other: "k' \<noteq> k \<Longrightarrow> look (upd k v m) k' = look m k'"
  by (simp add: look_upd)

lemma look_del_same: "look (del k m) k = None"
  by (simp add: look_del)

lemma look_del_other: "k' \<noteq> k \<Longrightarrow> look (del k m) k' = look m k'"
  by (simp add: look_del)

lemma keys_emp: "keys emp = []"
  using keys_dom[of emp] by (auto simp: look_emp dom_def)

lemma keys_upd: "set (keys (upd k v m)) = insert k (set (keys m))"
  by (auto simp: keys_dom look_upd)

lemma keys_del: "set (keys (del k m)) = set (keys m) - {k}"
  by (auto simp: keys_dom look_del)

lemma in_keys_iff: "k \<in> set (keys m) \<longleftrightarrow> (\<exists>v. look m k = Some v)"
  by (auto simp: keys_dom)

end

interpretation gm: string_map gomap_empty gomap_set gomap_del gomap_get gomap_keys gomap_wf
  by unfold_locales
    (auto simp: gomap_get_map_of gomap_empty_def gomap_set_def gomap_del_def gomap_keys_def
      gomap_wf_def dom_map_of_conv_image_fst update_conv' delete_conv' distinct_update
      distinct_delete)

lemmas gomap_simps = gm.look_emp gm.look_upd gm.look_del gm.keys_upd gm.keys_del gm.keys_emp
  gm.wf_emp gm.wf_upd gm.wf_del

declare gm.look_emp [simp] gm.look_upd [simp] gm.look_del [simp] gm.keys_upd [simp]
  gm.keys_del [simp] gm.keys_emp [simp] gm.wf_emp [simp] gm.wf_upd [simp] gm.wf_del [simp]

lemma gomap_wf_fold:
  "gomap_wf m \<Longrightarrow> gomap_wf (fold (\<lambda>x m. gomap_set (key x) (val x m) m) xs m)"
  by (induction xs arbitrary: m) auto

subsection \<open>Comparison functions and sorting\<close>

text \<open>
  A comparison for \<open>slices.SortFunc\<close> returns a negative number when the first argument comes
  before the second. The library asks for a strict weak order: asymmetric, and an element
  between two ordered ones is ordered against one of them.
\<close>

locale cmp_order =
  fixes cmp :: "'a \<Rightarrow> 'a \<Rightarrow> int"
  assumes asym: "cmp a b < 0 \<Longrightarrow> \<not> cmp b a < 0"
    and cotrans: "cmp a b < 0 \<Longrightarrow> cmp a c < 0 \<or> cmp c b < 0"
begin

lemma irrefl: "\<not> cmp a a < 0"
  using asym by blast

lemma trans_less: "cmp a b < 0 \<Longrightarrow> cmp b c < 0 \<Longrightarrow> cmp a c < 0"
  using cotrans asym by blast

lemma trans_le: "\<not> cmp b a < 0 \<Longrightarrow> \<not> cmp c b < 0 \<Longrightarrow> \<not> cmp c a < 0"
  using cotrans by blast

lemma total_le: "\<not> cmp b a < 0 \<or> \<not> cmp a b < 0"
  using asym by blast

text \<open>Without ties between different elements, an ordered arrangement is unique.\<close>

lemma sorted_unique:
  assumes "sorted_wrt (\<lambda>a b. \<not> cmp b a < 0) xs" and "sorted_wrt (\<lambda>a b. \<not> cmp b a < 0) ys"
    and "mset xs = mset ys"
    and "\<And>a b. a \<in> set xs \<Longrightarrow> b \<in> set xs \<Longrightarrow> \<not> cmp a b < 0 \<Longrightarrow> \<not> cmp b a < 0 \<Longrightarrow> a = b"
  shows "xs = ys"
  using assms
proof (induction xs arbitrary: ys)
  case Nil
  then show ?case by simp
next
  case (Cons x xs)
  then obtain y ys' where ys: "ys = y # ys'" by (cases ys) auto
  have sets: "set (x # xs) = set ys" using Cons.prems(3) by (metis set_mset_mset)
  have "x = y"
  proof (rule ccontr)
    assume "x \<noteq> y"
    then have "y \<in> set xs" "x \<in> set ys'" using sets ys by auto
    then have "\<not> cmp y x < 0" "\<not> cmp x y < 0" using Cons.prems(1,2) ys by auto
    then show False using Cons.prems(4)[of x y] \<open>x \<noteq> y\<close> \<open>y \<in> set xs\<close> by auto
  qed
  moreover have "xs = ys'"
    using Cons.prems ys \<open>x = y\<close> by (intro Cons.IH) auto
  ultimately show ?case using ys by simp
qed

end

text \<open>The contract of \<open>slices.SortFunc\<close>: always a rearrangement, ordered for a good comparison.\<close>

locale sort_func =
  fixes srt :: "('a \<Rightarrow> 'a \<Rightarrow> int) \<Rightarrow> 'a list \<Rightarrow> 'a list"
  assumes perm: "mset (srt cmp xs) = mset xs"
    and ordered: "cmp_order cmp \<Longrightarrow> sorted_wrt (\<lambda>a b. \<not> cmp b a < 0) (srt cmp xs)"
begin

lemma set_srt: "set (srt cmp xs) = set xs"
  using perm by (metis set_mset_mset)

lemma length_srt: "length (srt cmp xs) = length xs"
  using perm by (metis size_mset)

lemma srt_Nil: "srt cmp [] = []"
  using perm[of cmp "[]"] by simp

text \<open>Sorting forgets the order of its input when no two different elements tie.\<close>

lemma srt_order_irrelevant:
  assumes "cmp_order cmp" and "mset xs = mset ys"
    and "\<And>a b. a \<in> set xs \<Longrightarrow> b \<in> set xs \<Longrightarrow> \<not> cmp a b < 0 \<Longrightarrow> \<not> cmp b a < 0 \<Longrightarrow> a = b"
  shows "srt cmp xs = srt cmp ys"
  by (rule cmp_order.sorted_unique[OF assms(1)])
    (use assms in \<open>auto simp: perm ordered set_srt\<close>)

end

text \<open>
  The loop of Go's \<open>insertionSortCmpFunc\<close>: element by element, each swapped towards the front
  while it is smaller than its left neighbour. \<open>ins_back\<close> works on the sorted prefix read
  backwards, so its head is the neighbour.
\<close>

fun ins_back :: "('a \<Rightarrow> 'a \<Rightarrow> int) \<Rightarrow> 'a \<Rightarrow> 'a list \<Rightarrow> 'a list" where
  "ins_back cmp x [] = [x]"
| "ins_back cmp x (y # ys) = (if cmp x y < 0 then y # ins_back cmp x ys else x # y # ys)"

definition insertion_sort :: "('a \<Rightarrow> 'a \<Rightarrow> int) \<Rightarrow> 'a list \<Rightarrow> 'a list" where
  "insertion_sort cmp xs = rev (fold (ins_back cmp) xs [])"

lemma mset_ins_back: "mset (ins_back cmp x ys) = add_mset x (mset ys)"
  by (induction ys) auto

lemma mset_fold_ins_back: "mset (fold (ins_back cmp) xs ys) = mset xs + mset ys"
  by (induction xs arbitrary: ys) (auto simp: mset_ins_back)

lemma sorted_ins_back:
  assumes "cmp_order cmp" and "sorted_wrt (\<lambda>a b. \<not> cmp a b < 0) ys"
  shows "sorted_wrt (\<lambda>a b. \<not> cmp a b < 0) (ins_back cmp x ys)"
  using assms(2)
proof (induction ys)
  case Nil
  then show ?case by simp
next
  case (Cons y ys)
  have set_ins: "set (ins_back cmp x ys) = insert x (set ys)"
    by (metis mset_ins_back set_mset_add_mset_insert set_mset_mset)
  show ?case
  proof (cases "cmp x y < 0")
    case True
    then have "\<not> cmp y x < 0" using cmp_order.asym[OF assms(1)] by blast
    then show ?thesis using Cons True by (auto simp: set_ins)
  next
    case False
    then have "\<not> cmp x z < 0" if "z \<in> set ys" for z
      using Cons.prems that cmp_order.trans_le[OF assms(1)] by auto
    then show ?thesis using Cons False by auto
  qed
qed

interpretation ins: sort_func insertion_sort
proof unfold_locales
  show "mset (insertion_sort cmp xs) = mset xs" for cmp and xs :: "'a list"
    by (simp add: insertion_sort_def mset_fold_ins_back)
next
  fix cmp :: "'a \<Rightarrow> 'a \<Rightarrow> int" and xs :: "'a list"
  assume c: "cmp_order cmp"
  have "sorted_wrt (\<lambda>a b. \<not> cmp a b < 0) (fold (ins_back cmp) xs ys)"
    if "sorted_wrt (\<lambda>a b. \<not> cmp a b < 0) ys" for ys
    using that by (induction xs arbitrary: ys) (auto simp: sorted_ins_back[OF c])
  from this[of "[]"] show "sorted_wrt (\<lambda>a b. \<not> cmp b a < 0) (insertion_sort cmp xs)"
    by (simp add: insertion_sort_def sorted_wrt_rev)
qed

end
