(* ===== verification/Float64.thy ===== *)
theory Float64
  imports Prelude "HOL-Library.Log_Nat"
begin

section \<open>Go's float64: IEEE 754 binary64 arithmetic\<close>

text \<open>
  Coordinates, distances and areas are \<open>float64\<close> values. A value is a NaN (one NaN is enough:
  the program never looks at the payload), an infinity, a negative zero, or a finite number
  given by its exact rational value; \<open>Fin 0\<close> is the positive zero. Each operation computes the
  exact result and rounds it to nearest, ties to even (\<open>rnd\<close>, \<open>round64\<close>), with gradual underflow
  and overflow to infinity, as the Go specification prescribes for a machine that does not
  fuse a multiplication with an addition (amd64).

  The lemmas: \<open>rnd\<close> is monotone, odd, the identity on representable numbers, and yields
  representable numbers; integers of at most 53 bits and their halves are exact.
\<close>

named_theorems float_defs \<open>the float64 operations, unfolded to evaluate closed terms\<close>

subsection \<open>Rounding to nearest, ties to even\<close>

text \<open>The exponent of the leading bit of a positive rational.\<close>

definition flog2 :: "rat \<Rightarrow> int" where
  "flog2 q = (if 1 \<le> q then bitlen \<lfloor>q\<rfloor> - 1 else - bitlen (\<lceil>1 / q\<rceil> - 1))"

text \<open>The exponent of the last bit kept: 53 significant bits, no less than the subnormals' \<open>-1074\<close>.\<close>

definition rexp :: "rat \<Rightarrow> int" where
  "rexp q = max (- 1074) (flog2 \<bar>q\<bar> - 52)"

definition rhe :: "rat \<Rightarrow> int" where
  "rhe x = (let f = \<lfloor>x\<rfloor>; r = x - of_int f
            in if r < 1 / 2 then f else if 1 / 2 < r then f + 1 else if even f then f else f + 1)"

definition rnd :: "rat \<Rightarrow> rat" where
  "rnd q = (if q = 0 then 0 else of_int (rhe (q / 2 powi rexp q)) * 2 powi rexp q)"

definition representable :: "rat \<Rightarrow> bool" where
  "representable q \<longleftrightarrow> (\<exists>m e. q = of_int m * 2 powi e \<and> \<bar>m\<bar> \<le> 2 ^ 53 \<and> - 1074 \<le> e)"

lemma flog2_bounds:
  assumes "0 < q"
  shows "2 powi flog2 q \<le> q" and "q < 2 powi (flog2 q + 1)"
proof -
  have "2 powi flog2 q \<le> q \<and> q < 2 powi (flog2 q + 1)"
  proof (cases "1 \<le> q")
    case True
    define n where "n = \<lfloor>q\<rfloor>"
    have n: "1 \<le> n" "of_int n \<le> q" "q < of_int n + 1" using True by (auto simp: n_def intro: floor_correct [THEN conjunct2, simplified])
    define k where "k = nat (bitlen n - 1)"
    have "1 \<le> bitlen n" using n(1) by (simp add: bitlen_ge_iff_power)
    then have k: "bitlen n - 1 = int k" "bitlen n = int (Suc k)" by (auto simp: k_def)
    have "nat (int (Suc k)) = Suc k" "nat (int k) = k" by simp_all
    with bitlen_bounds[of n] n(1) have "2 ^ k \<le> n" "n + 1 \<le> 2 ^ Suc k"
      unfolding k by auto
    then have "(2::rat) ^ k \<le> of_int n" "of_int n + 1 \<le> (2::rat) ^ Suc k"
      using of_int_le_iff[of "2 ^ k" n, where 'a = rat] of_int_le_iff[of "n + 1" "2 ^ Suc k", where 'a = rat]
      by simp_all
    moreover have "flog2 q = int k" using True k by (simp add: flog2_def n_def)
    moreover have "(2::rat) powi (int k + 1) = 2 ^ Suc k"
      by (metis of_nat_Suc power_int_of_nat add.commute)
    ultimately have "2 powi flog2 q \<le> q" "q < 2 powi (flog2 q + 1)"
      using n(2,3) by (simp_all only: power_int_of_nat)
    then show ?thesis ..
  next
    case False
    define p where "p = 1 / q"
    have p: "1 < p" "q = 1 / p" using False assms by (auto simp: p_def field_simps)
    define n where "n = \<lceil>p\<rceil> - 1"
    have n: "1 \<le> n" "of_int n < p" "p \<le> of_int (n + 1)"
      using p(1) by (auto simp: n_def) linarith+
    define k where "k = nat (bitlen n - 1)"
    have "1 \<le> bitlen n" using n(1) by (simp add: bitlen_ge_iff_power)
    then have k: "bitlen n = int (Suc k)" by (auto simp: k_def)
    have "nat (int (Suc k)) = Suc k" "nat (int (Suc k) - 1) = k" by simp_all
    with bitlen_bounds[of n] n(1) have "2 ^ k \<le> n" "n + 1 \<le> 2 ^ Suc k"
      unfolding k by auto
    then have b: "(2::rat) ^ k \<le> of_int n" "of_int (n + 1) \<le> (2::rat) ^ Suc k"
      using of_int_le_iff[of "2 ^ k" n, where 'a = rat] of_int_le_iff[of "n + 1" "2 ^ Suc k", where 'a = rat]
      by simp_all
    have f: "flog2 q = - int (Suc k)" using False k by (simp add: flog2_def n_def p_def)
    have e: "(2::rat) powi (- int (Suc k)) = 1 / 2 ^ Suc k"
      "(2::rat) powi (- int (Suc k) + 1) = 1 / 2 ^ k"
    proof -
      show "(2::rat) powi (- int (Suc k)) = 1 / 2 ^ Suc k"
        by (metis power_int_minus_divide power_int_of_nat)
      have "- int (Suc k) + 1 = - int k" by simp
      then show "(2::rat) powi (- int (Suc k) + 1) = 1 / 2 ^ k"
        by (metis power_int_minus_divide power_int_of_nat)
    qed
    have "p \<le> 2 ^ Suc k" "2 ^ k < p" using n b by linarith+
    then have "1 / 2 ^ Suc k \<le> q" "q < 1 / 2 ^ k"
      unfolding p(2) using p(1) by (auto intro!: divide_left_mono divide_strict_left_mono)
    then show ?thesis by (simp only: f e)
  qed
  then show "2 powi flog2 q \<le> q" and "q < 2 powi (flog2 q + 1)" by auto
qed

lemma powi_less_iff: "(2::rat) powi a < 2 powi b \<longleftrightarrow> a < b"
proof
  assume "(2::rat) powi a < 2 powi b"
  then show "a < b"
    using power_int_increasing[of b a "2::rat"] by (cases "a < b") auto
qed (simp add: power_int_strict_increasing)

lemma powi_le_iff: "(2::rat) powi a \<le> 2 powi b \<longleftrightarrow> a \<le> b"
  using powi_less_iff[of b a] by auto

lemma powi_pos [simp]: "0 < (2::rat) powi e"
  by (rule zero_less_power_int) simp

lemma flog2_mono: "0 < x \<Longrightarrow> x \<le> y \<Longrightarrow> flog2 x \<le> flog2 y"
  using flog2_bounds[of x] flog2_bounds[of y] powi_less_iff[of "flog2 x" "flog2 y + 1"]
  by linarith

lemma flog2_eqI: "2 powi k \<le> q \<Longrightarrow> q < 2 powi (k + 1) \<Longrightarrow> flog2 q = k"
  using flog2_bounds[of q] powi_pos[of k] powi_less_iff[of "flog2 q" "k + 1"]
    powi_less_iff[of k "flog2 q + 1"] by linarith

text \<open>Rounding to an integer.\<close>

lemma rhe_of_int [simp]: "rhe (of_int n) = n"
  by (simp add: rhe_def)

lemma rhe_floor: "\<lfloor>x\<rfloor> \<le> rhe x \<and> rhe x \<le> \<lfloor>x\<rfloor> + 1"
  by (auto simp: rhe_def Let_def)

lemma rhe_mono: "x \<le> y \<Longrightarrow> rhe x \<le> rhe y"
proof -
  assume le: "x \<le> y"
  show ?thesis
  proof (cases "\<lfloor>x\<rfloor> = \<lfloor>y\<rfloor>")
    case True
    then show ?thesis using le by (auto simp: rhe_def Let_def)
  next
    case False
    then have "\<lfloor>x\<rfloor> + 1 \<le> \<lfloor>y\<rfloor>" using le floor_mono[OF le] by simp
    then show ?thesis using rhe_floor[of x] rhe_floor[of y] by simp
  qed
qed

lemma rhe_minus: "rhe (- x) = - rhe x"
proof (cases "x = of_int \<lfloor>x\<rfloor>")
  case True
  then obtain n where "x = of_int n" by metis
  then show ?thesis using rhe_of_int[of "- n"] by simp
next
  case False
  have "of_int \<lfloor>x\<rfloor> \<le> x" "x < of_int \<lfloor>x\<rfloor> + 1" by (auto intro: floor_correct [THEN conjunct2, simplified])
  moreover from this(1) have "of_int \<lfloor>x\<rfloor> < x" using False by (simp only: order_less_le) auto
  ultimately have "of_int \<lfloor>x\<rfloor> < x" "x < of_int \<lfloor>x\<rfloor> + 1" by auto
  then have "\<lfloor>- x\<rfloor> = - \<lfloor>x\<rfloor> - 1"
    using \<open>x < of_int \<lfloor>x\<rfloor> + 1\<close> by (intro floor_unique) auto
  then show ?thesis by (auto simp: rhe_def Let_def)
qed

lemma rhe_error: "\<bar>of_int (rhe x) - x\<bar> \<le> 1 / 2"
proof -
  have "of_int \<lfloor>x\<rfloor> \<le> x" "x < of_int \<lfloor>x\<rfloor> + 1" by (auto intro: floor_correct [THEN conjunct2, simplified])
  then show ?thesis by (auto simp: rhe_def Let_def)
qed

text \<open>Rounding to a float.\<close>

lemma rexp_minus [simp]: "rexp (- q) = rexp q"
  by (simp add: rexp_def)

lemma rnd_0 [simp]: "rnd 0 = 0"
  by (simp add: rnd_def)

lemma rnd_minus [simp]: "rnd (- q) = - rnd q"
  by (simp add: rnd_def rhe_minus)

lemma powi_multiple:
  assumes "e \<le> f"
  shows "\<exists>n. (2::rat) powi f = of_int n * 2 powi e"
proof
  have "f = int (nat (f - e)) + e" using assms by simp
  then have "(2::rat) powi f = 2 powi int (nat (f - e)) * 2 powi e"
    by (metis power_int_add zero_neq_numeral)
  then show "(2::rat) powi f = of_int (2 ^ nat (f - e)) * 2 powi e"
    by (simp only: power_int_of_nat of_int_power of_int_numeral)
qed

lemma rnd_multiple:
  assumes "q = of_int n * 2 powi rexp q"
  shows "rnd q = q"
proof -
  have "q / 2 powi rexp q = of_int n"
    using assms by (metis nonzero_mult_div_cancel_right powi_pos less_irrefl)
  then show ?thesis using assms by (simp add: rnd_def)
qed

lemma rexp_pos: "0 < q \<Longrightarrow> rexp q = max (- 1074) (flog2 q - 52)"
  by (simp add: rexp_def)

lemma rnd_mono_pos:
  assumes "0 < x" "x \<le> y"
  shows "rnd x \<le> rnd y"
proof (cases "rexp x = rexp y")
  case True
  have "x / 2 powi rexp y \<le> y / 2 powi rexp y"
    using assms by (intro divide_right_mono) (auto intro: less_imp_le)
  from rhe_mono[OF this] show ?thesis
    using assms True by (simp add: rnd_def mult_right_mono less_imp_le)
next
  case False
  have "flog2 x \<le> flog2 y" using assms by (rule flog2_mono)
  then have lt: "rexp x < rexp y" "flog2 x < flog2 y" "rexp y = flog2 y - 52"
    using False assms by (auto simp: rexp_pos)
  define B where "B = (2::rat) powi flog2 y"
  have xB: "x \<le> B"
    using flog2_bounds(2)[of x] powi_le_iff[of "flog2 x + 1" "flog2 y"] lt assms
    by (simp add: B_def)
  have By: "B \<le> y" using flog2_bounds(1)[of y] assms by (simp add: B_def)
  obtain n where n: "B = of_int n * 2 powi rexp x"
    using powi_multiple[of "rexp x" "flog2 y"] lt by (auto simp: B_def)
  obtain m where m: "B = of_int m * 2 powi rexp y"
    using powi_multiple[of "rexp y" "flog2 y"] lt by (auto simp: B_def)
  have "x / 2 powi rexp x \<le> of_int n" using xB n by (simp add: divide_le_eq)
  then have "rhe (x / 2 powi rexp x) \<le> n" using rhe_mono by fastforce
  then have "rnd x \<le> B" using assms n by (simp add: rnd_def mult_right_mono less_imp_le)
  moreover have "of_int m \<le> y / 2 powi rexp y" using By m by (simp add: le_divide_eq)
  then have "m \<le> rhe (y / 2 powi rexp y)" using rhe_mono by fastforce
  then have "B \<le> rnd y" using assms m by (simp add: rnd_def mult_right_mono less_imp_le)
  ultimately show ?thesis by simp
qed

lemma rnd_nonneg: "0 \<le> q \<Longrightarrow> 0 \<le> rnd q"
proof -
  assume "0 \<le> q"
  then have "0 \<le> q / 2 powi rexp q" by (simp add: less_imp_le)
  then have "0 \<le> rhe (q / 2 powi rexp q)" using rhe_mono[of 0] rhe_of_int[of 0] by fastforce
  then show ?thesis by (simp add: rnd_def less_imp_le)
qed

lemma rnd_mono: "x \<le> y \<Longrightarrow> rnd x \<le> rnd y"
proof -
  assume le: "x \<le> y"
  consider "0 < x" | "x \<le> 0" "0 \<le> y" | "y < 0" using le by linarith
  then show ?thesis
  proof cases
    case 1
    then show ?thesis using le by (rule rnd_mono_pos)
  next
    case 2
    then show ?thesis using rnd_nonneg[of y] rnd_nonneg[of "- x"] by simp
  next
    case 3
    then show ?thesis using rnd_mono_pos[of "- y" "- x"] le by simp
  qed
qed

lemma rnd_representable:
  assumes "representable q"
  shows "rnd q = q"
proof (cases "q = 0")
  case False
  obtain m e where q: "q = of_int m * 2 powi e" "\<bar>m\<bar> \<le> 2 ^ 53" "- 1074 \<le> e"
    using assms by (auto simp: representable_def)
  show ?thesis
  proof (cases "rexp q \<le> e")
    case True
    then obtain n where "(2::rat) powi e = of_int n * 2 powi rexp q" using powi_multiple by blast
    then show ?thesis using rnd_multiple[of q "m * n"] q(1) by simp
  next
    case rexp: False
    have abs: "\<bar>q\<bar> = of_int \<bar>m\<bar> * 2 powi e" by (simp add: q(1) abs_mult)
    have p53: "(2::rat) powi (e + 53) = 2 ^ 53 * 2 powi e"
      by (simp add: power_int_add)
    have "(of_int \<bar>m\<bar> :: rat) \<le> 2 ^ 53"
      using q(2) by (metis of_int_le_iff of_int_numeral of_int_power)
    then have le: "\<bar>q\<bar> \<le> 2 powi (e + 53)" unfolding abs p53 by (simp add: mult_right_mono)
    have "rexp q = flog2 \<bar>q\<bar> - 52" "e + 53 \<le> flog2 \<bar>q\<bar>"
      using rexp q(3) by (auto simp: rexp_def)
    then have ge: "2 powi (e + 53) \<le> \<bar>q\<bar>" "rexp q = flog2 \<bar>q\<bar> - 52"
      using flog2_bounds(1)[of "\<bar>q\<bar>"] False powi_le_iff[of "e + 53" "flog2 \<bar>q\<bar>"] by auto
    then have eq: "\<bar>q\<bar> = 2 powi (e + 53)" using le by simp
    then have "flog2 \<bar>q\<bar> = e + 53"
      by (intro flog2_eqI) (auto simp: powi_less_iff)
    then have "rexp q \<le> e + 53" using ge by simp
    then obtain n where n: "(2::rat) powi (e + 53) = of_int n * 2 powi rexp q"
      using powi_multiple by blast
    have "q = of_int (sgn m * n) * 2 powi rexp q"
    proof -
      have "q = of_int (sgn m) * \<bar>q\<bar>"
        by (simp add: q(1) abs_mult sgn_if)
      then show ?thesis using eq n by simp
    qed
    then show ?thesis by (rule rnd_multiple)
  qed
qed simp

lemma representable_rnd: "representable (rnd q)"
proof (cases "q = 0")
  case True
  then show ?thesis by (auto simp: representable_def intro!: exI[of _ 0])
next
  case False
  let ?r = "rexp q"
  have "\<bar>q\<bar> < 2 powi (flog2 \<bar>q\<bar> + 1)" using flog2_bounds(2)[of "\<bar>q\<bar>"] False by simp
  also have "\<dots> \<le> 2 powi (?r + 53)" by (auto simp: powi_le_iff rexp_def)
  also have "\<dots> = of_int (2 ^ 53) * 2 powi ?r" by (simp add: power_int_add)
  finally have "\<bar>q\<bar> / 2 powi ?r \<le> of_int (2 ^ 53)" by (simp add: divide_le_eq)
  then have "\<bar>q / 2 powi ?r\<bar> \<le> of_int (2 ^ 53)" by simp
  then have "rhe (q / 2 powi ?r) \<le> 2 ^ 53" "- (2 ^ 53) \<le> rhe (q / 2 powi ?r)"
    using rhe_mono[of "q / 2 powi ?r" "of_int (2 ^ 53)"]
      rhe_mono[of "- of_int (2 ^ 53)" "q / 2 powi ?r"]
    by (auto simp only: rhe_of_int abs_le_iff rhe_minus)
  moreover have "- 1074 \<le> ?r" by (simp add: rexp_def)
  moreover have "rnd q = of_int (rhe (q / 2 powi ?r)) * 2 powi ?r" using False by (simp add: rnd_def)
  ultimately show ?thesis unfolding representable_def
    by (intro exI[of _ "rhe (q / 2 powi ?r)"] exI[of _ ?r] conjI abs_leI) simp_all
qed

lemma rnd_rnd [simp]: "rnd (rnd q) = rnd q"
  by (simp add: rnd_representable representable_rnd)

subsection \<open>Values and operations\<close>

datatype float64 = NaN | PosInf | NegInf | NegZero | Fin rat

text \<open>The exact value of a finite float, its sign bit, and rounding an exact result.\<close>

fun fval :: "float64 \<Rightarrow> rat" where
  "fval (Fin q) = q"
| "fval _ = 0"

fun ffinite :: "float64 \<Rightarrow> bool" where
  "ffinite (Fin q) = True"
| "ffinite NegZero = True"
| "ffinite _ = False"

fun fsign :: "float64 \<Rightarrow> bool" where
  "fsign (Fin q) = (q < 0)"
| "fsign NegZero = True"
| "fsign NegInf = True"
| "fsign _ = False"

definition fzero :: "bool \<Rightarrow> float64" where
  "fzero neg = (if neg then NegZero else Fin 0)"

definition finf :: "bool \<Rightarrow> float64" where
  "finf neg = (if neg then NegInf else PosInf)"

definition round64 :: "bool \<Rightarrow> rat \<Rightarrow> float64" where
  "round64 neg q =
     (let r = rnd q in
      if r = 0 then fzero neg
      else if 2 ^ 1024 \<le> r then PosInf
      else if r \<le> - (2 ^ 1024) then NegInf
      else Fin r)"

text \<open>A constant of the source, and the conversion \<open>float64(i)\<close> of an integer.\<close>

definition flit :: "rat \<Rightarrow> float64" where
  "flit q = round64 (q < 0) q"

definition float_of_int :: "int \<Rightarrow> float64" where
  "float_of_int i = round64 False (of_int i)"

fun fneg :: "float64 \<Rightarrow> float64" where
  "fneg NaN = NaN"
| "fneg PosInf = NegInf"
| "fneg NegInf = PosInf"
| "fneg NegZero = Fin 0"
| "fneg (Fin q) = (if q = 0 then NegZero else Fin (- q))"

definition fadd :: "float64 \<Rightarrow> float64 \<Rightarrow> float64" where
  "fadd a b =
     (if a = NaN \<or> b = NaN then NaN
      else if ffinite a \<and> ffinite b
      then (if fval a + fval b = 0 then fzero (a = NegZero \<and> b = NegZero)
            else round64 False (fval a + fval b))
      else if ffinite a then b
      else if ffinite b then a
      else if a = b then a else NaN)"

definition fsub :: "float64 \<Rightarrow> float64 \<Rightarrow> float64" where
  "fsub a b = fadd a (fneg b)"

definition fmul :: "float64 \<Rightarrow> float64 \<Rightarrow> float64" where
  "fmul a b =
     (let neg = (fsign a \<noteq> fsign b) in
      if a = NaN \<or> b = NaN then NaN
      else if ffinite a \<and> ffinite b then round64 neg (fval a * fval b)
      else if ffinite a \<and> fval a = 0 \<or> ffinite b \<and> fval b = 0 then NaN
      else finf neg)"

definition fdiv :: "float64 \<Rightarrow> float64 \<Rightarrow> float64" where
  "fdiv a b =
     (let neg = (fsign a \<noteq> fsign b) in
      if a = NaN \<or> b = NaN then NaN
      else if ffinite a \<and> ffinite b
      then (if fval b = 0 then (if fval a = 0 then NaN else finf neg)
            else round64 neg (fval a / fval b))
      else if ffinite a then fzero neg
      else if ffinite b then finf neg
      else NaN)"

text \<open>\<open>math.Abs\<close> clears the sign bit.\<close>

fun fabs :: "float64 \<Rightarrow> float64" where
  "fabs NaN = NaN"
| "fabs PosInf = PosInf"
| "fabs NegInf = PosInf"
| "fabs NegZero = Fin 0"
| "fabs (Fin q) = Fin \<bar>q\<bar>"

definition flt :: "float64 \<Rightarrow> float64 \<Rightarrow> bool" where
  "flt a b \<longleftrightarrow> a \<noteq> NaN \<and> b \<noteq> NaN \<and>
     (ffinite a \<and> ffinite b \<and> fval a < fval b
      \<or> a = NegInf \<and> b \<noteq> NegInf \<or> b = PosInf \<and> a \<noteq> PosInf)"

definition fgt :: "float64 \<Rightarrow> float64 \<Rightarrow> bool" where
  "fgt a b = flt b a"

definition feq :: "float64 \<Rightarrow> float64 \<Rightarrow> bool" where
  "feq a b \<longleftrightarrow> a \<noteq> NaN \<and> b \<noteq> NaN \<and>
     (ffinite a \<and> ffinite b \<and> fval a = fval b \<or> \<not> ffinite a \<and> a = b)"

text \<open>
  \<open>int(f)\<close> truncates towards zero; outside the 64-bit range Go leaves the result to the machine,
  and amd64 returns the least integer.
\<close>

definition trunc_rat :: "rat \<Rightarrow> int" where
  "trunc_rat q = (if q < 0 then - \<lfloor>- q\<rfloor> else \<lfloor>q\<rfloor>)"

definition int_of_float :: "float64 \<Rightarrow> int" where
  "int_of_float a =
     (if ffinite a \<and> - (2 ^ 63) \<le> trunc_rat (fval a) \<and> trunc_rat (fval a) < 2 ^ 63
      then trunc_rat (fval a) else - (2 ^ 63))"

lemmas float_op_defs [float_defs] =
  fzero_def finf_def fadd_def fsub_def fmul_def fdiv_def flt_def fgt_def feq_def Let_def

subsection \<open>Well-formed values\<close>

text \<open>The finite values are the representable numbers below \<open>2 ^ 1024\<close>.\<close>

fun fwf :: "float64 \<Rightarrow> bool" where
  "fwf (Fin q) = (rnd q = q \<and> \<bar>q\<bar> < 2 ^ 1024)"
| "fwf _ = True"

lemma fwf_fzero [simp]: "fwf (fzero b)"
  by (simp add: fzero_def)

lemma fwf_finf [simp]: "fwf (finf b)"
  by (simp add: finf_def)

lemma fwf_round64 [simp]: "fwf (round64 b q)"
  by (auto simp: round64_def Let_def abs_less_iff not_le)

lemma fwf_fneg [simp]: "fwf a \<Longrightarrow> fwf (fneg a)"
  by (cases a) auto

lemma fwf_fabs [simp]: "fwf a \<Longrightarrow> fwf (fabs a)"
  by (cases a) (auto simp: abs_if)

lemma fwf_fadd [simp]: "fwf a \<Longrightarrow> fwf b \<Longrightarrow> fwf (fadd a b)"
  by (simp add: fadd_def)

lemma fwf_fsub [simp]: "fwf a \<Longrightarrow> fwf b \<Longrightarrow> fwf (fsub a b)"
  by (simp add: fsub_def)

lemma fwf_fmul [simp]: "fwf (fmul a b)"
  by (simp add: fmul_def Let_def)

lemma fwf_fdiv [simp]: "fwf (fdiv a b)"
  by (simp add: fdiv_def Let_def)

lemma rnd_fval [simp]: "fwf a \<Longrightarrow> rnd (fval a) = fval a"
  by (cases a) auto

subsection \<open>Comparisons\<close>

lemma flt_irrefl [simp]: "\<not> flt a a"
  by (cases a) (auto simp: flt_def)

lemma flt_trans: "flt a b \<Longrightarrow> flt b c \<Longrightarrow> flt a c"
  by (cases a; cases b; cases c) (auto simp: flt_def)

lemma flt_asym: "flt a b \<Longrightarrow> \<not> flt b a"
  using flt_trans flt_irrefl by blast

lemma flt_not_NaN: "flt a b \<Longrightarrow> a \<noteq> NaN \<and> b \<noteq> NaN"
  by (simp add: flt_def)

lemma flt_Fin [simp]: "flt (Fin p) (Fin q) \<longleftrightarrow> p < q"
  by (simp add: flt_def)

lemma flt_NaN [simp]: "\<not> flt NaN a" "\<not> flt a NaN"
  by (auto simp: flt_def)

lemma feq_sym: "feq a b = feq b a"
  by (auto simp: feq_def)

lemma feq_trans: "feq a b \<Longrightarrow> feq b c \<Longrightarrow> feq a c"
  by (auto simp: feq_def)

lemma feq_refl [simp]: "feq a a \<longleftrightarrow> a \<noteq> NaN"
  by (cases a) (auto simp: feq_def)

lemma feq_Fin [simp]: "feq (Fin p) (Fin q) \<longleftrightarrow> p = q"
  by (simp add: feq_def)

lemma feq_flt_cong: "feq a b \<Longrightarrow> flt a c = flt b c" "feq a b \<Longrightarrow> flt c a = flt c b"
  by (cases a; cases b; cases c; auto simp: feq_def flt_def)+

lemma flt_cases: "a \<noteq> NaN \<Longrightarrow> b \<noteq> NaN \<Longrightarrow> flt a b \<or> feq a b \<or> flt b a"
  by (cases a; cases b) (auto simp: flt_def feq_def)

subsection \<open>Exact and bounded arithmetic\<close>

text \<open>\<open>denotes a q\<close>: the float is finite and its value is exactly \<open>q\<close> (either zero for \<open>0\<close>).\<close>

definition denotes :: "float64 \<Rightarrow> rat \<Rightarrow> bool" where
  "denotes a q \<longleftrightarrow> ffinite a \<and> fval a = q"

lemma denotes_Fin [simp]: "denotes (Fin q) p \<longleftrightarrow> q = p"
  by (simp add: denotes_def)

lemma denotes_NegZero [simp]: "denotes NegZero p \<longleftrightarrow> p = 0"
  by (auto simp: denotes_def)

lemma denotes_special [simp]: "\<not> denotes NaN p" "\<not> denotes PosInf p" "\<not> denotes NegInf p"
  by (auto simp: denotes_def)

lemma denotes_fzero [simp]: "denotes (fzero b) p \<longleftrightarrow> p = 0"
  by (auto simp: fzero_def)

lemma denotes_not_NaN: "denotes a q \<Longrightarrow> a \<noteq> NaN"
  by (auto simp: denotes_def)

lemma denotes_flt: "denotes a p \<Longrightarrow> denotes b q \<Longrightarrow> flt a b \<longleftrightarrow> p < q"
  by (cases a; cases b) (auto simp: denotes_def flt_def)

lemma denotes_feq: "denotes a p \<Longrightarrow> denotes b q \<Longrightarrow> feq a b \<longleftrightarrow> p = q"
  by (cases a; cases b) (auto simp: denotes_def feq_def)

lemma denotes_fneg: "denotes a q \<Longrightarrow> denotes (fneg a) (- q)"
  by (cases a) (auto simp: denotes_def)

lemma denotes_fabs: "denotes a q \<Longrightarrow> denotes (fabs a) \<bar>q\<bar>"
  by (cases a) (auto simp: denotes_def)

lemma denotes_round64: "\<bar>rnd q\<bar> < 2 ^ 1024 \<Longrightarrow> denotes (round64 b q) (rnd q)"
  by (auto simp: round64_def Let_def denotes_def fzero_def abs_less_iff not_le)

lemma denotes_fadd:
  assumes "denotes a p" "denotes b q" "\<bar>rnd (p + q)\<bar> < 2 ^ 1024"
  shows "denotes (fadd a b) (rnd (p + q))"
proof -
  have "a \<noteq> NaN" "b \<noteq> NaN" using assms by (auto dest: denotes_not_NaN)
  then show ?thesis using assms denotes_round64[OF assms(3), of False]
    by (auto simp: fadd_def denotes_def fzero_def)
qed

lemma denotes_fsub:
  "denotes a p \<Longrightarrow> denotes b q \<Longrightarrow> \<bar>rnd (p - q)\<bar> < 2 ^ 1024 \<Longrightarrow> denotes (fsub a b) (rnd (p - q))"
  using denotes_fadd[OF _ denotes_fneg, of a p b q] by (simp add: fsub_def)

lemma denotes_fmul:
  assumes "denotes a p" "denotes b q" "\<bar>rnd (p * q)\<bar> < 2 ^ 1024"
  shows "denotes (fmul a b) (rnd (p * q))"
  using assms denotes_round64[OF assms(3)] denotes_not_NaN[OF assms(1)] denotes_not_NaN[OF assms(2)]
  by (auto simp: fmul_def Let_def denotes_def)

lemma denotes_fdiv:
  assumes "denotes a p" "denotes b q" "q \<noteq> 0" "\<bar>rnd (p / q)\<bar> < 2 ^ 1024"
  shows "denotes (fdiv a b) (rnd (p / q))"
  using assms denotes_round64[OF assms(4)] denotes_not_NaN[OF assms(1)] denotes_not_NaN[OF assms(2)]
  by (auto simp: fdiv_def Let_def denotes_def)

text \<open>Integers of at most 53 bits, and their halves, are exact.\<close>

lemma representable_of_int: "\<bar>n\<bar> \<le> 2 ^ 53 \<Longrightarrow> representable (of_int n)"
  unfolding representable_def by (intro exI[of _ n] exI[of _ "0::int"]) simp

lemma representable_half: "\<bar>n\<bar> \<le> 2 ^ 53 \<Longrightarrow> representable (of_int n / 2)"
  unfolding representable_def
  by (intro exI[of _ n] exI[of _ "- 1::int"]) (simp add: power_int_minus)

lemma rnd_of_int [simp]: "\<bar>n\<bar> \<le> 2 ^ 53 \<Longrightarrow> rnd (of_int n) = of_int n"
  by (rule rnd_representable) (rule representable_of_int)

lemma rnd_half: "\<bar>n\<bar> \<le> 2 ^ 53 \<Longrightarrow> rnd (of_int n / 2) = of_int n / 2"
  by (rule rnd_representable) (rule representable_half)

lemma of_int_below_max: "\<bar>n\<bar> \<le> 2 ^ 53 \<Longrightarrow> \<bar>of_int n :: rat\<bar> < 2 ^ 1024"
proof -
  assume "\<bar>n\<bar> \<le> 2 ^ 53"
  then have "(of_int \<bar>n\<bar> :: rat) \<le> 2 ^ 53" by (metis of_int_le_iff of_int_numeral of_int_power)
  also have "\<dots> < 2 ^ 1024" by (rule power_strict_increasing) simp_all
  finally show ?thesis by simp
qed

lemma int_fadd:
  assumes "denotes a (of_int m)" "denotes b (of_int n)" "\<bar>m + n\<bar> \<le> 2 ^ 53"
  shows "denotes (fadd a b) (of_int (m + n))"
proof -
  have "rnd (of_int m + of_int n) = of_int (m + n)" using rnd_of_int[OF assms(3)] by simp
  then show ?thesis
    using denotes_fadd[OF assms(1,2)] of_int_below_max[OF assms(3)] by simp
qed

lemma int_fsub:
  assumes "denotes a (of_int m)" "denotes b (of_int n)" "\<bar>m - n\<bar> \<le> 2 ^ 53"
  shows "denotes (fsub a b) (of_int (m - n))"
proof -
  have "rnd (of_int m - of_int n) = of_int (m - n)" using rnd_of_int[OF assms(3)] by simp
  then show ?thesis
    using denotes_fsub[OF assms(1,2)] of_int_below_max[OF assms(3)] by simp
qed

lemma int_fmul:
  assumes "denotes a (of_int m)" "denotes b (of_int n)" "\<bar>m * n\<bar> \<le> 2 ^ 53"
  shows "denotes (fmul a b) (of_int (m * n))"
proof -
  have "rnd (of_int m * of_int n) = of_int (m * n)" using rnd_of_int[OF assms(3)] by simp
  then show ?thesis
    using denotes_fmul[OF assms(1,2)] of_int_below_max[OF assms(3)] by simp
qed

text \<open>
  Rules that evaluate closed terms over small integers (with \<open>float_defs\<close>): a rounded integer is
  itself.
\<close>

lemma round64_exact:
  assumes "rnd q = q" "\<bar>q\<bar> < 2 ^ 1024"
  shows "round64 b q = (if q = 0 then fzero b else Fin q)"
  using assms by (auto simp: round64_def Let_def abs_less_iff not_le)

lemma round64_of_int: "\<bar>n\<bar> \<le> 2 ^ 53 \<Longrightarrow> round64 b (of_int n) = (if n = 0 then fzero b else Fin (of_int n))"
  using round64_exact[OF rnd_of_int of_int_below_max, of n b] by simp

lemma round64_simps [simp]:
  "round64 b 0 = fzero b"
  "round64 b 1 = Fin 1"
  "round64 b (- 1) = Fin (- 1)"
  "numeral w \<le> (2 ^ 53 :: int) \<Longrightarrow> round64 b (numeral w) = Fin (numeral w)"
  "numeral w \<le> (2 ^ 53 :: int) \<Longrightarrow> round64 b (- numeral w) = Fin (- numeral w)"
  using round64_of_int[of 0 b] round64_of_int[of 1 b] round64_of_int[of "- 1" b]
    round64_of_int[of "numeral w" b] round64_of_int[of "- numeral w" b] by simp_all

lemma round64_dyadic:
  assumes "\<bar>m\<bar> \<le> 2 ^ 53" "k \<le> 1074" "m \<noteq> 0"
  shows "round64 b (of_int m / 2 ^ k) = Fin (of_int m / 2 ^ k)"
proof -
  have "(of_int m / 2 ^ k :: rat) = of_int m * 2 powi (- int k)"
    by (simp add: power_int_minus divide_inverse)
  then have "representable (of_int m / 2 ^ k)"
    using assms unfolding representable_def by (intro exI[of _ m] exI[of _ "- int k"]) simp
  moreover have "\<bar>of_int m / 2 ^ k\<bar> \<le> (\<bar>of_int m\<bar> :: rat)"
    by (simp add: divide_le_eq mult_le_cancel_left1)
  then have "\<bar>of_int m / 2 ^ k\<bar> < (2 ^ 1024 :: rat)"
    using of_int_below_max[OF assms(1)] by linarith
  ultimately show ?thesis using assms(3) by (simp add: round64_exact rnd_representable)
qed

lemma trunc_rat_small [simp]: "\<bar>q\<bar> < 1 \<Longrightarrow> trunc_rat q = 0"
  by (auto simp: trunc_rat_def floor_eq_iff)

text \<open>Bounds through monotonicity: a product or a quotient stays below an integer bound.\<close>

definition fin_in :: "float64 \<Rightarrow> int \<Rightarrow> bool" where
  "fin_in a m \<longleftrightarrow> ffinite a \<and> 0 \<le> fval a \<and> fval a \<le> of_int m"

lemma fin_in_round:
  assumes "0 \<le> q" "q \<le> of_int m" "m \<le> 2 ^ 53"
  shows "fin_in (round64 b q) m"
proof -
  have "0 \<le> m" using assms(1,2) by (metis of_int_0_le_iff order_trans)
  then have m: "\<bar>m\<bar> \<le> 2 ^ 53" using assms(3) by simp
  have "0 \<le> rnd q" "rnd q \<le> of_int m"
    using rnd_nonneg[OF assms(1)] rnd_mono[OF assms(2)] rnd_of_int[OF m] by auto
  moreover have "\<bar>rnd q\<bar> < 2 ^ 1024" using calculation of_int_below_max[OF m] by simp
  then have "denotes (round64 b q) (rnd q)" by (rule denotes_round64)
  ultimately show ?thesis by (simp add: fin_in_def denotes_def)
qed

lemma fin_in_fmul:
  assumes "fin_in a m" "fin_in b n" "m * n \<le> 2 ^ 53"
  shows "fin_in (fmul a b) (m * n)"
proof -
  have "fval a * fval b \<le> of_int m * of_int n"
    using assms by (intro mult_mono) (auto simp: fin_in_def)
  then have "fin_in (round64 (fsign a \<noteq> fsign b) (fval a * fval b)) (m * n)"
    using assms by (intro fin_in_round) (auto simp: fin_in_def)
  then show ?thesis using assms by (auto simp: fmul_def Let_def fin_in_def)
qed

lemma fin_in_fdiv:
  assumes "fin_in a (m * n)" "ffinite b" "of_int n \<le> fval b" "0 < n" "m \<le> 2 ^ 53" "0 \<le> m"
  shows "fin_in (fdiv a b) m"
proof -
  have n: "(0::rat) < of_int n" using assms(4) by simp
  have "of_int m * of_int n \<le> of_int m * fval b"
    using assms(3,6) by (intro mult_left_mono) auto
  then have "fval a / fval b \<le> of_int m"
    using assms n by (simp add: fin_in_def divide_le_eq)
  moreover have "0 \<le> fval a / fval b" using assms n by (simp add: fin_in_def)
  ultimately have "fin_in (round64 (fsign a \<noteq> fsign b) (fval a / fval b)) m"
    using assms(5) by (intro fin_in_round)
  then show ?thesis using assms n by (auto simp: fdiv_def Let_def fin_in_def)
qed

text \<open>The same for bounds that are not integers.\<close>

lemma fin_in_mono: "fin_in a m \<Longrightarrow> m \<le> n \<Longrightarrow> fin_in a n"
  unfolding fin_in_def by (meson of_int_le_iff order_trans)

lemma fin_in_not_NaN: "fin_in a m \<Longrightarrow> a \<noteq> NaN"
  by (auto simp: fin_in_def)

lemma fin_in_fmulI:
  assumes "ffinite a" "ffinite b" "0 \<le> fval a" "fval a \<le> p" "0 \<le> fval b" "fval b \<le> q" "p * q \<le> of_int k"
    "k \<le> 2 ^ 53"
  shows "fin_in (fmul a b) k"
proof -
  have "fval a * fval b \<le> p * q" using assms(3-6) by (intro mult_mono) auto
  then have "fin_in (round64 (fsign a \<noteq> fsign b) (fval a * fval b)) k"
    using assms by (intro fin_in_round) auto
  then show ?thesis using assms(1,2) by (auto simp: fmul_def Let_def)
qed

lemma fin_in_fdivI:
  assumes "fin_in a m" "ffinite b" "0 < q" "q \<le> fval b" "of_int m \<le> of_int k * q" "k \<le> 2 ^ 53" "0 \<le> k"
  shows "fin_in (fdiv a b) k"
proof -
  have "of_int k * q \<le> of_int k * fval b" using assms(4,7) by (intro mult_left_mono) auto
  then have "fval a / fval b \<le> of_int k" using assms by (simp add: fin_in_def divide_le_eq)
  moreover have "0 \<le> fval a / fval b" using assms by (simp add: fin_in_def)
  ultimately have "fin_in (round64 (fsign a \<noteq> fsign b) (fval a / fval b)) k"
    using assms(6) by (intro fin_in_round)
  then show ?thesis using assms(1-4) by (auto simp: fdiv_def Let_def fin_in_def)
qed

lemma fin_in_fadd:
  assumes "fin_in a m" "fin_in b n" "m + n \<le> 2 ^ 53"
  shows "fin_in (fadd a b) (m + n)"
proof (cases "fval a + fval b = 0")
  case True
  have "0 \<le> m + n" using assms by (simp add: fin_in_def)
  then show ?thesis using assms True by (auto simp: fadd_def fin_in_def fzero_def)
next
  case False
  have "fin_in (round64 False (fval a + fval b)) (m + n)"
    using assms by (intro fin_in_round) (auto simp: fin_in_def)
  then show ?thesis using assms False by (auto simp: fadd_def fin_in_def)
qed

lemma fin_in_one_minus:
  assumes "fin_in a 1"
  shows "fin_in (fsub (Fin 1) a) 1"
proof -
  have neg: "ffinite (fneg a)" "fval (fneg a) = - fval a" "fneg a \<noteq> NaN" "fneg a \<noteq> NegZero \<or> fval a = 0"
    using assms by (cases a; auto simp: fin_in_def)+
  show ?thesis
  proof (cases "1 - fval a = 0")
    case True
    then show ?thesis using neg by (auto simp: fsub_def fadd_def fin_in_def fzero_def)
  next
    case False
    then have "fsub (Fin 1) a = round64 False (1 - fval a)" using neg by (simp add: fsub_def fadd_def)
    then show ?thesis using assms fin_in_round[of "1 - fval a" 1] by (simp add: fin_in_def)
  qed
qed

lemma fin_in_flit:
  assumes "0 \<le> q" "q \<le> of_int m" "m \<le> 2 ^ 53"
  shows "fin_in (flit q) m"
  using fin_in_round[OF assms] by (simp add: flit_def)

lemma flit_between:
  assumes "0 \<le> m" "m \<le> n" "n \<le> 2 ^ 53" "k \<le> 1074" "of_int m / 2 ^ k \<le> q" "q \<le> of_int n / 2 ^ k"
  shows "ffinite (flit q)" "of_int m / 2 ^ k \<le> fval (flit q)" "fval (flit q) \<le> of_int n / 2 ^ k"
proof -
  have exact: "rnd (of_int i / 2 ^ k) = of_int i / 2 ^ k" if "\<bar>i\<bar> \<le> 2 ^ 53" for i
  proof (rule rnd_representable)
    have "(of_int i / 2 ^ k :: rat) = of_int i * 2 powi (- int k)"
      by (simp add: power_int_minus divide_inverse)
    then show "representable (of_int i / 2 ^ k)"
      using that assms(4) unfolding representable_def by (intro exI[of _ i] exI[of _ "- int k"]) simp
  qed
  have le: "of_int m / 2 ^ k \<le> rnd q" "rnd q \<le> of_int n / 2 ^ k"
    using rnd_mono[OF assms(5)] rnd_mono[OF assms(6)] exact[of m] exact[of n] assms(1-3) by simp_all
  have "0 \<le> (of_int m / 2 ^ k :: rat)" using assms(1) by simp
  moreover have "of_int n / 2 ^ k \<le> (of_int n :: rat)"
    using assms(1,2) by (simp add: divide_le_eq mult_le_cancel_left1)
  moreover have "of_int n < (2 ^ 1024 :: rat)" using of_int_below_max[of n] assms(1-3) by simp
  ultimately have "denotes (flit q) (rnd q)" unfolding flit_def using le by (intro denotes_round64) simp
  then show "ffinite (flit q)" "of_int m / 2 ^ k \<le> fval (flit q)" "fval (flit q) \<le> of_int n / 2 ^ k"
    using le by (simp_all add: denotes_def)
qed

subsection \<open>Signs\<close>

text \<open>A sum of values that are not below zero is not below zero.\<close>

lemma round64_not_negative: "0 \<le> q \<Longrightarrow> \<not> flt (round64 b q) (Fin 0)"
  using rnd_nonneg[of q] by (auto simp: round64_def Let_def flt_def fzero_def)

lemma fadd_not_negative:
  "\<not> flt a (Fin 0) \<Longrightarrow> \<not> flt b (Fin 0) \<Longrightarrow> \<not> flt (fadd a b) (Fin 0)"
  by (cases a; cases b) (auto simp: fadd_def flt_def[of PosInf] flt_def[of NegInf]
      flt_def[of NegZero] fzero_def intro!: round64_not_negative)

lemma fval_fneg [simp]: "fval (fneg a) = - fval a"
  by (cases a) auto

lemma ffinite_fneg [simp]: "ffinite (fneg a) = ffinite a"
  by (cases a) auto

lemma fabs_not_negative: "\<not> flt (fabs a) (Fin 0)"
  by (cases a) (auto simp: flt_def)

text \<open>Subtraction is antisymmetric, and a number cancels its negation.\<close>

lemma round64_uminus:
  "rnd q \<noteq> 0 \<Longrightarrow> round64 False (- q) = fneg (round64 False q)"
  by (auto simp: round64_def Let_def)

lemma fadd_fneg_cancel: "ffinite a \<Longrightarrow> denotes (fadd a (fneg a)) 0"
  by (cases a) (auto simp: fadd_def denotes_def fzero_def)

text \<open>
  Gradual underflow: two different floats never subtract to zero, so the division of the ray
  casting test never divides by zero.
\<close>

lemma representable_grid: "representable q \<Longrightarrow> \<exists>n. q = of_int n * 2 powi (- 1074)"
  unfolding representable_def
proof (elim exE conjE)
  fix m e assume "q = of_int m * 2 powi e" "- 1074 \<le> (e::int)"
  moreover obtain n where "(2::rat) powi e = of_int n * 2 powi (- 1074)"
    using powi_multiple \<open>- 1074 \<le> e\<close> by blast
  ultimately have "q = of_int (m * n) * 2 powi (- 1074)" by simp
  then show ?thesis by blast
qed

lemma rnd_grid_nonzero:
  assumes "q = of_int n * 2 powi (- 1074)" "q \<noteq> 0"
  shows "rnd q \<noteq> 0"
proof -
  have pos: "0 < rnd p" if "p = of_int k * 2 powi (- 1074)" "0 < k" for p k
  proof -
    have "(2::rat) powi (- 1074) \<le> p"
    proof -
      have "(1::rat) \<le> of_int k" using that(2) by simp
      then have "1 * 2 powi (- 1074) \<le> of_int k * (2::rat) powi (- 1074)"
        by (rule mult_right_mono) (simp add: less_imp_le)
      then show ?thesis using that(1) by simp
    qed
    moreover have "representable (2 powi (- 1074))"
      unfolding representable_def by (intro exI[of _ "1::int"] exI[of _ "- 1074::int"]) simp
    ultimately show ?thesis
      using rnd_mono[of "2 powi (- 1074)" p] rnd_representable[of "2 powi (- 1074)"]
        powi_pos[of "- 1074"] by (simp del: powi_pos)
  qed
  show ?thesis
  proof (cases "0 < n")
    case True
    then show ?thesis using pos[OF assms(1)] by simp
  next
    case False
    then have "0 < - n" using assms by (cases "n = 0") auto
    moreover have "- q = of_int (- n) * 2 powi (- 1074)"
      using assms(1) by (simp only: of_int_minus mult_minus_left)
    ultimately have "0 < rnd (- q)" by (intro pos)
    then show ?thesis by auto
  qed
qed

lemma fsub_nonzero:
  assumes "fwf a" "fwf b" "ffinite a" "ffinite b" "fval a \<noteq> fval b"
  shows "\<not> feq (fsub a b) (Fin 0)"
proof -
  have rep: "representable (fval c)" if "fwf c" for c
    using representable_rnd[of "fval c"] rnd_fval[OF that] by simp
  obtain m n where "fval a = of_int m * 2 powi (- 1074)" "fval b = of_int n * 2 powi (- 1074)"
    using representable_grid rep assms(1,2) by metis
  then have "fval a - fval b = of_int (m - n) * 2 powi (- 1074)" by (simp add: left_diff_distrib)
  then have r: "rnd (fval a - fval b) \<noteq> 0" by (rule rnd_grid_nonzero) (use assms(5) in simp)
  have neg: "ffinite (fneg b)" "fval (fneg b) = - fval b" "fneg b \<noteq> NaN" "a \<noteq> NaN"
    using assms(3,4) by (cases b; auto)+
  have "fsub a b = round64 False (fval a - fval b)"
    using neg assms(3,5) by (simp add: fsub_def fadd_def)
  then show ?thesis using r by (auto simp: round64_def Let_def feq_def)
qed

end
