(* ===== verification/GoTime.thy ===== *)
theory GoTime
  imports Float64
begin

section \<open>Instants and durations of Go's package time\<close>

text \<open>
  A \<open>time.Time\<close> without a monotonic reading (as it comes out of JSON, BSON or
  \<open>time.UnixMilli\<close>) is an instant: here the nanoseconds since the zero time, January 1 of
  year 1, UTC, so that Go's zero value is \<open>At 0\<close>. A \<open>Duration\<close> is a signed 64-bit count of
  nanoseconds; \<open>Time.Sub\<close> saturates.
\<close>

datatype gotime = At (nanos: int)

instantiation gotime :: linorder
begin

definition less_eq_gotime :: "gotime \<Rightarrow> gotime \<Rightarrow> bool" where
  "less_eq_gotime a b \<longleftrightarrow> nanos a \<le> nanos b"

definition less_gotime :: "gotime \<Rightarrow> gotime \<Rightarrow> bool" where
  "less_gotime a b \<longleftrightarrow> nanos a < nanos b"

instance
  by standard (auto simp: less_eq_gotime_def less_gotime_def gotime.expand)

end

lemma At_le [simp]: "At a \<le> At b \<longleftrightarrow> a \<le> b"
  by (simp add: less_eq_gotime_def)

lemma At_less [simp]: "At a < At b \<longleftrightarrow> a < b"
  by (simp add: less_gotime_def)

definition zero_time :: gotime where
  "zero_time = At 0"

definition time_Before :: "gotime \<Rightarrow> gotime \<Rightarrow> bool" where
  "time_Before a b \<longleftrightarrow> a < b"

definition time_After :: "gotime \<Rightarrow> gotime \<Rightarrow> bool" where
  "time_After a b \<longleftrightarrow> b < a"

definition time_Compare :: "gotime \<Rightarrow> gotime \<Rightarrow> int" where
  "time_Compare a b = (if a < b then - 1 else if b < a then 1 else 0)"

lemmas time_defs [go_defs] = time_Before_def time_After_def time_Compare_def zero_time_def

lemma time_Compare_neg [simp]: "time_Compare a b < 0 \<longleftrightarrow> a < b"
  by (simp add: time_Compare_def)

text \<open>The difference of two instants, clamped to the range of a Duration.\<close>

definition time_Sub :: "gotime \<Rightarrow> gotime \<Rightarrow> int" where
  "time_Sub a b = max (- (2 ^ 63)) (min (2 ^ 63 - 1) (nanos a - nanos b))"

definition duration_Seconds :: "int \<Rightarrow> float64" where
  "duration_Seconds d =
     fadd (float_of_int (quot d 1000000000))
       (fdiv (float_of_int (remn d 1000000000)) (flit 1000000000))"

text \<open>
  \<open>time.UnixMilli\<close> (the seconds are split off and added to those from year 1 to 1970; no
  64-bit millisecond count makes that sum overflow).
\<close>

definition time_UnixMilli :: "int \<Rightarrow> gotime" where
  "time_UnixMilli ms = At ((62135596800 * 1000 + ms) * 1000000)"

lemma time_UnixMilli_mono: "time_UnixMilli a \<le> time_UnixMilli b \<longleftrightarrow> a \<le> b"
  by (simp add: time_UnixMilli_def)

lemma time_Sub_nonpos: "a \<le> b \<Longrightarrow> time_Sub a b \<le> 0"
  by (simp add: time_Sub_def less_eq_gotime_def)

text \<open>A duration that is not positive has no positive number of seconds.\<close>

lemma round64_not_positive: "q \<le> 0 \<Longrightarrow> \<not> flt (Fin 0) (round64 b q)"
  using rnd_nonneg[of "- q"] by (auto simp: round64_def Let_def flt_def fzero_def)

lemma fadd_not_positive:
  "\<not> flt (Fin 0) a \<Longrightarrow> \<not> flt (Fin 0) b \<Longrightarrow> \<not> flt (Fin 0) (fadd a b)"
  by (cases a; cases b) (auto simp: fadd_def flt_def[of _ PosInf] flt_def[of _ NegInf]
      flt_def[of _ NegZero] fzero_def intro!: round64_not_positive)

lemma float_of_int_not_positive: "i \<le> 0 \<Longrightarrow> \<not> flt (Fin 0) (float_of_int i)"
  by (simp add: float_of_int_def round64_not_positive)

lemma fdiv_not_positive:
  assumes "\<not> flt (Fin 0) a" "0 < q"
  shows "\<not> flt (Fin 0) (fdiv a (Fin q))"
  using assms
  by (cases a) (auto simp: fdiv_def Let_def flt_def[of _ PosInf] flt_def[of _ NegInf]
      flt_def[of _ NegZero] fzero_def finf_def divide_le_0_iff intro!: round64_not_positive)

lemma flit_of_int: "\<bar>n\<bar> \<le> 2 ^ 53 \<Longrightarrow> flit (of_int n) = Fin (of_int n)"
  using of_int_below_max[of n]
  by (auto simp: flit_def round64_def Let_def fzero_def abs_less_iff not_le)

lemma duration_Seconds_not_positive:
  assumes "d \<le> 0"
  shows "\<not> flt (Fin 0) (duration_Seconds d)"
proof -
  have "flit 1000000000 = Fin 1000000000" using flit_of_int[of 1000000000] by simp
  then show ?thesis
    using assms by (simp add: duration_Seconds_def fadd_not_positive float_of_int_not_positive
        quot_nonpos remn_nonpos fdiv_not_positive)
qed

lemma fadd_not_NaN:
  "a \<noteq> NaN \<Longrightarrow> b \<noteq> NaN \<Longrightarrow> \<not> flt (Fin 0) a \<Longrightarrow> \<not> flt (Fin 0) b \<Longrightarrow> fadd a b \<noteq> NaN"
  by (cases a; cases b) (auto simp: fadd_def flt_def[of _ PosInf] round64_def fzero_def Let_def)

lemma float_of_int_not_NaN [simp]: "float_of_int i \<noteq> NaN"
  by (auto simp: float_of_int_def round64_def fzero_def Let_def)

lemma duration_Seconds_not_NaN:
  assumes "d \<le> 0"
  shows "duration_Seconds d \<noteq> NaN"
proof -
  have lit: "flit 1000000000 = Fin 1000000000" using flit_of_int[of 1000000000] by simp
  have div: "fdiv a (Fin 1000000000) \<noteq> NaN" if "a \<noteq> NaN" for a
    using that by (cases a) (auto simp: fdiv_def Let_def round64_def fzero_def finf_def)
  show ?thesis unfolding duration_Seconds_def lit
    by (intro fadd_not_NaN) (use assms in \<open>auto simp: div float_of_int_not_positive quot_nonpos
        remn_nonpos fdiv_not_positive\<close>)
qed

text \<open>The two comparisons by time that the program sorts with.\<close>

lemma cmp_order_time_asc: "cmp_order (\<lambda>a b. time_Compare (f a) (f b))"
  by unfold_locales auto

lemma cmp_order_time_desc: "cmp_order (\<lambda>a b. time_Compare (f b) (f a))"
  by unfold_locales auto

end
