(* ===== verification/Schema.thy ===== *)
theory Schema
  imports GoTime
begin

section \<open>The data model: package dtoschema\<close>

text \<open>
  The records of \<open>internal/dto/schema\<close>, field by field, and their two conversions:
  \<open>ToPolygonData\<close>, which turns a runner's live line into a polygon, and
  \<open>ToRunnerLiveLinesSchema\<close>, which stamps a client's request with its sender. The tags of the stored
  structs give the documents that the database holds. The record
  \<open>go_rt\<close> collects what the Go runtime leaves open to the program (the three trigonometric
  functions, the order of equal elements after a sort, the order of a map's keys).
\<close>

subsection \<open>Records\<close>

record coordinate =
  coord_X :: float64
  coord_Y :: float64
  coord_Time :: gotime

record polygon_data =
  poly_Coords :: "coordinate list"
  poly_Runner :: string
  poly_Time :: gotime

record user_polygons =
  up_UserSub :: string
  up_Polygons :: "polygon_data list"
  up_LiveLine :: polygon_data

record runner_eat_area =
  rea_GroupCode :: string
  rea_UserData :: "user_polygons list"

record live_line =
  ll_X :: float64
  ll_Y :: float64
  ll_Time :: gotime
  ll_Sender :: string
  ll_GroupCode :: string

record live_line_request =
  req_X :: float64
  req_Y :: float64
  req_Time :: int
  req_GroupCode :: string

record runner_group =
  grp_GroupName :: string
  grp_GroupCode :: string
  grp_CreatedAt :: int
  grp_Members :: "string list"
  grp_Owner :: string

record runner_response =
  rr_Polygons :: "polygon_data list"
  rr_LiveLines :: "live_line list"

subsection \<open>Documents\<close>

text \<open>
  The fields of the structs that are stored, with their tags, in the order of the source. The MongoDB
  driver names a field by its \<open>bson\<close> tag and, without one, by its Go name in lower case; the \<open>json\<close> tag
  is not used. The documents are those that the driver makes of a struct.
\<close>

record go_field =
  fld_Name :: string
  fld_json :: "string option"
  fld_bson :: "string option"

definition bson_key :: "go_field \<Rightarrow> string" where
  "bson_key f = (case fld_bson f of Some tag \<Rightarrow> tag | None \<Rightarrow> map ascii_lower (fld_Name f))"

definition LiveLinesData_fields :: "go_field list" where
  "LiveLinesData_fields = [
     \<lparr>fld_Name = ''X'', fld_json = Some ''x'', fld_bson = Some ''x''\<rparr>,
     \<lparr>fld_Name = ''Y'', fld_json = Some ''y'', fld_bson = Some ''y''\<rparr>,
     \<lparr>fld_Name = ''Time'', fld_json = Some ''time'', fld_bson = Some ''time''\<rparr>,
     \<lparr>fld_Name = ''Sender'', fld_json = Some ''sender'', fld_bson = Some ''sender''\<rparr>,
     \<lparr>fld_Name = ''GroupCode'', fld_json = Some ''group_code'', fld_bson = Some ''group_code''\<rparr>]"

definition RunnerGroupSchema_fields :: "go_field list" where
  "RunnerGroupSchema_fields = [
     \<lparr>fld_Name = ''GroupName'', fld_json = Some ''group_name'', fld_bson = None\<rparr>,
     \<lparr>fld_Name = ''GroupCode'', fld_json = Some ''group_code'', fld_bson = None\<rparr>,
     \<lparr>fld_Name = ''CreatedAt'', fld_json = Some ''created_at'', fld_bson = None\<rparr>,
     \<lparr>fld_Name = ''Members'', fld_json = Some ''members'', fld_bson = None\<rparr>,
     \<lparr>fld_Name = ''Owner'', fld_json = Some ''owner'', fld_bson = None\<rparr>]"

datatype bson_value = BDouble float64 | BDate gotime | BString string | BInt64 int | BArray "string list"

type_synonym document = "(string \<times> bson_value) list"

definition LiveLinesData_document :: "live_line \<Rightarrow> document" where
  "LiveLinesData_document l = zip (map bson_key LiveLinesData_fields)
     [BDouble (ll_X l), BDouble (ll_Y l), BDate (ll_Time l), BString (ll_Sender l), BString (ll_GroupCode l)]"

definition RunnerGroupSchema_document :: "runner_group \<Rightarrow> document" where
  "RunnerGroupSchema_document g = zip (map bson_key RunnerGroupSchema_fields)
     [BString (grp_GroupName g), BString (grp_GroupCode g), BInt64 (grp_CreatedAt g), BArray (grp_Members g),
      BString (grp_Owner g)]"

lemma document_keys:
  "map bson_key LiveLinesData_fields = [''x'', ''y'', ''time'', ''sender'', ''group_code'']"
  "map bson_key RunnerGroupSchema_fields = [''groupname'', ''groupcode'', ''createdat'', ''members'', ''owner'']"
  by code_simp+

lemma document_fields [simp]:
  "map fst (LiveLinesData_document l) = [''x'', ''y'', ''time'', ''sender'', ''group_code'']"
  "map fst (RunnerGroupSchema_document g) = [''groupname'', ''groupcode'', ''createdat'', ''members'', ''owner'']"
  by (simp_all add: LiveLinesData_document_def RunnerGroupSchema_document_def document_keys)

subsection \<open>What the Go runtime leaves open\<close>

text \<open>
  \<open>range_order site ks\<close> is the order in which the loop number \<open>site\<close> of the program visits a
  map whose keys are \<open>ks\<close>.
\<close>

record go_rt =
  math_Sin :: "float64 \<Rightarrow> float64"
  math_Cos :: "float64 \<Rightarrow> float64"
  math_Acos :: "float64 \<Rightarrow> float64"
  sort_lines :: "(live_line \<Rightarrow> live_line \<Rightarrow> int) \<Rightarrow> live_line list \<Rightarrow> live_line list"
  sort_polygons :: "(polygon_data \<Rightarrow> polygon_data \<Rightarrow> int) \<Rightarrow> polygon_data list \<Rightarrow> polygon_data list"
  sort_coords :: "(coordinate \<Rightarrow> coordinate \<Rightarrow> int) \<Rightarrow> coordinate list \<Rightarrow> coordinate list"
  range_order :: "nat \<Rightarrow> string list \<Rightarrow> string list"

text \<open>Sorting rearranges and orders; a loop over a map visits each key once.\<close>

definition runtime_ok :: "go_rt \<Rightarrow> bool" where
  "runtime_ok rt \<longleftrightarrow> sort_func (sort_lines rt) \<and> sort_func (sort_polygons rt) \<and>
     sort_func (sort_coords rt) \<and> (\<forall>site ks. mset (range_order rt site ks) = mset ks)"

definition math_Pi :: float64 where
  "math_Pi = flit (3141592653589793238462643383279502884197 / 10 ^ 39)"

text \<open>
  \<open>math.Acos\<close> returns an angle in radians, from 0 to pi, and a NaN outside \<open>[-1, 1]\<close>.
\<close>

definition acos_ok :: "go_rt \<Rightarrow> bool" where
  "acos_ok rt \<longleftrightarrow> (\<forall>x. if flt x (Fin (- 1)) \<or> flt (Fin 1) x \<or> x = NaN then math_Acos rt x = NaN
     else fin_in (math_Acos rt x) 4 \<and> \<not> flt math_Pi (math_Acos rt x))"

lemma math_Pi_bounds: "ffinite math_Pi" "3216 / 2 ^ 10 \<le> fval math_Pi" "fval math_Pi \<le> 3217 / 2 ^ 10"
  using flit_between[of 3216 3217 10 "3141592653589793238462643383279502884197 / 10 ^ 39"]
  by (simp_all add: math_Pi_def)

lemma math_Pi_ge_3: "ffinite math_Pi" "3 \<le> fval math_Pi"
  using math_Pi_bounds by simp_all

lemma runtime_okD:
  assumes "runtime_ok rt"
  shows "sort_func (sort_lines rt)" "sort_func (sort_polygons rt)" "sort_func (sort_coords rt)"
    "mset (range_order rt site ks) = mset ks" "set (range_order rt site ks) = set ks"
    "distinct (range_order rt site ks) \<longleftrightarrow> distinct ks"
proof -
  show m: "mset (range_order rt site ks) = mset ks" using assms by (simp add: runtime_ok_def)
  show "set (range_order rt site ks) = set ks" using m by (metis set_mset_mset)
  show "distinct (range_order rt site ks) \<longleftrightarrow> distinct ks" using m by (metis mset_eq_imp_distinct_iff)
qed (use assms in \<open>auto simp: runtime_ok_def\<close>)

text \<open>
  A concrete runtime for evaluating examples: insertion sort, maps visited in insertion order,
  the first Taylor terms of sine and cosine, and an angle that falls linearly from 3 to 0 for
  the arc cosine.
\<close>

definition linear_acos :: "float64 \<Rightarrow> float64" where
  "linear_acos x =
     (if flt x (Fin (- 1)) \<or> flt (Fin 1) x \<or> x = NaN then NaN
      else fmul (fsub (Fin 1) x) (Fin (3 / 2)))"

definition plain_rt :: go_rt where
  "plain_rt = \<lparr>math_Sin = (\<lambda>x. x), math_Cos = (\<lambda>x. fsub (Fin 1) (fdiv (fmul x x) (Fin 2))), math_Acos = linear_acos,
     sort_lines = insertion_sort, sort_polygons = insertion_sort, sort_coords = insertion_sort,
     range_order = (\<lambda>site ks. ks)\<rparr>"

lemma runtime_ok_plain_rt: "runtime_ok plain_rt"
  by (simp add: runtime_ok_def plain_rt_def ins.sort_func_axioms)

lemma acos_ok_plain_rt: "acos_ok plain_rt"
proof -
  have "fin_in (fmul (fsub (Fin 1) x) (Fin (3 / 2))) 3"
    if x: "\<not> flt x (Fin (- 1))" "\<not> flt (Fin 1) x" "x \<noteq> NaN" for x
  proof -
    have fin: "ffinite x" "- 1 \<le> fval x" "fval x \<le> 1"
      using x by (cases x; auto simp: flt_def)+
    then have neg: "ffinite (fneg x)" "fval (fneg x) = - fval x" "fneg x \<noteq> NaN"
      by (cases x; auto)+
    have "fin_in (fsub (Fin 1) x) 2"
    proof (cases "1 - fval x = 0")
      case True
      then show ?thesis using neg by (simp add: fsub_def fadd_def fin_in_def fzero_def)
    next
      case False
      then have "fsub (Fin 1) x = round64 False (1 - fval x)"
        using neg by (simp add: fsub_def fadd_def)
      then show ?thesis using fin fin_in_round[of "1 - fval x" 2] by simp
    qed
    then show ?thesis by (intro fin_in_fmulI[of _ _ 2 "3 / 2"]) (simp_all add: fin_in_def)
  qed
  moreover have "fin_in a 4 \<and> \<not> flt math_Pi a" if "fin_in a 3" for a
    using that math_Pi_ge_3 by (cases math_Pi; cases a) (auto simp: fin_in_def flt_def)
  ultimately show ?thesis by (simp add: acos_ok_def plain_rt_def linear_acos_def)
qed

subsection \<open>Conversions\<close>

text \<open>The zero values of the two structs that are read from the database.\<close>

definition zero_live_line :: live_line where
  "zero_live_line = \<lparr>ll_X = Fin 0, ll_Y = Fin 0, ll_Time = zero_time, ll_Sender = [], ll_GroupCode = []\<rparr>"

definition zero_polygon_data :: polygon_data where
  "zero_polygon_data = \<lparr>poly_Coords = [], poly_Runner = [], poly_Time = zero_time\<rparr>"

text \<open>
  \<open>ToPolygonData\<close> reads the last element for the initial maximum and the first for the runner,
  so an empty line panics.
\<close>

definition line_coordinate :: "live_line \<Rightarrow> coordinate" where
  "line_coordinate l = \<lparr>coord_X = ll_X l, coord_Y = ll_Y l, coord_Time = ll_Time l\<rparr>"

definition ToPolygonData :: "live_line list \<Rightarrow> polygon_data option" where
  "ToPolygonData ls = do {
     lastLine \<leftarrow> slice_at ls (int (length ls) - 1);
     let (coords, maxTime) =
       fold (\<lambda>l (coords, maxTime).
           (coords @ [line_coordinate l],
            if time_After (ll_Time l) maxTime then ll_Time l else maxTime))
         ls ([], ll_Time lastLine);
     firstLine \<leftarrow> slice_at ls 0;
     Some \<lparr>poly_Coords = coords, poly_Runner = ll_Sender firstLine, poly_Time = maxTime\<rparr>
   }"

definition ToRunnerLiveLinesSchema :: "live_line_request \<Rightarrow> string \<Rightarrow> live_line" where
  "ToRunnerLiveLinesSchema r sender =
     \<lparr>ll_X = req_X r, ll_Y = req_Y r, ll_Time = time_UnixMilli (req_Time r),
      ll_Sender = sender, ll_GroupCode = req_GroupCode r\<rparr>"

lemma fold_ToPolygonData:
  "fold (\<lambda>l (coords, maxTime).
      (coords @ [line_coordinate l], if time_After (ll_Time l) maxTime then ll_Time l else maxTime))
    ls (cs, t) = (cs @ map line_coordinate ls, fold (\<lambda>l t. max t (ll_Time l)) ls t)"
  by (induction ls arbitrary: cs t) (auto simp: time_After_def max_def)

lemma fold_max_time: "fold (\<lambda>l t. max t (ll_Time l)) ls t = Max (insert t (ll_Time ` set ls))"
proof (induction ls arbitrary: t)
  case (Cons l ls)
  have "insert (max t (ll_Time l)) (ll_Time ` set ls) \<noteq> {}" by simp
  then show ?case using Cons
    by (cases "set ls = {}") (auto simp: Max_insert2 max.assoc max.commute max.left_commute)
qed simp

lemma ToPolygonData_Nil [simp]: "ToPolygonData [] = None"
  by (simp add: ToPolygonData_def)

lemma ToPolygonData_eq:
  assumes "ls \<noteq> []"
  shows "ToPolygonData ls = Some \<lparr>poly_Coords = map line_coordinate ls,
    poly_Runner = ll_Sender (hd ls), poly_Time = Max (ll_Time ` set ls)\<rparr>"
proof -
  have "last ls \<in> set ls" using assms by simp
  then have "insert (ll_Time (last ls)) (ll_Time ` set ls) = ll_Time ` set ls" by auto
  then show ?thesis using assms
    by (simp add: ToPolygonData_def fold_ToPolygonData fold_max_time)
qed

subsection \<open>Properties\<close>

text \<open>A line becomes a polygon with the same points in the same order, the runner of its first
  point and the latest of its times; the conversion panics exactly on an empty line.\<close>

lemma ToPolygonData_correct:
  "ToPolygonData ls =
     (if ls = [] then None
      else Some \<lparr>poly_Coords = map line_coordinate ls, poly_Runner = ll_Sender (hd ls),
        poly_Time = Max (ll_Time ` set ls)\<rparr>)"
  by (simp add: ToPolygonData_eq)

end
