(* ===== verification/Geometry.thy ===== *)
theory Geometry
  imports Schema
begin

section \<open>Distances, cycles and ordering: services/utils.go\<close>

text \<open>
  The numeric helpers of the processor: the great-circle distance, the cycle test and the
  nearest-neighbour ordering of points. The lemmas bound a distance, specify one pass of the
  search (\<open>nearest_spec\<close>), and give the contract of the ordering: a tour of the indices that goes
  each time to the first of the nearest points left (\<open>sortPoints_tour\<close>), never invents a point
  (\<open>sortPoints_submset\<close>) and keeps them all when the distances are numbers (\<open>sortPoints_mset\<close>). The other half of \<open>utils.go\<close>, the test for
  a point in a polygon, is in \<open>Polygon\<close>.
\<close>

subsection \<open>Constants\<close>

definition DELTA :: float64 where
  "DELTA = flit (1 / 100000)"

subsection \<open>Distance\<close>

definition distance :: "go_rt \<Rightarrow> float64 \<Rightarrow> float64 \<Rightarrow> float64 \<Rightarrow> float64 \<Rightarrow> float64" where
  "distance rt lat1 lng1 lat2 lng2 =
     (let radlat1 = fdiv (fmul math_Pi lat1) (flit 180);
          radlat2 = fdiv (fmul math_Pi lat2) (flit 180);
          theta = fsub lng1 lng2;
          radtheta = fdiv (fmul math_Pi theta) (flit 180);
          dist = fadd (fmul (math_Sin rt radlat1) (math_Sin rt radlat2))
                   (fmul (fmul (math_Cos rt radlat1) (math_Cos rt radlat2)) (math_Cos rt radtheta));
          dist = (if fgt dist (flit 1) then flit 1 else dist);
          dist = math_Acos rt dist;
          dist = fdiv (fmul dist (flit 180)) math_Pi;
          dist = fmul (fmul dist (flit 60)) (flit (11515 / 10000));
          dist = fmul (fmul dist (flit (1609344 / 1000000))) (flit 1000)
      in dist)"

subsection \<open>The cycle test\<close>

record run_processor_config =
  cfg_DistanceFunc :: "float64 \<Rightarrow> float64 \<Rightarrow> float64 \<Rightarrow> float64 \<Rightarrow> float64"
  cfg_DoSecondsForCycleCheck :: bool
  cfg_NumSecondsForCycle :: int
  cfg_MetersThresholdForCycle :: float64

definition NewRunProcessorConfig ::
  "(float64 \<Rightarrow> float64 \<Rightarrow> float64 \<Rightarrow> float64 \<Rightarrow> float64) \<Rightarrow> bool \<Rightarrow> int \<Rightarrow> float64 \<Rightarrow> run_processor_config"
  where
  "NewRunProcessorConfig distanceFunc doSeconds numSeconds meters =
     \<lparr>cfg_DistanceFunc = distanceFunc, cfg_DoSecondsForCycleCheck = doSeconds,
      cfg_NumSecondsForCycle = numSeconds, cfg_MetersThresholdForCycle = meters\<rparr>"

definition IsCycle :: "live_line list \<Rightarrow> run_processor_config \<Rightarrow> bool" where
  "IsCycle liveLines cfg =
     (if length liveLines < 2 then False
      else
        let firstPoint = liveLines ! 0;
            lastPoint = liveLines ! (length liveLines - 1)
        in if cfg_DoSecondsForCycleCheck cfg \<and>
              flt (duration_Seconds (time_Sub (ll_Time firstPoint) (ll_Time lastPoint)))
                (fsub (float_of_int (cfg_NumSecondsForCycle cfg)) DELTA)
           then False
           else if fgt (cfg_DistanceFunc cfg (ll_X firstPoint) (ll_Y firstPoint)
                          (ll_X lastPoint) (ll_Y lastPoint))
                     (fsub (cfg_MetersThresholdForCycle cfg) DELTA)
           then False
           else True)"

subsection \<open>Nearest-neighbour ordering\<close>

text \<open>
  One pass over the points: the index of the first unvisited point strictly nearest to the last
  sorted one, or \<open>-1\<close>. \<open>visited\<close> is the source's slice of flags, read at an index.
\<close>

definition nearest_step ::
  "go_rt \<Rightarrow> coordinate list \<Rightarrow> (nat \<Rightarrow> bool) \<Rightarrow> coordinate \<Rightarrow> nat \<Rightarrow> float64 \<times> int \<Rightarrow> float64 \<times> int"
  where
  "nearest_step rt points visited startPoint i acc =
     (let (minDistance, p) = acc in
      if visited i then (minDistance, p)
      else
        let point = points ! i;
            d = distance rt (coord_X startPoint) (coord_Y startPoint) (coord_X point) (coord_Y point)
        in if flt d minDistance then (d, int i) else (minDistance, p))"

definition nearest :: "go_rt \<Rightarrow> coordinate list \<Rightarrow> (nat \<Rightarrow> bool) \<Rightarrow> coordinate \<Rightarrow> int" where
  "nearest rt points visited startPoint =
     snd (fold (nearest_step rt points visited startPoint) [0..<length points]
       (flit 1000000007, - 1))"

abbreviation dist_between :: "go_rt \<Rightarrow> coordinate \<Rightarrow> coordinate \<Rightarrow> float64" where
  "dist_between rt p q \<equiv> distance rt (coord_X p) (coord_Y p) (coord_X q) (coord_Y q)"

text \<open>
  \<open>best\<close> is what a pass is to find among the indices in \<open>A\<close>: the one of least distance and, among those
  of equal distance, the first. A distance that is a NaN counts as beyond all others.
\<close>

definition best :: "go_rt \<Rightarrow> coordinate list \<Rightarrow> nat set \<Rightarrow> coordinate \<Rightarrow> nat \<Rightarrow> bool" where
  "best rt points A s k \<longleftrightarrow> k \<in> A \<and>
     (\<forall>i\<in>A. \<not> flt (dist_between rt s (points ! i)) (dist_between rt s (points ! k))) \<and>
     (\<forall>i\<in>A. i < k \<longrightarrow> dist_between rt s (points ! i) = NaN \<or>
        flt (dist_between rt s (points ! k)) (dist_between rt s (points ! i)))"

definition unvisited :: "coordinate list \<Rightarrow> (nat \<Rightarrow> bool) \<Rightarrow> nat set" where
  "unvisited points visited = {i. i < length points \<and> \<not> visited i}"

text \<open>What the pass has found after the first \<open>n\<close> indices.\<close>

definition nearest_inv ::
  "go_rt \<Rightarrow> coordinate list \<Rightarrow> (nat \<Rightarrow> bool) \<Rightarrow> coordinate \<Rightarrow> nat \<Rightarrow> float64 \<times> int \<Rightarrow> bool" where
  "nearest_inv rt points visited s n acc \<longleftrightarrow>
     (case acc of (m, p) \<Rightarrow>
        (\<forall>i<n. \<not> visited i \<longrightarrow> \<not> flt (dist_between rt s (points ! i)) m) \<and>
        (if p = - 1 then m = flit 1000000007
         else 0 \<le> p \<and> m = dist_between rt s (points ! nat p) \<and> flt m (flit 1000000007) \<and>
              best rt points {i. i < n \<and> \<not> visited i} s (nat p)))"

lemma flt_le_flt: "flt a m \<Longrightarrow> \<not> flt b m \<Longrightarrow> b = NaN \<or> flt a b"
  by (cases a; cases b; cases m) (auto simp: flt_def)

lemma nearest_inv_step:
  assumes "nearest_inv rt points visited s n acc"
  shows "nearest_inv rt points visited s (Suc n) (nearest_step rt points visited s n acc)"
proof -
  obtain m p where acc: "acc = (m, p)" by (cases acc)
  let ?d = "\<lambda>i. dist_between rt s (points ! i)"
  consider "visited n" | "\<not> visited n" "\<not> flt (?d n) m" | "\<not> visited n" "flt (?d n) m" by blast
  then show ?thesis
  proof cases
    case 3
    have least: "\<not> flt (?d j) (?d n)" if "j < n" "\<not> visited j" for j
      using assms that flt_trans[of "?d j" "?d n" m] 3(2) by (auto simp: nearest_inv_def acc)
    have first: "?d j = NaN \<or> flt (?d n) (?d j)" if "j < n" "\<not> visited j" for j
      using assms that flt_le_flt[OF 3(2), of "?d j"] by (auto simp: nearest_inv_def acc)
    have "flt (?d n) (flit 1000000007)"
      using assms 3(2) flt_trans[of "?d n" m "flit 1000000007"]
      by (cases "p = - 1") (auto simp: nearest_inv_def acc)
    then show ?thesis using 3 least first
      by (auto simp: nearest_inv_def nearest_step_def acc Let_def best_def less_Suc_eq)
  qed (use assms in \<open>auto simp: nearest_inv_def nearest_step_def acc Let_def best_def less_Suc_eq split: if_splits\<close>)
qed

lemma nearest_inv_fold:
  "nearest_inv rt points visited s n
     (fold (nearest_step rt points visited s) [0..<n] (flit 1000000007, - 1))"
proof (induction n)
  case 0
  show ?case by (simp add: nearest_inv_def)
next
  case (Suc n)
  then show ?case using nearest_inv_step by simp
qed

lemma nearest_spec:
  "if nearest rt points visited s = - 1
   then \<forall>i\<in>unvisited points visited. \<not> flt (dist_between rt s (points ! i)) (flit 1000000007)
   else \<exists>k. nearest rt points visited s = int k \<and> best rt points (unvisited points visited) s k \<and>
     flt (dist_between rt s (points ! k)) (flit 1000000007)"
proof -
  define r where "r = fold (nearest_step rt points visited s) [0..<length points] (flit 1000000007, - 1)"
  have "nearest_inv rt points visited s (length points) r" unfolding r_def by (rule nearest_inv_fold)
  moreover obtain m p where "r = (m, p)" by (cases r)
  moreover have "nearest rt points visited s = snd r" by (simp add: nearest_def r_def)
  ultimately show ?thesis
    by (auto simp: nearest_inv_def unvisited_def intro!: exI[of _ "nat p"])
qed

function sort_loop ::
  "go_rt \<Rightarrow> coordinate list \<Rightarrow> (nat \<Rightarrow> bool) \<Rightarrow> coordinate list \<Rightarrow> coordinate list" where
  "sort_loop rt points visited sortedPoints =
     (let p = nearest rt points visited (last sortedPoints)
      in if p = - 1 then sortedPoints
         else sort_loop rt points (visited(nat p := True)) (sortedPoints @ [points ! nat p]))"
  by pat_completeness auto
termination
proof (relation "measure (\<lambda>(rt, points, visited, sortedPoints).
    card {i. i < length points \<and> \<not> visited i})", goal_cases)
  case (2 rt points visited sortedPoints p)
  then have "nat p < length points" "\<not> visited (nat p)"
    using nearest_spec[of rt points visited "last sortedPoints"] by (auto simp: best_def unvisited_def)
  then have "{i. i < length points \<and> \<not> (visited(nat p := True)) i}
      \<subset> {i. i < length points \<and> \<not> visited i}" by auto
  then have "card {i. i < length points \<and> \<not> (visited(nat p := True)) i}
      < card {i. i < length points \<and> \<not> visited i}" by (intro psubset_card_mono) simp_all
  then show ?case by (simp del: fun_upd_apply)
qed simp

declare sort_loop.simps [simp del]

definition sortPointsByDistance :: "go_rt \<Rightarrow> coordinate list \<Rightarrow> coordinate list" where
  "sortPointsByDistance rt points =
     (if length points \<le> 2 then points
      else sort_loop rt points ((\<lambda>_. False)(0 := True)) [points ! 0])"

subsection \<open>Facts about the distance\<close>

text \<open>
  The cosine of the angle between the two points, as it is computed, and what is made of it: only a
  cosine that is a NaN or below -1 has no distance; one above 1 is taken for 1. A distance is at most
  20.2 million metres, about half the circumference of the Earth, well below the \<open>1e9 + 7\<close> that the
  nearest-neighbour search starts from.
\<close>

definition computed_cosine :: "go_rt \<Rightarrow> float64 \<Rightarrow> float64 \<Rightarrow> float64 \<Rightarrow> float64 \<Rightarrow> float64" where
  "computed_cosine rt lat1 lng1 lat2 lng2 =
     (let rad = (\<lambda>deg. fdiv (fmul math_Pi deg) (flit 180))
      in fadd (fmul (math_Sin rt (rad lat1)) (math_Sin rt (rad lat2)))
           (fmul (fmul (math_Cos rt (rad lat1)) (math_Cos rt (rad lat2))) (math_Cos rt (rad (fsub lng1 lng2)))))"

definition metres :: "float64 \<Rightarrow> float64" where
  "metres angle = fmul (fmul (fmul (fmul (fdiv (fmul angle (flit 180)) math_Pi) (flit 60))
     (flit (11515 / 10000))) (flit (1609344 / 1000000))) (flit 1000)"

lemma distance_eq:
  "distance rt a b c d = metres (math_Acos rt
     (if flt (Fin 1) (computed_cosine rt a b c d) then Fin 1 else computed_cosine rt a b c d))"
  using flit_of_int[of 1] by (simp add: distance_def computed_cosine_def metres_def Let_def fgt_def)

lemma metres_NaN [simp]: "metres NaN = NaN"
  by (simp add: metres_def fmul_def fdiv_def Let_def)

lemma metres_bound:
  assumes "fin_in x 4" "\<not> flt math_Pi x"
  shows "fin_in (metres x) 20200000"
proof -
  have x: "ffinite x" "0 \<le> fval x" "fval x \<le> 3217 / 2 ^ 10"
    using assms math_Pi_bounds by (cases x; cases math_Pi; auto simp: fin_in_def flt_def)+
  have lit: "ffinite (flit 180)" "fval (flit 180) = 180" "ffinite (flit 60)" "fval (flit 60) = 60"
      "ffinite (flit 1000)" "fval (flit 1000) = 1000"
    using flit_of_int[of 180] flit_of_int[of 60] flit_of_int[of 1000] by simp_all
  note mile = flit_between[of 1179 1180 10 "11515 / 10000"]
  note km = flit_between[of 1647 1648 10 "1609344 / 1000000"]
  have s1: "fin_in (fmul x (flit 180)) 566"
    by (rule fin_in_fmulI[of _ _ "3217 / 2 ^ 10" 180]) (use x lit in simp_all)
  have s2: "fin_in (fdiv (fmul x (flit 180)) math_Pi) 181"
    by (rule fin_in_fdivI[OF s1 math_Pi_bounds(1) _ math_Pi_bounds(2)]) simp_all
  have s3: "fin_in (fmul (fdiv (fmul x (flit 180)) math_Pi) (flit 60)) 10860"
    by (rule fin_in_fmulI[of _ _ 181 60]) (use s2 lit in \<open>simp_all add: fin_in_def\<close>)
  have s4: "fin_in (fmul (fmul (fdiv (fmul x (flit 180)) math_Pi) (flit 60)) (flit (11515 / 10000))) 12515"
    by (rule fin_in_fmulI[of _ _ 10860 "1180 / 2 ^ 10"]) (use s3 mile in \<open>simp_all add: fin_in_def\<close>)
  have s5: "fin_in (fmul (fmul (fmul (fdiv (fmul x (flit 180)) math_Pi) (flit 60)) (flit (11515 / 10000)))
      (flit (1609344 / 1000000))) 20142"
    by (rule fin_in_fmulI[of _ _ 12515 "1648 / 2 ^ 10"]) (use s4 km in \<open>simp_all add: fin_in_def\<close>)
  show ?thesis unfolding metres_def
    by (rule fin_in_fmulI[of _ _ 20142 1000]) (use s5 lit in \<open>simp_all add: fin_in_def\<close>)
qed

lemma distance_NaN_iff:
  assumes "acos_ok rt"
  shows "distance rt a b c d = NaN \<longleftrightarrow>
    computed_cosine rt a b c d = NaN \<or> flt (computed_cosine rt a b c d) (Fin (- 1))"
proof -
  let ?c = "computed_cosine rt a b c d"
  let ?x = "if flt (Fin 1) ?c then Fin 1 else ?c"
  have x: "?x = NaN \<or> flt ?x (Fin (- 1)) \<longleftrightarrow> ?c = NaN \<or> flt ?c (Fin (- 1))" "\<not> flt (Fin 1) ?x"
    using flt_trans[of "Fin 1" ?c "Fin (- 1)"] flt_not_NaN[of "Fin 1" ?c] by (simp_all, blast)
  show ?thesis
  proof (cases "?c = NaN \<or> flt ?c (Fin (- 1))")
    case True
    then have "math_Acos rt ?x = NaN" using assms x(1) unfolding acos_ok_def by presburger
    then show ?thesis using True unfolding distance_eq by (simp only: metres_NaN simp_thms)
  next
    case False
    then have "fin_in (math_Acos rt ?x) 4 \<and> \<not> flt math_Pi (math_Acos rt ?x)"
      using assms x unfolding acos_ok_def by presburger
    then have "distance rt a b c d \<noteq> NaN"
      unfolding distance_eq using fin_in_not_NaN metres_bound by blast
    then show ?thesis using False by blast
  qed
qed

lemma distance_bound:
  assumes "acos_ok rt"
  shows "distance rt a b c d = NaN \<or> fin_in (distance rt a b c d) 20200000"
proof -
  have "math_Acos rt x = NaN \<or> fin_in (math_Acos rt x) 4 \<and> \<not> flt math_Pi (math_Acos rt x)" for x
    using spec[OF assms[unfolded acos_ok_def], of x] by (simp split: if_splits)
  moreover obtain x where "distance rt a b c d = metres (math_Acos rt x)" using distance_eq by blast
  ultimately show ?thesis using metres_bound metres_NaN by metis
qed

lemma distance_below_start:
  assumes "acos_ok rt" "distance rt a b c d \<noteq> NaN"
  shows "flt (distance rt a b c d) (flit 1000000007)"
proof -
  have "fin_in (distance rt a b c d) 20200000" using distance_bound[OF assms(1)] assms(2) by blast
  moreover have "flit 1000000007 = Fin 1000000007" using flit_of_int[of 1000000007] by simp
  ultimately show ?thesis by (auto simp: fin_in_def flt_def)
qed

subsection \<open>Facts about the nearest-neighbour ordering\<close>

text \<open>
  The reference: a tour of the points, as a list of indices. From each point it goes to the best of
  those in \<open>A\<close>, which are all that it has not visited, and it ends only when none of them is nearer
  than the start value of the search.
\<close>

fun greedy_tour :: "go_rt \<Rightarrow> coordinate list \<Rightarrow> nat set \<Rightarrow> nat \<Rightarrow> nat list \<Rightarrow> bool" where
  "greedy_tour rt points A k [] \<longleftrightarrow>
     (\<forall>i\<in>A. \<not> flt (dist_between rt (points ! k) (points ! i)) (flit 1000000007))"
| "greedy_tour rt points A k (j # js) \<longleftrightarrow>
     best rt points A (points ! k) j \<and> greedy_tour rt points (A - {j}) j js"

lemma unvisited_upd: "unvisited points (visited(k := True)) = unvisited points visited - {k}"
  by (auto simp: unvisited_def)

lemma finite_unvisited [simp]: "finite (unvisited points visited)"
  by (simp add: unvisited_def)

lemma unvisited_start: "unvisited points ((\<lambda>_. False)(0 := True)) = {1..<length points}"
  by (auto simp: unvisited_def Suc_le_eq)

lemma sort_loop_end:
  "nearest rt points visited (last acc) = - 1 \<Longrightarrow> sort_loop rt points visited acc = acc"
  by (simp add: sort_loop.simps)

lemma sort_loop_next:
  "nearest rt points visited (last acc) = int k \<Longrightarrow>
   sort_loop rt points visited acc = sort_loop rt points (visited(k := True)) (acc @ [points ! k])"
  by (subst sort_loop.simps) (simp add: Let_def)

text \<open>What the loop appends is a tour of the unvisited points.\<close>

lemma sort_loop_appends:
  "last acc = points ! k0 \<Longrightarrow> \<exists>ks. sort_loop rt points visited acc = acc @ map (nth points) ks \<and>
     greedy_tour rt points (unvisited points visited) k0 ks"
proof (induction rt points visited acc arbitrary: k0 rule: sort_loop.induct)
  case (1 rt points visited acc)
  note spec = nearest_spec[of rt points visited "last acc"]
  show ?case
  proof (cases "nearest rt points visited (last acc) = - 1")
    case True
    then have "greedy_tour rt points (unvisited points visited) k0 []" using spec "1.prems" by simp
    then show ?thesis using True by (intro exI[of _ "[]"]) (simp add: sort_loop_end)
  next
    case False
    then obtain k where k: "best rt points (unvisited points visited) (last acc) k"
        "nearest rt points visited (last acc) = int k"
      using spec by auto
    obtain ks where ks: "sort_loop rt points (visited(k := True)) (acc @ [points ! k]) =
          (acc @ [points ! k]) @ map (nth points) ks"
        "greedy_tour rt points (unvisited points visited - {k}) k ks"
      using "1.IH"[OF refl False, unfolded k(2) nat_int last_snoc unvisited_upd] by blast
    then show ?thesis
      using k "1.prems" by (intro exI[of _ "k # ks"]) (auto simp: sort_loop_next)
  qed
qed

lemma greedy_tour_distinct:
  "greedy_tour rt points A k ks \<Longrightarrow> distinct ks \<and> set ks \<subseteq> A"
  by (induction ks arbitrary: A k) (fastforce simp: best_def)+

text \<open>When every distance is below the start value, a tour leaves no point behind.\<close>

lemma greedy_tour_complete:
  assumes "greedy_tour rt points A k ks" "insert k A \<subseteq> {..<length points}"
    and "\<And>p q. p \<in> set points \<Longrightarrow> q \<in> set points \<Longrightarrow> flt (dist_between rt p q) (flit 1000000007)"
  shows "set ks = A"
  using assms(1,2)
proof (induction ks arbitrary: A k)
  case Nil
  then show ?case using assms(3) by fastforce
next
  case (Cons j js)
  then have "j \<in> A" by (simp add: best_def)
  then show ?case using Cons.IH[of "A - {j}" j] Cons.prems by auto
qed

lemma nth_mset_distinct:
  assumes "distinct ks" "set ks \<subseteq> {..<length xs}"
  shows "mset (map (nth xs) ks) \<subseteq># mset xs"
proof -
  have "mset_set (set ks) \<subseteq># mset_set (set [0..<length xs])"
    using assms(2) by (intro subset_imp_msubset_mset_set) auto
  then have "mset ks \<subseteq># mset [0..<length xs]"
    using assms(1) by (simp only: mset_set_set distinct_upt)
  then have "image_mset (nth xs) (mset ks) \<subseteq># image_mset (nth xs) (mset [0..<length xs])"
    by (rule image_mset_subseteq_mono)
  moreover have "image_mset (nth xs) (mset [0..<length xs]) = mset xs"
    by (metis map_nth mset_map)
  ultimately show ?thesis by simp
qed

lemma sortPoints_tour:
  assumes "points \<noteq> []"
  obtains ks where "sortPointsByDistance rt points = map (nth points) (0 # ks)"
    "greedy_tour rt points {1..<length points} 0 ks"
proof (cases "length points \<le> 2")
  case True
  show ?thesis
  proof (cases "length points = 1")
    case True
    then obtain p where "points = [p]" by (metis One_nat_def length_0_conv length_Suc_conv)
    then show ?thesis using that[of "[]"] by (simp add: sortPointsByDistance_def)
  next
    case False
    moreover have "length points \<noteq> 0" using assms by simp
    ultimately have "length points = 2" using True by linarith
    then obtain p q where pq: "points = [p, q]" by (auto simp: numeral_2_eq_2 length_Suc_conv)
    then have "{1..<length points} = {1}" by auto
    then show ?thesis using that[of "[1]"] pq by (simp add: sortPointsByDistance_def best_def)
  qed
next
  case False
  let ?start = "(\<lambda>_. False)(0 := True)"
  have "last [points ! 0] = points ! 0" by simp
  then obtain ks where ks: "sort_loop rt points ?start [points ! 0] = [points ! 0] @ map (nth points) ks"
      "greedy_tour rt points {1..<length points} 0 ks"
    using sort_loop_appends[of "[points ! 0]" points 0 rt ?start] unfolding unvisited_start by blast
  have "sortPointsByDistance rt points = sort_loop rt points ?start [points ! 0]"
    using False by (simp only: sortPointsByDistance_def if_False)
  also have "\<dots> = map (nth points) (0 # ks)" by (simp only: ks(1) list.map append_Cons append_Nil)
  finally show ?thesis using that ks(2) by blast
qed

lemma sortPoints_submset: "mset (sortPointsByDistance rt points) \<subseteq># mset points"
proof (cases "points = []")
  case False
  then obtain ks where ks: "sortPointsByDistance rt points = map (nth points) (0 # ks)"
      "greedy_tour rt points {1..<length points} 0 ks"
    by (rule sortPoints_tour)
  have "distinct (0 # ks)" "set (0 # ks) \<subseteq> {..<length points}"
    using greedy_tour_distinct[OF ks(2)] False by auto
  then show ?thesis unfolding ks(1) by (rule nth_mset_distinct)
qed (simp add: sortPointsByDistance_def)

lemma set_sortPoints: "set (sortPointsByDistance rt points) \<subseteq> set points"
  using sortPoints_submset by (metis set_mset_mono set_mset_mset)

lemma sortPoints_mset:
  assumes "\<And>p q. p \<in> set points \<Longrightarrow> q \<in> set points \<Longrightarrow>
    flt (dist_between rt p q) (flit 1000000007)"
  shows "mset (sortPointsByDistance rt points) = mset points"
proof (cases "points = []")
  case False
  then obtain ks where ks: "sortPointsByDistance rt points = map (nth points) (0 # ks)"
      "greedy_tour rt points {1..<length points} 0 ks"
    by (rule sortPoints_tour)
  have "set ks = {1..<length points}"
    by (rule greedy_tour_complete[OF ks(2) _ assms]) (use False in auto)
  moreover have "distinct ks" using greedy_tour_distinct[OF ks(2)] by blast
  ultimately have "length ks = length points - 1" using distinct_card[of ks] by simp
  then have "size (mset (sortPointsByDistance rt points)) = size (mset points)"
    unfolding ks(1) using False by (cases points) simp_all
  then show ?thesis
    using sortPoints_submset[of rt points] by (metis mset_subset_size less_irrefl subset_mset.le_less)
qed (simp add: sortPointsByDistance_def)

subsection \<open>Properties\<close>

text \<open>C26: The nearest-neighbour ordering is a greedy tour from the first point: from each point it goes
  to the nearest of all that it has not visited, of equally near ones to the first in the list, and it
  visits no point twice. It ends only when no point is left that is nearer than 1e9 + 7 metres, so it
  leaves a point out only if a distance is a NaN: else it rearranges the points.\<close>

theorem sortPointsByDistance_greedy:
  "(points \<noteq> [] \<longrightarrow> (\<exists>ks. sortPointsByDistance rt points = map (nth points) (0 # ks) \<and>
     distinct (0 # ks) \<and> set ks \<subseteq> {1..<length points} \<and>
     greedy_tour rt points {1..<length points} 0 ks)) \<and>
   mset (sortPointsByDistance rt points) \<subseteq># mset points \<and>
   (acos_ok rt \<and> (\<forall>p\<in>set points. \<forall>q\<in>set points. dist_between rt p q \<noteq> NaN) \<longrightarrow>
     mset (sortPointsByDistance rt points) = mset points)"
proof (intro conjI impI)
  assume "points \<noteq> []"
  then obtain ks where ks: "sortPointsByDistance rt points = map (nth points) (0 # ks)"
      "greedy_tour rt points {1..<length points} 0 ks"
    by (rule sortPoints_tour)
  have "distinct ks" "set ks \<subseteq> {1..<length points}" using greedy_tour_distinct[OF ks(2)] by simp_all
  then have "distinct (0 # ks)" by auto
  with ks \<open>set ks \<subseteq> {1..<length points}\<close>
  show "\<exists>ks. sortPointsByDistance rt points = map (nth points) (0 # ks) \<and>
     distinct (0 # ks) \<and> set ks \<subseteq> {1..<length points} \<and> greedy_tour rt points {1..<length points} 0 ks"
    by blast
next
  assume "acos_ok rt \<and> (\<forall>p\<in>set points. \<forall>q\<in>set points. dist_between rt p q \<noteq> NaN)"
  then show "mset (sortPointsByDistance rt points) = mset points"
    by (intro sortPoints_mset) (simp add: distance_below_start)
qed (rule sortPoints_submset)

definition origin :: coordinate where
  "origin = \<lparr>coord_X = Fin 0, coord_Y = Fin 0, coord_Time = zero_time\<rparr>"

text \<open>Three points on one meridian, the nearest to the first last.\<close>

definition meridian_points :: "coordinate list" where
  "meridian_points = [origin, origin\<lparr>coord_X := Fin 40\<rparr>, origin\<lparr>coord_X := Fin 10\<rparr>]"

lemma meridian_cosine:
  assumes "fin_in x 40" "fin_in y 40"
  shows "fin_in (computed_cosine plain_rt x (Fin 0) y (Fin 0)) 2"
proof -
  have lit: "ffinite (flit 180)" "180 \<le> fval (flit 180)" using flit_of_int[of 180] by simp_all
  have rad: "fin_in (fdiv (fmul math_Pi z) (flit 180)) 1" if "fin_in z 40" for z
  proof -
    have "fin_in (fmul math_Pi z) 160"
      by (rule fin_in_fmulI[of _ _ 4 40]) (use that math_Pi_bounds in \<open>simp_all add: fin_in_def\<close>)
    then show ?thesis by (rule fin_in_fdivI[OF _ lit(1) _ lit(2)]) simp_all
  qed
  have one: "fin_in (fmul u v) 1" if "fin_in u 1" "fin_in v 1" for u v
    using fin_in_fmul[OF that] by simp
  have cos: "fin_in (math_Cos plain_rt z) 1" if "fin_in z 1" for z
  proof -
    have "fin_in (fdiv (fmul z z) (Fin 2)) 1" by (rule fin_in_fdivI[OF one[OF that that], of _ 2]) simp_all
    then show ?thesis by (simp add: plain_rt_def fin_in_one_minus)
  qed
  have theta: "fin_in (fsub (Fin 0) (Fin 0)) 40" by (simp add: fsub_def fadd_def fin_in_def fzero_def)
  have "fin_in (fmul (math_Sin plain_rt (fdiv (fmul math_Pi x) (flit 180)))
      (math_Sin plain_rt (fdiv (fmul math_Pi y) (flit 180)))) 1"
    using one rad assms by (simp add: plain_rt_def)
  then show ?thesis unfolding computed_cosine_def Let_def
    using fin_in_fadd[OF _ one[OF one[OF cos cos] cos], OF _ rad[OF assms(1)] rad[OF assms(2)] rad[OF theta]]
    by force
qed

lemma meridian_distances:
  "\<forall>p\<in>set meridian_points. \<forall>q\<in>set meridian_points. dist_between plain_rt p q \<noteq> NaN"
proof -
  have "distance plain_rt x (Fin 0) y (Fin 0) \<noteq> NaN" if "fin_in x 40" "fin_in y 40" for x y
    using meridian_cosine[OF that] unfolding distance_NaN_iff[OF acos_ok_plain_rt]
    by (auto simp: fin_in_def flt_def)
  moreover have "fin_in (Fin 0) 40" "fin_in (Fin 40) 40" "fin_in (Fin 10) 40" by (simp_all add: fin_in_def)
  ultimately show ?thesis by (simp add: meridian_points_def origin_def)
qed

theorem sortPointsByDistance_greedy_witness:
  "mset (sortPointsByDistance plain_rt meridian_points) = mset meridian_points \<and>
   hd (sortPointsByDistance plain_rt meridian_points) = origin \<and> distinct meridian_points"
proof (intro conjI)
  note sort = sortPointsByDistance_greedy[of meridian_points plain_rt]
  show "mset (sortPointsByDistance plain_rt meridian_points) = mset meridian_points"
    using sort acos_ok_plain_rt meridian_distances by blast
  have "meridian_points \<noteq> []" "meridian_points ! 0 = origin" by (simp_all add: meridian_points_def)
  then show "hd (sortPointsByDistance plain_rt meridian_points) = origin" using sort by fastforce
qed (simp add: meridian_points_def origin_def)

end
