(* ===== verification/Polygon.thy ===== *)
theory Polygon
  imports Geometry
begin

section \<open>Points in polygons: services/utils.go\<close>

text \<open>
  The ray casting test and the search for the points of one polygon that lie inside another.
  The lemmas: the test is the parity of the edges crossed (\<open>inside_parity\<close>), does not depend on
  the vertex the polygon starts at, and never divides by zero; the backwards search always ends
  on a vertex that stays (\<open>last_before_spec\<close>); and \<open>getPoints_cases\<close>, the contract of
  \<open>getPointsInPolygon\<close> that the eating and merging of polygons rest on.
\<close>

subsection \<open>Ray casting\<close>

definition same_point :: "coordinate \<Rightarrow> coordinate \<Rightarrow> bool" where
  "same_point p q \<longleftrightarrow> feq (coord_X p) (coord_X q) \<and> feq (coord_Y p) (coord_Y q)"

definition ray_crosses :: "coordinate \<Rightarrow> coordinate \<Rightarrow> coordinate \<Rightarrow> bool" where
  "ray_crosses point p pj \<longleftrightarrow>
     (fgt (coord_Y p) (coord_Y point) \<noteq> fgt (coord_Y pj) (coord_Y point)) \<and>
     flt (coord_X point)
       (fadd (fdiv (fmul (fsub (coord_X pj) (coord_X p)) (fsub (coord_Y point) (coord_Y p)))
                (fsub (coord_Y pj) (coord_Y p)))
         (coord_X p))"

definition next_index :: "nat \<Rightarrow> nat \<Rightarrow> nat" where
  "next_index n i = (let j = i + 1 in if j = n then 0 else j)"

definition isPointInPolygon :: "coordinate \<Rightarrow> coordinate list \<Rightarrow> bool" where
  "isPointInPolygon point polygon =
     (if list_ex (\<lambda>p. same_point p point) polygon then True
      else fold (\<lambda>i inside.
             if ray_crosses point (polygon ! i) (polygon ! next_index (length polygon) i)
             then \<not> inside else inside)
           [0..<length polygon] False)"

subsection \<open>Points of one polygon inside another\<close>

text \<open>
  The search backwards, around the end of the slice, for an index that is not in the list: it
  would not end if every index were.
\<close>

partial_function (option) last_before :: "int list \<Rightarrow> int \<Rightarrow> int \<Rightarrow> int option" where
  "last_before idxs n k =
     (if k \<in> set idxs
      then (let k' = k - 1 in last_before idxs n (if k' = - 1 then n - 1 else k'))
      else Some k)"

definition cmp_radius :: "coordinate \<Rightarrow> coordinate \<Rightarrow> int" where
  "cmp_radius a b =
     (let tempA = fadd (fmul (coord_X a) (coord_X a)) (fmul (coord_Y a) (coord_Y a));
          tempB = fadd (fmul (coord_X b) (coord_X b)) (fmul (coord_Y b) (coord_Y b))
      in int_of_float (fsub tempA tempB))"

text \<open>The result: the points (\<open>None\<close> is Go's nil slice) and the index before the deletion.\<close>

definition getPointsInPolygon ::
  "go_rt \<Rightarrow> coordinate list \<Rightarrow> coordinate list \<Rightarrow> (coordinate list option \<times> int) option" where
  "getPointsInPolygon rt P1 P2 =
     (let idxs = filter (\<lambda>i. isPointInPolygon (P1 ! i) P2) [0..<length P1];
          pts = map (nth P1) idxs;
          pointsIdx = map int idxs;
          n = int (length P1)
      in if length pointsIdx = 0 then Some (None, - 1)
         else if length pointsIdx = length P1 then Some (Some pts, - 1)
         else do {
           i0 \<leftarrow> slice_at pointsIdx 0;
           k \<leftarrow> last_before pointsIdx n (remn (i0 - 1 + n) n);
           Some (Some (sort_coords rt cmp_radius pts), k)
         })"

subsection \<open>Facts about ray casting\<close>

text \<open>The edges of a polygon: each vertex with the next, the last with the first.\<close>

definition edges :: "coordinate list \<Rightarrow> (coordinate \<times> coordinate) list" where
  "edges polygon = zip polygon (rotate1 polygon)"

definition crossed :: "coordinate \<Rightarrow> coordinate list \<Rightarrow> (coordinate \<times> coordinate) list" where
  "crossed point polygon = filter (\<lambda>(p, pj). ray_crosses point p pj) (edges polygon)"

lemma next_index_less: "i < n \<Longrightarrow> next_index n i < n"
  by (auto simp: next_index_def Let_def)

lemma edges_conv_next_index:
  "edges polygon = map (\<lambda>i. (polygon ! i, polygon ! next_index (length polygon) i)) [0..<length polygon]"
proof (rule nth_equalityI)
  fix i assume "i < length (edges polygon)"
  then have i: "i < length polygon" by (simp add: edges_def)
  have "rotate1 polygon ! i = polygon ! next_index (length polygon) i"
    using i nth_rotate1[OF i] by (auto simp: next_index_def Let_def mod_if)
  then show "edges polygon ! i =
      map (\<lambda>i. (polygon ! i, polygon ! next_index (length polygon) i)) [0..<length polygon] ! i"
    using i by (simp add: edges_def)
qed (simp add: edges_def)

lemma fold_toggle:
  "fold (\<lambda>i b. if P i then \<not> b else b) xs b = (b \<noteq> odd (length (filter P xs)))"
  by (induction xs arbitrary: b) auto

lemma inside_parity:
  "isPointInPolygon point polygon \<longleftrightarrow>
     (\<exists>p\<in>set polygon. same_point p point) \<or> odd (length (crossed point polygon))"
proof -
  have "crossed point polygon = map (\<lambda>i. (polygon ! i, polygon ! next_index (length polygon) i))
      (filter (\<lambda>i. ray_crosses point (polygon ! i) (polygon ! next_index (length polygon) i))
        [0..<length polygon])"
    by (simp add: crossed_def edges_conv_next_index filter_map o_def)
  then show ?thesis by (auto simp: isPointInPolygon_def fold_toggle list_ex_iff)
qed

lemma inside_Nil [simp]: "\<not> isPointInPolygon point []"
  by (simp add: inside_parity crossed_def edges_def)

lemma inside_vertex: "p \<in> set polygon \<Longrightarrow> same_point p point \<Longrightarrow> isPointInPolygon point polygon"
  by (auto simp: inside_parity)

text \<open>The starting vertex does not matter.\<close>

lemma edges_rotate1: "edges (rotate1 polygon) = rotate1 (edges polygon)"
proof (cases polygon rule: remdups_adj.cases)
  case (3 a b l)
  have "zip ((b # l) @ [a]) ((l @ [a]) @ [b]) = zip (b # l) (l @ [a]) @ zip [a] [b]"
    by (rule zip_append) simp
  then show ?thesis using 3 by (simp add: edges_def)
qed (simp_all add: edges_def)

lemma inside_rotate1: "isPointInPolygon point (rotate1 polygon) = isPointInPolygon point polygon"
proof -
  have "mset (crossed point (rotate1 polygon)) = mset (crossed point polygon)"
    by (cases "edges polygon") (simp_all add: crossed_def edges_rotate1)
  then have "length (crossed point (rotate1 polygon)) = length (crossed point polygon)"
    by (rule mset_eq_length)
  then show ?thesis by (simp add: inside_parity)
qed

lemma inside_rotate: "isPointInPolygon point (rotate n polygon) = isPointInPolygon point polygon"
  by (induction n) (simp_all add: inside_rotate1)

text \<open>An edge is crossed only if its ends lie on different sides of the ray's line.\<close>

lemma not_inside_beside:
  assumes "\<forall>p\<in>set polygon. \<not> same_point p point"
    and "(\<forall>p\<in>set polygon. fgt (coord_Y p) (coord_Y point)) \<or>
         (\<forall>p\<in>set polygon. \<not> fgt (coord_Y p) (coord_Y point))"
  shows "\<not> isPointInPolygon point polygon"
proof -
  have "p \<in> set polygon \<and> q \<in> set polygon" if "(p, q) \<in> set (edges polygon)" for p q
    using that by (auto simp: edges_def dest: set_zip_leftD set_zip_rightD)
  then have "crossed point polygon = []"
    using assms(2) by (fastforce simp: crossed_def ray_crosses_def filter_empty_conv)
  then show ?thesis using assms(1) by (simp add: inside_parity)
qed

text \<open>A point with a NaN coordinate is in no polygon; one that is inside equals itself.\<close>

lemma inside_same_point: "isPointInPolygon point polygon \<Longrightarrow> same_point point point"
proof -
  assume inside: "isPointInPolygon point polygon"
  show ?thesis
  proof (cases "\<exists>p\<in>set polygon. same_point p point")
    case True
    then show ?thesis by (auto simp: same_point_def feq_def)
  next
    case False
    then have "crossed point polygon \<noteq> []" using inside by (auto simp: inside_parity)
    then have "hd (crossed point polygon) \<in> set (crossed point polygon)" by simp
    then show ?thesis
      by (auto simp: crossed_def ray_crosses_def fgt_def same_point_def dest: flt_not_NaN)
  qed
qed

lemma same_point_sym: "same_point p q = same_point q p"
  by (auto simp: same_point_def feq_sym)

text \<open>
  The test sees only the coordinates' values: two points that compare equal (a zero may differ
  in its sign) are inside the same polygons.
\<close>

definition eqz :: "float64 \<Rightarrow> float64 \<Rightarrow> bool" where
  "eqz a b \<longleftrightarrow> a = b \<or> denotes a 0 \<and> denotes b 0"

lemma feq_eqz: "feq a b \<Longrightarrow> eqz a b"
  by (cases a; cases b) (auto simp: feq_def eqz_def)

lemma eqz_cases: "eqz a b \<Longrightarrow> a = b \<or> (a = NegZero \<or> a = Fin 0) \<and> (b = NegZero \<or> b = Fin 0)"
  by (cases a; cases b; simp add: eqz_def)

lemma eqz_fadd: "eqz a b \<Longrightarrow> eqz (fadd a c) (fadd b c)"
  by (drule eqz_cases, cases c) (auto simp: eqz_def fadd_def)

lemma eqz_fsub: "eqz a b \<Longrightarrow> eqz (fsub a c) (fsub b c)"
  unfolding fsub_def by (rule eqz_fadd)

lemma eqz_fmul: "eqz a b \<Longrightarrow> eqz (fmul c a) (fmul c b)"
  by (drule eqz_cases, cases c) (auto simp: eqz_def fmul_def round64_def)

lemma fdiv_zero:
  "denotes a 0 \<Longrightarrow> if c = NaN \<or> denotes c 0 then fdiv a c = NaN else denotes (fdiv a c) 0"
  by (cases a; cases c) (auto simp: fdiv_def Let_def)

lemma eqz_fdiv: "eqz a b \<Longrightarrow> eqz (fdiv a c) (fdiv b c)"
  using fdiv_zero[of a c] fdiv_zero[of b c] unfolding eqz_def by presburger

lemma eqz_flt: "eqz a b \<Longrightarrow> eqz c d \<Longrightarrow> flt a c = flt b d"
  by (cases a; cases b; cases c; cases d) (auto simp: eqz_def flt_def)

lemma ray_crosses_cong:
  assumes "same_point point point'"
  shows "ray_crosses point p pj = ray_crosses point' p pj"
proof -
  have x: "eqz (coord_X point) (coord_X point')" and y: "eqz (coord_Y point) (coord_Y point')"
    using assms by (auto simp: same_point_def feq_eqz)
  have refl: "eqz a a" for a by (simp add: eqz_def)
  have "fgt a (coord_Y point) = fgt a (coord_Y point')" for a
    unfolding fgt_def by (rule eqz_flt[OF y refl])
  then show ?thesis unfolding ray_crosses_def
    by (intro arg_cong2[of _ _ _ _ "(\<and>)"] eqz_flt eqz_fadd eqz_fdiv eqz_fmul eqz_fsub x y) auto
qed

lemma inside_cong:
  assumes "same_point point point'"
  shows "isPointInPolygon point polygon = isPointInPolygon point' polygon"
proof -
  have "same_point p point = same_point p point'" for p
    using assms by (auto simp: same_point_def feq_sym intro: feq_trans)
  moreover have "crossed point polygon = crossed point' polygon"
  proof -
    have "ray_crosses point = ray_crosses point'"
      by (intro ext ray_crosses_cong assms)
    then show ?thesis by (simp add: crossed_def)
  qed
  ultimately show ?thesis by (simp add: inside_parity)
qed

text \<open>The divisor of the crossing test is never zero.\<close>

lemma straddle_divisor_nonzero:
  assumes "fwf a" "fwf b" "fgt a y \<noteq> fgt b y"
  shows "\<not> feq (fsub b a) (Fin 0)"
proof (cases "ffinite a \<and> ffinite b")
  case True
  have "fval b \<noteq> fval a"
    using True assms(3) by (cases a; cases b) (auto simp: fgt_def flt_def)
  then show ?thesis using fsub_nonzero[of b a] assms True by blast
next
  case False
  then show ?thesis using assms(3)
    by (cases a; cases b) (auto simp: fsub_def fadd_def feq_def fgt_def)
qed

subsection \<open>Facts about the search for inner points\<close>

text \<open>Some index being free, the backwards search ends on a free index.\<close>

lemma last_before_spec:
  assumes "0 \<le> j" "j < n" "j \<notin> set idxs" "0 \<le> k" "k < n"
  shows "\<exists>r. last_before idxs n k = Some r \<and> 0 \<le> r \<and> r < n \<and> r \<notin> set idxs"
  using assms(4,5)
proof (induction "nat ((k - j) mod n)" arbitrary: k)
  case 0
  have "0 \<le> (k - j) mod n" using assms by simp
  then have "(k - j) mod n = 0" using 0(1) by simp
  then have "k mod n = j mod n" by (simp add: mod_eq_dvd_iff mod_0_imp_dvd)
  then have "k = j" using assms(1,2) 0(2,3) by (simp add: mod_pos_pos_trivial)
  then show ?case using assms by (simp add: last_before.simps)
next
  case (Suc d)
  define k' where "k' = (if k - 1 = - 1 then n - 1 else k - 1)"
  show ?case
  proof (cases "k \<in> set idxs")
    case False
    then show ?thesis using Suc.prems by (simp add: last_before.simps)
  next
    case True
    have "(k' - j) mod n = (k - j) mod n - 1"
    proof -
      have "(k' - j) mod n = (k - 1 - j) mod n"
        using minus_mod_self2[of "n - 1 - j" n] by (auto simp: k'_def algebra_simps)
      moreover have "0 < (k - j) mod n" using Suc.hyps(2) by simp
      moreover have "(k - j) mod n < n" using assms by simp
      moreover have "(k - 1 - j) mod n = ((k - j) mod n - 1) mod n"
        by (simp add: mod_diff_left_eq algebra_simps)
      ultimately show ?thesis by (simp add: mod_pos_pos_trivial)
    qed
    then have "d = nat ((k' - j) mod n)" using Suc.hyps(2) by simp
    moreover have "0 \<le> k'" "k' < n" using Suc.prems by (auto simp: k'_def)
    moreover have "last_before idxs n k = last_before idxs n k'"
      using True by (subst last_before.simps) (simp add: k'_def Let_def)
    ultimately show ?thesis using Suc.hyps(1)[of k'] by simp
  qed
qed

definition inner :: "coordinate list \<Rightarrow> coordinate list \<Rightarrow> coordinate list" where
  "inner P1 P2 = filter (\<lambda>p. isPointInPolygon p P2) P1"

lemma map_nth_filter: "map (nth xs) (filter (\<lambda>i. P (xs ! i)) [0..<length xs]) = filter P xs"
proof -
  have "filter P xs = filter P (map (nth xs) [0..<length xs])" by (simp only: map_nth)
  then show ?thesis by (simp add: filter_map o_def)
qed

text \<open>
  The three outcomes: no point is inside (nil); all are (in their order, and no index); some are
  (rearranged by the sort), with the index of a point that stays.
\<close>

lemma getPoints_cases:
  assumes "sort_func (sort_coords rt)"
  obtains
    (none) "inner P1 P2 = []" "getPointsInPolygon rt P1 P2 = Some (None, - 1)"
  | (all) "inner P1 P2 = P1" "P1 \<noteq> []" "getPointsInPolygon rt P1 P2 = Some (Some P1, - 1)"
  | (part) pts k where "inner P1 P2 \<noteq> []" "getPointsInPolygon rt P1 P2 = Some (Some pts, int k)"
      "mset pts = mset (inner P1 P2)" "k < length P1" "\<not> isPointInPolygon (P1 ! k) P2"
proof -
  let ?idxs = "filter (\<lambda>i. isPointInPolygon (P1 ! i) P2) [0..<length P1]"
  have pts: "map (nth P1) ?idxs = inner P1 P2" unfolding inner_def by (rule map_nth_filter)
  then have len: "length ?idxs = length (inner P1 P2)" by (metis length_map)
  consider "inner P1 P2 = []" | "inner P1 P2 \<noteq> []" "length (inner P1 P2) = length P1"
    | "inner P1 P2 \<noteq> []" "length (inner P1 P2) \<noteq> length P1" by blast
  then show ?thesis
  proof cases
    case 1
    then show ?thesis using len by (intro none) (auto simp: getPointsInPolygon_def)
  next
    case 2
    then have "inner P1 P2 = P1"
      unfolding inner_def by (metis filter_True length_filter_less less_irrefl)
    then show ?thesis using 2 len pts by (intro all) (auto simp: getPointsInPolygon_def Let_def)
  next
    case 3
    then have ne: "?idxs \<noteq> []" using len by auto
    define i0 where "i0 = hd ?idxs"
    have i0: "i0 < length P1" using ne hd_in_set[of ?idxs] by (auto simp: i0_def)
    obtain j where j: "j < length P1" "\<not> isPointInPolygon (P1 ! j) P2"
      using 3(2) by (metis filter_True in_set_conv_nth inner_def)
    let ?n = "int (length P1)"
    let ?k = "remn (int i0 - 1 + ?n) ?n"
    have k: "?k = (int i0 - 1 + ?n) mod ?n" using i0 by (intro remn_nonneg) auto
    have "0 < ?n" using i0 by linarith
    then have "0 \<le> ?k" "?k < ?n" unfolding k by simp_all
    moreover have "int j \<notin> set (map int ?idxs)" using j(2) by auto
    ultimately obtain r where r: "last_before (map int ?idxs) ?n ?k = Some r" "0 \<le> r" "r < ?n"
        "r \<notin> set (map int ?idxs)"
      using last_before_spec[of "int j" ?n "map int ?idxs" ?k] j(1) by auto
    have slice: "slice_at (map int ?idxs) 0 = Some (int i0)"
      using ne by (subst slice_at_first) (simp_all add: i0_def hd_map)
    have "getPointsInPolygon rt P1 P2 = Some (Some (sort_coords rt cmp_radius (inner P1 P2)), r)"
      using 3 len slice r(1) unfolding getPointsInPolygon_def Let_def pts by simp
    moreover have "\<not> isPointInPolygon (P1 ! nat r) P2" using r by (auto simp: image_iff)
    ultimately show ?thesis
      using part[of "sort_coords rt cmp_radius (inner P1 P2)" "nat r"] 3(1) r
        sort_func.perm[OF assms] by auto
  qed
qed

lemma getPoints_returns:
  "sort_func (sort_coords rt) \<Longrightarrow> \<exists>r. getPointsInPolygon rt P1 P2 = Some r"
  by (rule getPoints_cases[of rt P1 P2]) auto

text \<open>The points found are exactly the inner ones, with their multiplicities; nil if none.\<close>

lemma getPoints_inner:
  assumes "sort_func (sort_coords rt)" "getPointsInPolygon rt P1 P2 = Some (pts, k)"
  shows "(pts = None \<longleftrightarrow> inner P1 P2 = [])" "pts = Some xs \<Longrightarrow> mset xs = mset (inner P1 P2)"
  by (rule getPoints_cases[OF assms(1), of P1 P2]; use assms(2) in auto)+

subsection \<open>Two overlapping squares, for examples\<close>

definition at_xy :: "rat \<Rightarrow> rat \<Rightarrow> coordinate" where
  "at_xy x y = \<lparr>coord_X = Fin x, coord_Y = Fin y, coord_Time = zero_time\<rparr>"

definition square_a :: "coordinate list" where
  "square_a = [at_xy 0 0, at_xy 4 0, at_xy 4 4, at_xy 0 4]"

definition square_b :: "coordinate list" where
  "square_b = [at_xy 2 2, at_xy 6 2, at_xy 6 6, at_xy 2 6]"

lemma ray_level:
  "fgt (coord_Y p) (coord_Y point) = fgt (coord_Y pj) (coord_Y point) \<Longrightarrow> \<not> ray_crosses point p pj"
  by (simp add: ray_crosses_def)

lemma ray_straddle:
  "fgt (coord_Y p) (coord_Y point) \<noteq> fgt (coord_Y pj) (coord_Y point) \<Longrightarrow>
   ray_crosses point p pj \<longleftrightarrow> flt (coord_X point)
     (fadd (fdiv (fmul (fsub (coord_X pj) (coord_X p)) (fsub (coord_Y point) (coord_Y p)))
              (fsub (coord_Y pj) (coord_Y p)))
       (coord_X p))"
  by (simp add: ray_crosses_def)

lemma inside_unroll4:
  "isPointInPolygon point [a, b, c, d] \<longleftrightarrow>
     same_point a point \<or> same_point b point \<or> same_point c point \<or> same_point d point \<or>
     (((ray_crosses point a b \<noteq> ray_crosses point b c) \<noteq> ray_crosses point c d) \<noteq> ray_crosses point d a)"
  by (simp add: isPointInPolygon_def next_index_def upt_rec)

lemmas ray_eval = at_xy_def ray_level ray_straddle same_point_def float_defs inside_unroll4

lemma inside_square_a: "isPointInPolygon (at_xy 2 2) square_a" "\<not> isPointInPolygon (at_xy 6 2) square_a"
  "\<not> isPointInPolygon (at_xy 6 6) square_a" "\<not> isPointInPolygon (at_xy 2 6) square_a"
  by (simp_all add: square_a_def ray_eval)

lemma inside_square_b: "\<not> isPointInPolygon (at_xy 0 0) square_b" "\<not> isPointInPolygon (at_xy 4 0) square_b"
  "isPointInPolygon (at_xy 4 4) square_b" "\<not> isPointInPolygon (at_xy 0 4) square_b"
  by (simp_all add: square_b_def ray_eval)

lemma inner_squares:
  "inner square_a square_b = [at_xy 4 4]" "inner square_b square_a = [at_xy 2 2]"
  using inside_square_a inside_square_b by (simp_all add: inner_def square_a_def square_b_def)

subsection \<open>Properties\<close>

text \<open>C25: The ray casting test is the parity rule: a point is inside iff it has the coordinates of a
  vertex, or its ray crosses an odd number of the edges (each vertex with the next, the last with
  the first).\<close>

theorem isPointInPolygon_parity:
  "isPointInPolygon point polygon \<longleftrightarrow>
     (\<exists>p\<in>set polygon. same_point p point) \<or>
     length (filter (\<lambda>(p, pj). ray_crosses point p pj) (zip polygon (rotate1 polygon))) mod 2 = 1"
  using inside_parity[of point polygon]
  by (simp only: crossed_def edges_def odd_iff_mod_2_eq_one)

text \<open>The test depends neither on the vertex the polygon is listed from nor on the
  representation of the point (its time, or the sign of a zero coordinate).\<close>

lemma isPointInPolygon_invariant:
  "isPointInPolygon point (rotate n polygon) = isPointInPolygon point polygon \<and>
   (same_point point point' \<longrightarrow> isPointInPolygon point polygon = isPointInPolygon point' polygon)"
  using inside_rotate inside_cong by blast

lemma isPointInPolygon_invariant_witness:
  "isPointInPolygon origin square_a = isPointInPolygon (origin\<lparr>coord_X := NegZero\<rparr>) square_a"
  using isPointInPolygon_invariant[of origin 0 square_a "origin\<lparr>coord_X := NegZero\<rparr>"]
  by (simp add: same_point_def origin_def feq_def)

text \<open>The crossing test never divides by zero on an edge it counts: the two ends of the edge
  differ in Y, and gradual underflow keeps their rounded difference away from zero.\<close>

lemma ray_crosses_divisor:
  assumes "ray_crosses point p pj" "fwf (coord_Y p)" "fwf (coord_Y pj)"
  shows "\<not> feq (fsub (coord_Y pj) (coord_Y p)) (Fin 0)"
  using assms straddle_divisor_nonzero[of "coord_Y p" "coord_Y pj" "coord_Y point"]
  by (simp add: ray_crosses_def)

text \<open>C24: \<open>getPointsInPolygon\<close> always returns, with every point of the first polygon that is inside the
  second (nil if there is none); the index it returns is that of a point that is not inside, and
  -1 exactly when all points or none are inside.\<close>

theorem getPointsInPolygon_correct:
  assumes "runtime_ok rt"
  shows "\<exists>pts k. getPointsInPolygon rt P1 P2 = Some (pts, k) \<and>
    (case pts of None \<Rightarrow> inner P1 P2 = [] | Some xs \<Rightarrow> xs \<noteq> [] \<and> mset xs = mset (inner P1 P2)) \<and>
    (if inner P1 P2 = [] \<or> inner P1 P2 = P1 then k = - 1
     else 0 \<le> k \<and> k < int (length P1) \<and> \<not> isPointInPolygon (P1 ! nat k) P2)"
proof (rule getPoints_cases[OF runtime_okD(3)[OF assms], of P1 P2])
  fix pts k
  assume part: "inner P1 P2 \<noteq> []" "getPointsInPolygon rt P1 P2 = Some (Some pts, int k)"
    "mset pts = mset (inner P1 P2)" "k < length P1" "\<not> isPointInPolygon (P1 ! k) P2"
  have "P1 ! k \<in> set P1" using part(4) by simp
  then have "P1 ! k \<notin> set (inner P1 P2)" "P1 ! k \<in> set P1" using part(5) by (simp_all add: inner_def)
  then have "inner P1 P2 \<noteq> P1" by metis
  moreover have "pts \<noteq> []"
  proof
    assume "pts = []"
    then show False using part(1,3) by simp
  qed
  ultimately show ?thesis using part by (intro exI[of _ "Some pts"] exI[of _ "int k"]) simp
qed simp_all


theorem getPointsInPolygon_correct_witness:
  "\<exists>pts k. getPointsInPolygon plain_rt square_a square_b = Some (Some pts, k) \<and>
    mset pts = {#at_xy 4 4#} \<and> 0 \<le> k \<and> k < 4 \<and> \<not> isPointInPolygon (square_a ! nat k) square_b"
proof -
  have "[at_xy 4 4] \<noteq> square_a" "length square_a = 4" by (simp_all add: square_a_def)
  then show ?thesis
    using getPointsInPolygon_correct[OF runtime_ok_plain_rt, of square_a square_b]
    by (auto simp: inner_squares split: option.splits)
qed

lemma ray_crosses_divisor_witness:
  "\<not> feq (fsub (Fin 4) (Fin 0)) (Fin 0)"
  using ray_crosses_divisor[of "at_xy 2 2" "at_xy 4 0" "at_xy 4 4"] rnd_of_int[of 4]
  by (simp add: ray_eval)

text \<open>The comparison by distance from the origin, which \<open>getPointsInPolygon\<close> sorts with, is not
  a strict weak order (it truncates the difference of the squares to an integer), so the order
  of the sorted points is not determined by the library's contract.\<close>

lemma cmp_radius_not_an_order: "\<not> cmp_order cmp_radius"
proof
  assume "cmp_order cmp_radius"
  then have law: "cmp_radius a b < 0 \<Longrightarrow> cmp_radius a c < 0 \<or> cmp_radius c b < 0" for a b c
    by (rule cmp_order.cotrans)
  have exact: "round64 False (9 / 16) = Fin (9 / 16)" "round64 False (- (9 / 16)) = Fin (- (9 / 16))"
    "round64 False (- (7 / 16)) = Fin (- (7 / 16))"
    using round64_dyadic[of 9 4 False] round64_dyadic[of "- 9" 4 False]
      round64_dyadic[of "- 7" 4 False] by simp_all
  have "cmp_radius (at_xy 0 0) (at_xy 1 0) = - 1"
    by (simp add: cmp_radius_def at_xy_def int_of_float_def float_defs trunc_rat_def)
  moreover have "cmp_radius (at_xy 0 0) (at_xy (3 / 4) 0) = 0" "cmp_radius (at_xy (3 / 4) 0) (at_xy 1 0) = 0"
    by (simp_all add: cmp_radius_def at_xy_def int_of_float_def float_defs exact)
  ultimately show False using law[of "at_xy 0 0" "at_xy 1 0" "at_xy (3 / 4) 0"] by simp
qed

end
