(* ===== verification/Helper.thy ===== *)
theory Helper
  imports Polygon
begin

section \<open>From live lines to polygons: services/run_processor_helper.go\<close>

text \<open>
  The first three steps of the processor: group the points by runner and order each group by
  time, keep the groups that form a cycle, and append their polygons to the known ones. The
  lemmas describe the resulting maps by lookup (\<open>segregate_get\<close>, \<open>createUserPolygons_get\<close>) and
  the resulting list (\<open>addPolygons_eq\<close>); \<open>IsCycle_sorted\<close> shows what the cycle test does to a
  line in time order. Loops over maps are numbered: 0 in \<open>segregatePointsByUser\<close>, 1 in
  \<open>createUserPolygonsMap\<close>, 2 in \<open>addPolygonsToNewPolygonArray\<close>.
\<close>

definition by_time :: "live_line \<Rightarrow> live_line \<Rightarrow> int" where
  "by_time a b = time_Compare (ll_Time a) (ll_Time b)"

interpretation lines_by_time: cmp_order by_time
  by unfold_locales (auto simp: by_time_def)

definition segregatePointsByUser :: "go_rt \<Rightarrow> live_line list \<Rightarrow> live_line list gomap" where
  "segregatePointsByUser rt liveLinesData =
     (let m = fold (\<lambda>liveLine m.
                gomap_set (ll_Sender liveLine) (gomap_slice m (ll_Sender liveLine) @ [liveLine]) m)
              liveLinesData gomap_empty
      in fold (\<lambda>userSub m. gomap_set userSub (sort_lines rt by_time (gomap_slice m userSub)) m)
           (range_order rt 0 (gomap_keys m)) m)"

definition createUserPolygonsMap ::
  "go_rt \<Rightarrow> live_line list gomap \<Rightarrow> run_processor_config \<Rightarrow> live_line list list gomap" where
  "createUserPolygonsMap rt lines cfg =
     fold (\<lambda>userSub m.
         let liveLines = gomap_slice lines userSub
         in if \<not> IsCycle liveLines cfg then m
            else gomap_set userSub (gomap_slice m userSub @ [liveLines]) m)
       (range_order rt 1 (gomap_keys lines)) gomap_empty"

definition addPolygonsToNewPolygonArray ::
  "go_rt \<Rightarrow> polygon_data list \<Rightarrow> live_line list list gomap \<Rightarrow> polygon_data list option" where
  "addPolygonsToNewPolygonArray rt polygonData polygonsOf =
     (let newPolygons = fold (\<lambda>polygon acc. acc @ [polygon]) polygonData []
      in fold_opt (\<lambda>userSub acc.
             fold_opt (\<lambda>polygon acc. do {
                 p \<leftarrow> ToPolygonData polygon;
                 Some (acc @ [p])
               }) (gomap_slice polygonsOf userSub) acc)
           (range_order rt 2 (gomap_keys polygonsOf)) newPolygons)"

subsection \<open>Grouping\<close>

abbreviation lines_of :: "string \<Rightarrow> live_line list \<Rightarrow> live_line list" where
  "lines_of u ls \<equiv> filter (\<lambda>l. ll_Sender l = u) ls"

lemma gomap_slice_set [simp]:
  "gomap_slice (gomap_set k vs m) k' = (if k' = k then vs else gomap_slice m k')"
  by (simp add: gomap_slice_def)

lemma gomap_slice_empty [simp]: "gomap_slice gomap_empty k = []"
  by (simp add: gomap_slice_def)

lemma in_keys_iff_get: "k \<in> set (gomap_keys m) \<longleftrightarrow> gomap_get m k \<noteq> None"
  by (simp add: gm.in_keys_iff)

lemma gomap_get_slice: "k \<in> set (gomap_keys m) \<Longrightarrow> gomap_get m k = Some (gomap_slice m k)"
  by (auto simp: gm.in_keys_iff gomap_slice_def)

lemma group_fold:
  fixes m :: "live_line list gomap"
  defines "step \<equiv> (\<lambda>l m. gomap_set (ll_Sender l) (gomap_slice m (ll_Sender l) @ [l]) m)"
  shows "gomap_slice (fold step ls m) u = gomap_slice m u @ lines_of u ls"
    and "set (gomap_keys (fold step ls m)) = set (gomap_keys m) \<union> ll_Sender ` set ls"
proof (induction ls arbitrary: m)
  case (Cons l ls)
  {
    case 1
    show ?case by (simp add: Cons.IH) (simp add: step_def)
  next
    case 2
    show ?case by (simp add: Cons.IH) (auto simp: step_def)
  }
qed simp_all

text \<open>Rewriting the value of each key in turn, whatever the order.\<close>

lemma map_values_fold:
  assumes "distinct ks"
  shows "gomap_slice (fold (\<lambda>k m. gomap_set k (f (gomap_slice m k)) m) ks m) u =
      (if u \<in> set ks then f (gomap_slice m u) else gomap_slice m u)"
    and "set (gomap_keys (fold (\<lambda>k m. gomap_set k (f (gomap_slice m k)) m) ks m)) =
      set ks \<union> set (gomap_keys m)"
  using assms
proof (induction ks arbitrary: m)
  case (Cons k ks)
  {
    case 1
    then show ?case by (simp add: Cons.IH(1))
  next
    case 2
    then show ?case by (simp add: Cons.IH(2))
  }
qed simp_all

lemma segregate_get:
  assumes "runtime_ok rt"
  shows "gomap_get (segregatePointsByUser rt ls) u =
      (if u \<in> ll_Sender ` set ls then Some (sort_lines rt by_time (lines_of u ls)) else None)"
    and "set (gomap_keys (segregatePointsByUser rt ls)) = ll_Sender ` set ls"
    and "gomap_wf (segregatePointsByUser rt ls)"
proof -
  let ?step = "\<lambda>l m. gomap_set (ll_Sender l) (gomap_slice m (ll_Sender l) @ [l]) m"
  define m where "m = fold ?step ls gomap_empty"
  have wf: "gomap_wf m" unfolding m_def by (rule gomap_wf_fold) simp
  have keys: "set (gomap_keys m) = ll_Sender ` set ls" unfolding m_def group_fold(2) by simp
  have slice: "gomap_slice m k = lines_of k ls" for k unfolding m_def group_fold(1) by simp
  define ks where "ks = range_order rt 0 (gomap_keys m)"
  have ks: "distinct ks" "set ks = ll_Sender ` set ls"
    using runtime_okD(5,6)[OF assms] gm.keys_distinct[OF wf] keys by (simp_all add: ks_def)
  have seg: "segregatePointsByUser rt ls =
      fold (\<lambda>k m. gomap_set k (sort_lines rt by_time (gomap_slice m k)) m) ks m"
    by (simp add: segregatePointsByUser_def m_def ks_def Let_def)
  show k: "set (gomap_keys (segregatePointsByUser rt ls)) = ll_Sender ` set ls"
    unfolding seg map_values_fold(2)[OF ks(1)] by (simp add: ks keys)
  show "gomap_wf (segregatePointsByUser rt ls)"
    unfolding seg by (rule gomap_wf_fold[OF wf])
  have "gomap_slice (segregatePointsByUser rt ls) u =
      (if u \<in> set ks then sort_lines rt by_time (lines_of u ls) else lines_of u ls)" for u
    unfolding seg map_values_fold(1)[OF ks(1)] slice ..
  then show "gomap_get (segregatePointsByUser rt ls) u =
      (if u \<in> ll_Sender ` set ls then Some (sort_lines rt by_time (lines_of u ls)) else None)"
    using gomap_get_slice[of u "segregatePointsByUser rt ls"]
      in_keys_iff_get[of u "segregatePointsByUser rt ls"] k ks by auto
qed

subsection \<open>The groups that form a cycle\<close>

lemma cycles_fold:
  assumes "distinct ks" "set ks \<inter> set (gomap_keys m) = {}"
  shows "gomap_get (fold (\<lambda>k m. if \<not> P (f k) then m
           else gomap_set k (gomap_slice m k @ [f k]) m) ks m) u =
      (if u \<in> set ks \<and> P (f u) then Some [f u] else gomap_get m u)"
  using assms
proof (induction ks arbitrary: m)
  case (Cons k ks)
  have "gomap_slice m k = []" using Cons.prems by (auto simp: gomap_slice_def gm.in_keys_iff)
  then show ?case using Cons.prems by (auto simp: Cons.IH)
qed simp

lemma cycles_fold_wf:
  "gomap_wf m \<Longrightarrow> gomap_wf (fold (\<lambda>k m. if \<not> P (f k) then m
     else gomap_set k (gomap_slice m k @ [f k]) m) ks m)"
  by (induction ks arbitrary: m) auto

lemma createUserPolygons_get:
  assumes "runtime_ok rt" "gomap_wf lines"
  shows "gomap_get (createUserPolygonsMap rt lines cfg) u =
      (case gomap_get lines u of None \<Rightarrow> None
       | Some ls \<Rightarrow> if IsCycle ls cfg then Some [ls] else None)"
    and "gomap_wf (createUserPolygonsMap rt lines cfg)"
proof -
  define ks where "ks = range_order rt 1 (gomap_keys lines)"
  have ks: "distinct ks" "set ks = set (gomap_keys lines)"
    using runtime_okD(5,6)[OF assms(1)] gm.keys_distinct[OF assms(2)] by (simp_all add: ks_def)
  have eq: "createUserPolygonsMap rt lines cfg =
      fold (\<lambda>k m. if \<not> IsCycle (gomap_slice lines k) cfg then m
        else gomap_set k (gomap_slice m k @ [gomap_slice lines k]) m) ks gomap_empty"
    by (simp add: createUserPolygonsMap_def ks_def Let_def)
  show "gomap_wf (createUserPolygonsMap rt lines cfg)"
    unfolding eq using cycles_fold_wf[of gomap_empty "\<lambda>ls. IsCycle ls cfg"] by simp
  have "gomap_get (createUserPolygonsMap rt lines cfg) u =
      (if u \<in> set ks \<and> IsCycle (gomap_slice lines u) cfg then Some [gomap_slice lines u] else None)"
    unfolding eq using cycles_fold[OF ks(1), of gomap_empty "\<lambda>ls. IsCycle ls cfg"] by simp
  then show "gomap_get (createUserPolygonsMap rt lines cfg) u =
      (case gomap_get lines u of None \<Rightarrow> None
       | Some ls \<Rightarrow> if IsCycle ls cfg then Some [ls] else None)"
    by (auto simp: ks gm.in_keys_iff gomap_slice_def split: option.splits)
qed

subsection \<open>The new polygons\<close>

definition line_polygon :: "live_line list \<Rightarrow> polygon_data" where
  "line_polygon ls = \<lparr>poly_Coords = map line_coordinate ls, poly_Runner = ll_Sender (hd ls),
     poly_Time = Max (ll_Time ` set ls)\<rparr>"

lemma ToPolygonData_line [simp]: "ls \<noteq> [] \<Longrightarrow> ToPolygonData ls = Some (line_polygon ls)"
  by (simp add: ToPolygonData_eq line_polygon_def)

lemma fold_append_id: "fold (\<lambda>p acc. acc @ [p]) ps acc = acc @ ps"
  by (induction ps arbitrary: acc) auto

lemma fold_opt_polygons:
  "\<forall>ls\<in>set lss. ls \<noteq> [] \<Longrightarrow>
   fold_opt (\<lambda>polygon acc. do { p \<leftarrow> ToPolygonData polygon; Some (acc @ [p]) }) lss acc =
     Some (acc @ map line_polygon lss)"
  by (induction lss arbitrary: acc) auto

lemma addPolygons_eq:
  assumes "\<And>u lss. gomap_get m u = Some lss \<Longrightarrow> \<forall>ls\<in>set lss. ls \<noteq> []"
  shows "addPolygonsToNewPolygonArray rt polygonData m = Some (polygonData @
     concat (map (\<lambda>u. map line_polygon (gomap_slice m u)) (range_order rt 2 (gomap_keys m))))"
proof -
  have ne: "\<forall>ls\<in>set (gomap_slice m u). ls \<noteq> []" for u
    using assms[of u] by (cases "gomap_get m u") (auto simp: gomap_slice_def)
  have "fold_opt (\<lambda>userSub acc. fold_opt (\<lambda>polygon acc. do {
          p \<leftarrow> ToPolygonData polygon; Some (acc @ [p]) }) (gomap_slice m userSub) acc) us acc =
      Some (acc @ concat (map (\<lambda>u. map line_polygon (gomap_slice m u)) us))" for us acc
    by (induction us arbitrary: acc) (simp_all add: fold_opt_polygons[OF ne])
  then show ?thesis
    by (simp add: addPolygonsToNewPolygonArray_def fold_append_id)
qed

subsection \<open>The cycle test on a line in time order\<close>

lemma IsCycle_length: "IsCycle ls cfg \<Longrightarrow> 2 \<le> length ls"
  by (auto simp: IsCycle_def split: if_splits)

lemma DELTA_bounds: "denotes DELTA (fval DELTA)" "0 \<le> fval DELTA" "fval DELTA \<le> 1 / 2"
proof -
  let ?q = "1 / 100000 :: rat"
  have half: "rnd (1 / 2) = 1 / 2" using rnd_half[of 1] by simp
  have le: "0 \<le> rnd ?q" "rnd ?q \<le> 1 / 2"
    using rnd_nonneg[of ?q] rnd_mono[of ?q "1 / 2"] half by simp_all
  then have "\<bar>rnd ?q\<bar> < 2 ^ 1024" by simp
  then have "denotes DELTA (rnd ?q)"
    unfolding DELTA_def flit_def by (rule denotes_round64)
  then show "denotes DELTA (fval DELTA)" "0 \<le> fval DELTA" "fval DELTA \<le> 1 / 2"
    using le by (auto simp: denotes_def)
qed

text \<open>A whole number of seconds, less DELTA, is above zero.\<close>

lemma seconds_threshold_positive:
  assumes "1 \<le> n" "n < 2 ^ 63"
  shows "flt (Fin 0) (fsub (float_of_int n) DELTA)"
proof -
  define r where "r = rnd (of_int n)"
  have one: "1 \<le> r" using rnd_mono[of 1 "of_int n"] rnd_of_int[of 1] assms(1) by (simp add: r_def)
  have "representable (2 ^ 63)"
    unfolding representable_def by (intro exI[of _ "1::int"] exI[of _ "63::int"]) simp
  then have up: "r \<le> 2 ^ 63"
    using rnd_mono[of "of_int n" "2 ^ 63"] rnd_representable assms(2) by (simp add: r_def)
  have "denotes (float_of_int n) r"
    unfolding float_of_int_def r_def by (rule denotes_round64) (use one up in \<open>simp add: r_def\<close>)
  moreover define d where "d = r - fval DELTA"
  have "1 / 2 \<le> d" "d \<le> 2 ^ 63" using one up DELTA_bounds by (auto simp: d_def)
  then have rd: "1 / 2 \<le> rnd d" "rnd d \<le> 2 ^ 63"
    using rnd_mono[of "1 / 2" d] rnd_half[of 1] rnd_mono[of d "2 ^ 63"]
      rnd_representable[OF \<open>representable (2 ^ 63)\<close>] by simp_all
  then have "\<bar>rnd d\<bar> < 2 ^ 1024" by simp
  ultimately have "denotes (fsub (float_of_int n) DELTA) (rnd d)"
    unfolding d_def using DELTA_bounds(1) by (intro denotes_fsub)
  then show ?thesis using rd denotes_flt[of "Fin 0" 0] by simp
qed

text \<open>
  The test subtracts the last time from the first, so for a line in time order the difference
  is never positive and the check on the duration rejects every line.
\<close>

lemma flt_not_positive_trans:
  "a \<noteq> NaN \<Longrightarrow> \<not> flt (Fin 0) a \<Longrightarrow> flt (Fin 0) b \<Longrightarrow> flt a b"
  by (cases a; cases b) (auto simp: flt_def)

lemma IsCycle_sorted:
  assumes "cfg_DoSecondsForCycleCheck cfg" "1 \<le> cfg_NumSecondsForCycle cfg"
    "cfg_NumSecondsForCycle cfg < 2 ^ 63" "sorted_wrt (\<lambda>a b. \<not> by_time b a < 0) ls"
  shows "\<not> IsCycle ls cfg"
proof (cases "length ls < 2")
  case False
  let ?first = "ls ! 0" and ?last = "ls ! (length ls - 1)"
  have "ll_Time ?first \<le> ll_Time ?last"
    using sorted_wrt_nth_less[OF assms(4), of 0 "length ls - 1"] False
    by (simp add: by_time_def not_less)
  then have d: "time_Sub (ll_Time ?first) (ll_Time ?last) \<le> 0" by (rule time_Sub_nonpos)
  have "flt (duration_Seconds (time_Sub (ll_Time ?first) (ll_Time ?last)))
      (fsub (float_of_int (cfg_NumSecondsForCycle cfg)) DELTA)"
    by (rule flt_not_positive_trans)
      (use d assms in \<open>auto simp: duration_Seconds_not_NaN duration_Seconds_not_positive
        seconds_threshold_positive\<close>)
  then show ?thesis using assms(1) by (simp add: IsCycle_def Let_def)
qed (simp add: IsCycle_def)

subsection \<open>Properties\<close>

text \<open>Grouping by runner: the map has one entry per runner that sent a point, holding exactly that
  runner's points in time order, whatever the order in which the map is visited.\<close>

lemma segregatePointsByUser_correct:
  assumes "runtime_ok rt"
  shows "let m = segregatePointsByUser rt ls in
    set (gomap_keys m) = ll_Sender ` set ls \<and> distinct (gomap_keys m) \<and>
    (\<forall>u\<in>ll_Sender ` set ls. \<exists>line. gomap_get m u = Some line \<and> mset line = mset (lines_of u ls) \<and>
       sorted (map ll_Time line))"
proof -
  have "mset (sort_lines rt by_time xs) = mset xs" "sorted (map ll_Time (sort_lines rt by_time xs))" for xs
    using sort_func.perm[OF runtime_okD(1)[OF assms(1)]]
      sort_func.ordered[OF runtime_okD(1)[OF assms(1)] lines_by_time.cmp_order_axioms, of xs]
    by (simp_all add: sorted_map by_time_def not_less)
  then show ?thesis
    using segregate_get(1,2)[OF assms(1), of ls] gm.keys_distinct[OF segregate_get(3)[OF assms(1), of ls]]
    by (simp add: Let_def)
qed

definition live_at :: "string \<Rightarrow> int \<Rightarrow> rat \<Rightarrow> rat \<Rightarrow> live_line" where
  "live_at sender t x y = \<lparr>ll_X = Fin x, ll_Y = Fin y, ll_Time = At t, ll_Sender = sender,
     ll_GroupCode = ''g''\<rparr>"

lemma segregatePointsByUser_correct_witness:
  "set (gomap_keys (segregatePointsByUser plain_rt [live_at ''u'' 2 0 0, live_at ''v'' 1 0 0,
     live_at ''u'' 1 5 5])) = {''u'', ''v''}"
  using segregatePointsByUser_correct[OF runtime_ok_plain_rt, of "[live_at ''u'' 2 0 0, live_at ''v'' 1 0 0,
     live_at ''u'' 1 5 5]"] by (simp add: live_at_def Let_def insert_commute)

text \<open>The map of new polygons has an entry exactly for the runners whose line is a cycle, and the
  entry is that one line.\<close>

lemma createUserPolygonsMap_correct:
  assumes "runtime_ok rt" "gomap_wf lines"
  shows "gomap_get (createUserPolygonsMap rt lines cfg) u =
    (case gomap_get lines u of None \<Rightarrow> None
     | Some ls \<Rightarrow> if IsCycle ls cfg then Some [ls] else None)"
  by (rule createUserPolygons_get(1)[OF assms])

lemma createUserPolygonsMap_correct_witness:
  "gomap_get (createUserPolygonsMap plain_rt (gomap_set ''u'' [live_at ''u'' 2 0 0] gomap_empty)
     (NewRunProcessorConfig (distance plain_rt) True 10 (Fin 1))) ''u'' = None"
  using createUserPolygonsMap_correct[OF runtime_ok_plain_rt,
      of "gomap_set ''u'' [live_at ''u'' 2 0 0] gomap_empty"
        "NewRunProcessorConfig (distance plain_rt) True 10 (Fin 1)" "''u''"]
  by (simp add: IsCycle_def)

text \<open>C6: With the check on the duration in force, as in production (ten seconds), no line in time
  order is ever a cycle: the code subtracts the last time from the first, so the difference is
  never above the threshold, however long the run and however near its ends.\<close>

theorem IsCycle_never_in_time_order:
  assumes "cfg_DoSecondsForCycleCheck cfg" "1 \<le> cfg_NumSecondsForCycle cfg"
    "cfg_NumSecondsForCycle cfg < 2 ^ 63" "sorted (map ll_Time line)"
  shows "\<not> IsCycle line cfg"
  by (rule IsCycle_sorted[OF assms(1-3)])
    (use assms(4) in \<open>simp add: sorted_map by_time_def not_less\<close>)

text \<open>A runner who comes back to the starting point after an hour.\<close>

theorem IsCycle_never_in_time_order_witness:
  "\<not> IsCycle [live_at ''u'' 0 0 0, live_at ''u'' 1800000000000 1 0, live_at ''u'' 3600000000000 0 0]
      (NewRunProcessorConfig (distance plain_rt) True 10 (Fin 1))"
  by (rule IsCycle_never_in_time_order) (simp_all add: NewRunProcessorConfig_def live_at_def)

end
