(* ===== verification/Eating.thy ===== *)
theory Eating
  imports Helper
begin

section \<open>Eating and merging polygons: services/run_processor.go\<close>

text \<open>
  \<open>eatPolygon\<close> cuts an older polygon where a newer one of another runner covers it;
  \<open>mergePolygons\<close> joins two overlapping polygons of one runner. \<open>eatPolygon_cases\<close> and
  \<open>mergePolygons_eq\<close> state what they compute in terms of \<open>inner\<close> and \<open>outer\<close>, the points of one
  polygon inside and outside another; everything the cleaning of a group needs follows from
  them.
\<close>

definition eatPolygon :: "go_rt \<Rightarrow> polygon_data \<Rightarrow> polygon_data \<Rightarrow> polygon_data option" where
  "eatPolygon rt p1 p2 = do {
     (pointsInP2, lastPointBeforeDeletion) \<leftarrow> getPointsInPolygon rt (poly_Coords p1) (poly_Coords p2);
     (pointsInP1, _) \<leftarrow> getPointsInPolygon rt (poly_Coords p2) (poly_Coords p1);
     case (pointsInP2, pointsInP1) of
       (Some inP2, Some inP1) \<Rightarrow> do {
         coords \<leftarrow>
           (if lastPointBeforeDeletion \<noteq> - 1 then do {
              firstPoint \<leftarrow> slice_at inP1 0;
              lastPoint \<leftarrow> slice_at inP1 (int (length inP1) - 1);
              point \<leftarrow> slice_at (poly_Coords p1) lastPointBeforeDeletion;
              let x = coord_X point;
              let y = coord_Y point;
              let inserted =
                (if fgt (distance rt (coord_X firstPoint) (coord_Y firstPoint) x y)
                      (distance rt (coord_X lastPoint) (coord_Y lastPoint) x y)
                 then rev inP1 else inP1);
              Some (fold (\<lambda>(idx, point) acc.
                  let acc = acc @ [point]
                  in if int idx = lastPointBeforeDeletion then acc @ inserted else acc)
                (enumerate 0 (poly_Coords p1)) [])
            }
            else Some []);
         Some \<lparr>poly_Coords = fold (\<lambda>point. slices_DeleteFunc (\<lambda>p. same_point point p)) inP2 coords,
               poly_Runner = poly_Runner p1, poly_Time = zero_time\<rparr>
       }
     | _ \<Rightarrow> Some p1
   }"

definition mergePolygons ::
  "go_rt \<Rightarrow> polygon_data \<Rightarrow> polygon_data \<Rightarrow> (polygon_data \<times> bool) option" where
  "mergePolygons rt polygon1 polygon2 = do {
     (pointsInPolygon2, _) \<leftarrow> getPointsInPolygon rt (poly_Coords polygon1) (poly_Coords polygon2);
     (pointsInPolygon1, _) \<leftarrow> getPointsInPolygon rt (poly_Coords polygon2) (poly_Coords polygon1);
     case (pointsInPolygon1, pointsInPolygon2) of
       (Some in1, Some in2) \<Rightarrow>
         let coords = poly_Coords polygon1 @ poly_Coords polygon2;
             coords = fold (\<lambda>point. slices_DeleteFunc (\<lambda>p. same_point point p)) in2 coords;
             coords = fold (\<lambda>point. slices_DeleteFunc (\<lambda>p. same_point point p)) in1 coords
         in Some (\<lparr>poly_Coords = sortPointsByDistance rt coords,
                   poly_Runner = poly_Runner polygon1, poly_Time = zero_time\<rparr>, True)
     | _ \<Rightarrow> Some (polygon1, False)
   }"

subsection \<open>Inner and outer points\<close>

definition outer :: "coordinate list \<Rightarrow> coordinate list \<Rightarrow> coordinate list" where
  "outer P1 P2 = filter (\<lambda>p. \<not> isPointInPolygon p P2) P1"

lemma set_inner: "set (inner P1 P2) = {p \<in> set P1. isPointInPolygon p P2}"
  by (auto simp: inner_def)

lemma set_outer: "set (outer P1 P2) = {p \<in> set P1. \<not> isPointInPolygon p P2}"
  by (auto simp: outer_def)

lemma mset_inner_set: "mset xs = mset (inner P1 P2) \<Longrightarrow> set xs = {p \<in> set P1. isPointInPolygon p P2}"
  by (metis set_inner set_mset_mset)

text \<open>Deleting, by coordinates, the inner points of a polygon from its own points leaves the outer ones.\<close>

lemma delete_inner:
  assumes "p \<in> set P1" "set xs = {q \<in> set P1. isPointInPolygon q P2}"
  shows "(\<forall>q\<in>set xs. \<not> same_point q p) \<longleftrightarrow> \<not> isPointInPolygon p P2"
  using assms inside_same_point[of p P2] inside_cong[of _ p P2] by auto

text \<open>The insertion loop puts the new points right behind the given index.\<close>

lemma insertion_fold:
  "fold (\<lambda>(idx, point) acc. let acc = acc @ [point] in if int idx = int k then acc @ xs else acc)
     (enumerate n cs) acc =
   (if n \<le> k \<and> k < n + length cs
    then acc @ take (Suc k - n) cs @ xs @ drop (Suc k - n) cs else acc @ cs)"
proof (induction cs arbitrary: n acc)
  case (Cons c cs)
  then show ?case by (cases "n = k") (auto simp: Let_def Suc_diff_le)
qed auto

subsection \<open>What eatPolygon computes\<close>

text \<open>
  Nothing if one of the two has no point in the other; an empty polygon if the older one lies
  inside the newer one with all its points; else the older polygon's outer points, in order,
  with those points of the newer one that are inside the older one (and do not coincide with a
  deleted point) inserted in one place.
\<close>

lemma eatPolygon_cases:
  fixes p1 p2 :: polygon_data
  assumes "sort_func (sort_coords rt)"
  defines "c1 \<equiv> poly_Coords p1" and "c2 \<equiv> poly_Coords p2"
  obtains
    (apart) "inner c1 c2 = [] \<or> inner c2 c1 = []" "eatPolygon rt p1 p2 = Some p1"
  | (swallowed) "inner c1 c2 = c1" "inner c1 c2 \<noteq> []" "inner c2 c1 \<noteq> []"
      "eatPolygon rt p1 p2 =
        Some \<lparr>poly_Coords = [], poly_Runner = poly_Runner p1, poly_Time = zero_time\<rparr>"
  | (bitten) k xs where "inner c1 c2 \<noteq> []" "inner c2 c1 \<noteq> []" "k < length c1"
      "\<not> isPointInPolygon (c1 ! k) c2" "mset xs = mset (inner c2 c1)"
      "eatPolygon rt p1 p2 =
        Some \<lparr>poly_Coords = outer (take (Suc k) c1) c2 @
                filter (\<lambda>q. \<forall>p\<in>set (inner c1 c2). \<not> same_point p q) xs @ outer (drop (Suc k) c1) c2,
              poly_Runner = poly_Runner p1, poly_Time = zero_time\<rparr>"
proof -
  have "\<exists>r1 k1. getPointsInPolygon rt c2 c1 = Some (r1, k1) \<and> (r1 = None \<longleftrightarrow> inner c2 c1 = []) \<and>
      (\<forall>xs. r1 = Some xs \<longrightarrow> mset xs = mset (inner c2 c1))"
    by (rule getPoints_cases[OF assms(1), of c2 c1]) auto
  then obtain r1 k1 where g1: "getPointsInPolygon rt c2 c1 = Some (r1, k1)"
      "r1 = None \<longleftrightarrow> inner c2 c1 = []" "\<And>xs. r1 = Some xs \<Longrightarrow> mset xs = mset (inner c2 c1)"
    by blast
  show ?thesis
  proof (cases "inner c2 c1 = []")
    case True
    then have "r1 = None" using g1(2) by simp
    then have "eatPolygon rt p1 p2 = Some p1"
      using g1(1) getPoints_returns[OF assms(1), of c1 c2]
      by (auto simp: eatPolygon_def c1_def c2_def split: option.splits)
    then show ?thesis using True apart by blast
  next
    case False
    then obtain in1 where in1: "r1 = Some in1" using g1(2) by (cases r1) blast+
    have in1_mset: "mset in1 = mset (inner c2 c1)" by (rule g1(3)[OF in1])
    have in1_ne: "in1 \<noteq> []"
    proof
      assume "in1 = []"
      then show False using in1_mset False by simp
    qed
    show ?thesis
    proof (rule getPoints_cases[OF assms(1), of c1 c2])
      assume "inner c1 c2 = []" "getPointsInPolygon rt c1 c2 = Some (None, - 1)"
      then show ?thesis using g1(1) in1
        by (intro apart) (auto simp: eatPolygon_def c1_def c2_def)
    next
      assume all: "inner c1 c2 = c1" "c1 \<noteq> []" "getPointsInPolygon rt c1 c2 = Some (Some c1, - 1)"
      then show ?thesis using g1(1) in1 in1_ne False
        by (intro swallowed) (auto simp: eatPolygon_def c1_def c2_def fold_DeleteFunc)
    next
      fix pts k
      assume part: "inner c1 c2 \<noteq> []" "getPointsInPolygon rt c1 c2 = Some (Some pts, int k)"
        "mset pts = mset (inner c1 c2)" "k < length c1" "\<not> isPointInPolygon (c1 ! k) c2"
      define x where "x = coord_X (c1 ! k)"
      define y where "y = coord_Y (c1 ! k)"
      define ins where "ins = (if fgt (distance rt (coord_X (hd in1)) (coord_Y (hd in1)) x y)
          (distance rt (coord_X (last in1)) (coord_Y (last in1)) x y) then rev in1 else in1)"
      have pts: "set pts = {p \<in> set c1. isPointInPolygon p c2}" by (rule mset_inner_set[OF part(3)])
      have at_k: "slice_at c1 (int k) = Some (c1 ! k)" using part(4) by (simp add: slice_at_in)
      have eat: "eatPolygon rt p1 p2 = Some \<lparr>poly_Coords =
          filter (\<lambda>q. \<forall>p\<in>set pts. \<not> same_point p q) (take (Suc k) c1 @ ins @ drop (Suc k) c1),
          poly_Runner = poly_Runner p1, poly_Time = zero_time\<rparr>"
        using part(2,4) g1(1) in1 in1_ne at_k insertion_fold[of k _ 0 c1 "[]"]
        by (simp add: eatPolygon_def fold_DeleteFunc ins_def x_def y_def Let_def flip: c1_def c2_def)
      have out: "filter (\<lambda>q. \<forall>p\<in>set pts. \<not> same_point p q) cs = outer cs c2" if "set cs \<subseteq> set c1" for cs
        unfolding outer_def using that delete_inner[OF _ pts] by (intro filter_cong) auto
      have sub: "set (take (Suc k) c1) \<subseteq> set c1" "set (drop (Suc k) c1) \<subseteq> set c1"
        by (simp_all add: set_take_subset set_drop_subset)
      have "set pts = set (inner c1 c2)" using pts by (simp add: set_inner)
      then have "eatPolygon rt p1 p2 = Some \<lparr>poly_Coords = outer (take (Suc k) c1) c2 @
          filter (\<lambda>q. \<forall>p\<in>set (inner c1 c2). \<not> same_point p q) ins @ outer (drop (Suc k) c1) c2,
          poly_Runner = poly_Runner p1, poly_Time = zero_time\<rparr>"
        unfolding eat filter_append out[OF sub(1)] out[OF sub(2)] by simp
      moreover have "mset ins = mset (inner c2 c1)" using in1_mset by (simp add: ins_def)
      ultimately show ?thesis using part False by (intro bitten)
    qed
  qed
qed

lemma eatPolygon_returns:
  "sort_func (sort_coords rt) \<Longrightarrow> \<exists>p. eatPolygon rt p1 p2 = Some p"
  by (rule eatPolygon_cases[of rt p1 p2]) auto

lemma eatPolygon_runner:
  assumes "sort_func (sort_coords rt)" "eatPolygon rt p1 p2 = Some p"
  shows "poly_Runner p = poly_Runner p1"
  by (rule eatPolygon_cases[OF assms(1), of p1 p2]; use assms(2) in auto)

text \<open>Every point of the result is an outer point of the older polygon or an inner one of the newer.\<close>

lemma eatPolygon_points:
  assumes "sort_func (sort_coords rt)" "eatPolygon rt p1 p2 = Some p" "p \<noteq> p1"
  shows "set (poly_Coords p) \<subseteq> set (outer (poly_Coords p1) (poly_Coords p2)) \<union>
    set (inner (poly_Coords p2) (poly_Coords p1))"
proof (rule eatPolygon_cases[OF assms(1), of p1 p2])
  fix k xs
  let ?c1 = "poly_Coords p1" and ?c2 = "poly_Coords p2"
  assume xs: "mset xs = mset (inner ?c2 ?c1)"
    and p: "eatPolygon rt p1 p2 = Some \<lparr>poly_Coords = outer (take (Suc k) ?c1) ?c2 @
        filter (\<lambda>q. \<forall>p\<in>set (inner ?c1 ?c2). \<not> same_point p q) xs @ outer (drop (Suc k) ?c1) ?c2,
      poly_Runner = poly_Runner p1, poly_Time = zero_time\<rparr>"
  have "set xs = set (inner ?c2 ?c1)" using mset_inner_set[OF xs] by (simp add: set_inner)
  moreover have "set (outer (take (Suc k) ?c1) ?c2) \<subseteq> set (outer ?c1 ?c2)"
    "set (outer (drop (Suc k) ?c1) ?c2) \<subseteq> set (outer ?c1 ?c2)"
    by (auto simp: set_outer dest: in_set_takeD in_set_dropD)
  ultimately show ?thesis using p assms(2) by auto
qed (use assms(2,3) in auto)

lemma eatPolygon_coords:
  assumes "sort_func (sort_coords rt)" "eatPolygon rt p1 p2 = Some p"
  shows "set (poly_Coords p) \<subseteq> set (poly_Coords p1) \<union> set (poly_Coords p2)"
  using eatPolygon_points[OF assms] by (cases "p = p1") (auto simp: set_outer set_inner)

text \<open>No point of the older polygon that lies inside the newer one is left.\<close>

lemma eatPolygon_bites:
  assumes "sort_func (sort_coords rt)" "eatPolygon rt p1 p2 = Some p" "p \<noteq> p1"
    and "q \<in> set (poly_Coords p1)" "isPointInPolygon q (poly_Coords p2)"
  shows "\<forall>r\<in>set (poly_Coords p). \<not> same_point q r"
proof (rule eatPolygon_cases[OF assms(1), of p1 p2])
  fix k xs
  let ?c1 = "poly_Coords p1" and ?c2 = "poly_Coords p2"
  assume p: "eatPolygon rt p1 p2 = Some \<lparr>poly_Coords = outer (take (Suc k) ?c1) ?c2 @
        filter (\<lambda>q. \<forall>p\<in>set (inner ?c1 ?c2). \<not> same_point p q) xs @ outer (drop (Suc k) ?c1) ?c2,
      poly_Runner = poly_Runner p1, poly_Time = zero_time\<rparr>"
  have "\<not> same_point q r" if "\<not> isPointInPolygon r ?c2" for r
    using that assms(5) inside_cong[of q r ?c2] by blast
  moreover have "q \<in> set (inner ?c1 ?c2)" using assms(4,5) by (simp add: set_inner)
  ultimately show ?thesis using p assms(2) by (auto simp: set_outer)
qed (use assms(2,3) in auto)

subsection \<open>What mergePolygons computes\<close>

text \<open>Deleting the inner points of both leaves the outer points of the one and of the other.\<close>

lemma delete_both:
  "filter (\<lambda>q. \<forall>p\<in>set (inner a b) \<union> set (inner b a). \<not> same_point p q) a = outer a b"
  "filter (\<lambda>q. \<forall>p\<in>set (inner a b) \<union> set (inner b a). \<not> same_point p q) b = outer b a"
proof -
  have one: "filter (\<lambda>q. \<forall>p\<in>set (inner a b) \<union> set (inner b a). \<not> same_point p q) a = outer a b" for a b
    unfolding outer_def
  proof (rule filter_cong[OF refl])
    fix q assume q: "q \<in> set a"
    have "(\<forall>p\<in>set (inner a b). \<not> same_point p q) \<longleftrightarrow> \<not> isPointInPolygon q b"
      by (rule delete_inner[OF q set_inner])
    moreover have "isPointInPolygon q b" if "p \<in> set (inner b a)" "same_point p q" for p
      using that by (auto simp: set_inner intro: inside_vertex)
    ultimately show "(\<forall>p\<in>set (inner a b) \<union> set (inner b a). \<not> same_point p q) \<longleftrightarrow>
        \<not> isPointInPolygon q b" by blast
  qed
  show "filter (\<lambda>q. \<forall>p\<in>set (inner a b) \<union> set (inner b a). \<not> same_point p q) a = outer a b"
    by (rule one)
  show "filter (\<lambda>q. \<forall>p\<in>set (inner a b) \<union> set (inner b a). \<not> same_point p q) b = outer b a"
    using one[of b a] by (simp only: Un_commute)
qed

lemma mergePolygons_eq:
  fixes p1 p2 :: polygon_data
  assumes "sort_func (sort_coords rt)"
  defines "c1 \<equiv> poly_Coords p1" and "c2 \<equiv> poly_Coords p2"
  shows "mergePolygons rt p1 p2 = Some
    (if inner c1 c2 = [] \<or> inner c2 c1 = [] then (p1, False)
     else (\<lparr>poly_Coords = sortPointsByDistance rt (outer c1 c2 @ outer c2 c1),
            poly_Runner = poly_Runner p1, poly_Time = zero_time\<rparr>, True))"
proof -
  have outcome: "\<exists>r k. getPointsInPolygon rt a b = Some (r, k) \<and>
      (case r of None \<Rightarrow> inner a b = [] | Some xs \<Rightarrow> inner a b \<noteq> [] \<and> set xs = set (inner a b))" for a b
  proof (rule getPoints_cases[OF assms(1), of a b])
    fix pts k
    assume "inner a b \<noteq> []" "getPointsInPolygon rt a b = Some (Some pts, int k)"
      and m: "mset pts = mset (inner a b)"
    moreover have "set pts = set (inner a b)" using mset_inner_set[OF m] by (simp add: set_inner)
    ultimately show ?thesis by simp
  qed simp_all
  obtain r2 k2 r1 k1 where g: "getPointsInPolygon rt c1 c2 = Some (r2, k2)"
      "getPointsInPolygon rt c2 c1 = Some (r1, k1)"
    and r2: "case r2 of None \<Rightarrow> inner c1 c2 = []
      | Some xs \<Rightarrow> inner c1 c2 \<noteq> [] \<and> set xs = set (inner c1 c2)"
    and r1: "case r1 of None \<Rightarrow> inner c2 c1 = []
      | Some xs \<Rightarrow> inner c2 c1 \<noteq> [] \<and> set xs = set (inner c2 c1)"
    using outcome[of c1 c2] outcome[of c2 c1] by blast
  show ?thesis
  proof (cases r1)
    case None
    then show ?thesis using g r1 by (simp add: mergePolygons_def flip: c1_def c2_def)
  next
    case r1_Some: (Some xs)
    show ?thesis
    proof (cases r2)
      case None
      then show ?thesis using g r2 r1_Some by (simp add: mergePolygons_def flip: c1_def c2_def)
    next
      case (Some ys)
      have "filter (\<lambda>q. (\<forall>p\<in>set (inner c1 c2). \<not> same_point p q) \<and>
          (\<forall>p\<in>set (inner c2 c1). \<not> same_point p q)) (c1 @ c2) = outer c1 c2 @ outer c2 c1"
        using delete_both[of c1 c2] by (simp add: ball_Un)
      then show ?thesis using g r1 r2 r1_Some Some
        by (simp add: mergePolygons_def Let_def fold_DeleteFunc conj_commute flip: c1_def c2_def)
    qed
  qed
qed

lemma mergePolygons_runner:
  "sort_func (sort_coords rt) \<Longrightarrow> mergePolygons rt p1 p2 = Some (p, b) \<Longrightarrow>
    poly_Runner p = poly_Runner p1"
  by (auto simp: mergePolygons_eq split: if_splits)

lemma mergePolygons_coords:
  assumes "sort_func (sort_coords rt)" "mergePolygons rt p1 p2 = Some (p, b)"
  shows "set (poly_Coords p) \<subseteq> set (poly_Coords p1) \<union> set (poly_Coords p2)"
  using assms(2) sortPoints_submset[THEN set_mset_mono]
  by (fastforce simp: mergePolygons_eq[OF assms(1)] set_outer split: if_splits)

subsection \<open>Properties\<close>

text \<open>C3: Eating a polygon always returns and keeps its runner. If one of the two polygons has no
  point inside the other nothing changes. Otherwise no vertex with the coordinates of an eaten one
  is left, the points outside the newer polygon stay in their order, every other point is one of
  the newer polygon's points inside the older one, and the polygon is emptied exactly if all its
  points are inside the newer one.\<close>

theorem eatPolygon_correct:
  fixes p1 p2 :: polygon_data
  assumes "runtime_ok rt"
  shows "let c1 = poly_Coords p1; c2 = poly_Coords p2 in
    \<exists>p. eatPolygon rt p1 p2 = Some p \<and> poly_Runner p = poly_Runner p1 \<and>
    (if inner c1 c2 = [] \<or> inner c2 c1 = [] then p = p1
     else (\<forall>q\<in>set (inner c1 c2). \<forall>r\<in>set (poly_Coords p). \<not> same_point q r) \<and>
          (if inner c1 c2 = c1 then poly_Coords p = []
           else subseq (outer c1 c2) (poly_Coords p) \<and>
                set (poly_Coords p) \<subseteq> set (outer c1 c2) \<union> set (inner c2 c1)))"
proof -
  define c1 c2 where defs: "c1 = poly_Coords p1" "c2 = poly_Coords p2"
  show ?thesis
  proof (rule eatPolygon_cases[OF runtime_okD(3)[OF assms(1)], of p1 p2, folded defs])
    assume "inner c1 c2 = [] \<or> inner c2 c1 = []" "eatPolygon rt p1 p2 = Some p1"
    then show ?thesis unfolding Let_def defs[symmetric] by auto
  next
    assume "inner c1 c2 = c1" "inner c1 c2 \<noteq> []" "inner c2 c1 \<noteq> []"
      "eatPolygon rt p1 p2 = Some \<lparr>poly_Coords = [], poly_Runner = poly_Runner p1, poly_Time = zero_time\<rparr>"
    then show ?thesis unfolding Let_def defs[symmetric] by simp
  next
    fix k xs
    let ?xs = "filter (\<lambda>q. \<forall>p\<in>set (inner c1 c2). \<not> same_point p q) xs"
    assume ne: "inner c1 c2 \<noteq> []" "inner c2 c1 \<noteq> []" and k: "k < length c1" "\<not> isPointInPolygon (c1 ! k) c2"
      and xs: "mset xs = mset (inner c2 c1)"
      and p: "eatPolygon rt p1 p2 = Some \<lparr>poly_Coords = outer (take (Suc k) c1) c2 @ ?xs @ outer (drop (Suc k) c1) c2,
          poly_Runner = poly_Runner p1, poly_Time = zero_time\<rparr>"
    have c1: "outer c1 c2 = outer (take (Suc k) c1) c2 @ outer (drop (Suc k) c1) c2"
      unfolding outer_def by (metis append_take_drop_id filter_append)
    have clear: "\<not> same_point q r" if "q \<in> set (inner c1 c2)" "r \<in> set (outer c1 c2)" for q r
      using that inside_cong[of q r c2] by (auto simp: set_inner set_outer)
    define cs where "cs = outer (take (Suc k) c1) c2 @ ?xs @ outer (drop (Suc k) c1) c2"
    have "set xs = set (inner c2 c1)" using xs by (metis set_mset_mset)
    then have from_both: "set cs \<subseteq> set (outer c1 c2) \<union> set (inner c2 c1)"
      by (auto simp: c1 cs_def)
    have stays: "subseq (outer c1 c2) cs"
      unfolding c1 cs_def by (rule list_emb_append_mono) (auto intro: list_emb_append2)
    have gone: "\<forall>q\<in>set (inner c1 c2). \<forall>r\<in>set cs. \<not> same_point q r"
      using clear by (auto simp: c1 cs_def)
    have "inner c1 c2 \<noteq> c1"
    proof
      assume "inner c1 c2 = c1"
      then have "c1 ! k \<in> set (inner c1 c2)" using k(1) by simp
      then show False using k(2) by (simp add: set_inner)
    qed
    then show ?thesis
      using ne from_both stays gone unfolding Let_def defs[symmetric] p[folded cs_def] by simp
  qed
qed

definition polygon_of :: "coordinate list \<Rightarrow> string \<Rightarrow> int \<Rightarrow> polygon_data" where
  "polygon_of cs runner t = \<lparr>poly_Coords = cs, poly_Runner = runner, poly_Time = At t\<rparr>"

lemma polygon_of_simps [simp]:
  "poly_Coords (polygon_of cs r t) = cs" "poly_Runner (polygon_of cs r t) = r"
  "poly_Time (polygon_of cs r t) = At t"
  by (simp_all add: polygon_of_def)

theorem eatPolygon_correct_witness:
  "\<exists>p. eatPolygon plain_rt (polygon_of square_a ''u'' 1) (polygon_of square_b ''v'' 2) = Some p \<and>
    subseq [at_xy 0 0, at_xy 4 0, at_xy 0 4] (poly_Coords p) \<and>
    set (poly_Coords p) \<subseteq> {at_xy 0 0, at_xy 4 0, at_xy 0 4, at_xy 2 2}"
proof -
  have o: "outer square_a square_b = [at_xy 0 0, at_xy 4 0, at_xy 0 4]"
    using inside_square_b by (simp add: outer_def square_a_def)
  have ne: "[at_xy 4 4] \<noteq> square_a" by (simp add: square_a_def)
  show ?thesis
    using eatPolygon_correct[OF runtime_ok_plain_rt, of "polygon_of square_a ''u'' 1" "polygon_of square_b ''v'' 2"]
    unfolding Let_def polygon_of_simps inner_squares o by (simp add: ne) blast
qed

text \<open>C4: Merging two polygons that each have a point inside the other gives the points of the first
  outside the second, then those of the second outside the first, in nearest-neighbour order;
  otherwise the first polygon comes back and nothing is merged.\<close>

theorem mergePolygons_correct:
  fixes p1 p2 :: polygon_data
  assumes "runtime_ok rt"
  shows "let c1 = poly_Coords p1; c2 = poly_Coords p2 in mergePolygons rt p1 p2 = Some
    (if inner c1 c2 = [] \<or> inner c2 c1 = [] then (p1, False)
     else (\<lparr>poly_Coords = sortPointsByDistance rt (outer c1 c2 @ outer c2 c1),
            poly_Runner = poly_Runner p1, poly_Time = zero_time\<rparr>, True))"
  unfolding Let_def by (rule mergePolygons_eq[OF runtime_okD(3)[OF assms(1)]])

theorem mergePolygons_correct_witness:
  "\<exists>p. mergePolygons plain_rt (polygon_of square_a ''u'' 1) (polygon_of square_b ''u'' 2) = Some (p, True)"
  using mergePolygons_correct[OF runtime_ok_plain_rt, of "polygon_of square_a ''u'' 1" "polygon_of square_b ''u'' 2"]
  by (simp add: inner_squares Let_def)

end
