(* ===== verification/Cleaning.thy ===== *)
theory Cleaning
  imports Eating
begin

section \<open>Cleaning the polygons of a group: services/run_processor.go\<close>

text \<open>
  \<open>cleanPolygons\<close> in its phases: newest first, every polygon is eaten by the newer ones of other
  runners (\<open>eat_phase\<close>), the polygons of one runner are merged (\<open>merge_phase\<close>), and the rest is
  listed by runner. \<open>merge_runner\<close> is the merging of one runner's polygons alone; the map of the
  code is the table of its results (\<open>merge_phase_spec\<close>), so the whole function is a
  concatenation over the sorted runners (\<open>cleanPolygons_spec\<close>), and the facts about one runner
  lift to the result. The loop over the map has number 3.
\<close>

subsection \<open>The function\<close>

definition newest_first :: "polygon_data \<Rightarrow> polygon_data \<Rightarrow> int" where
  "newest_first a b = time_Compare (poly_Time b) (poly_Time a)"

interpretation polygons_by_time: cmp_order newest_first
  by unfold_locales (auto simp: newest_first_def)

definition eat_all :: "go_rt \<Rightarrow> polygon_data list \<Rightarrow> polygon_data \<Rightarrow> polygon_data option" where
  "eat_all rt cleanedPolygons polygon =
     fold_opt (\<lambda>cleanedPolygon polygon.
         if poly_Runner polygon = poly_Runner cleanedPolygon then Some polygon
         else eatPolygon rt polygon cleanedPolygon)
       cleanedPolygons polygon"

definition eat_phase :: "go_rt \<Rightarrow> polygon_data list \<Rightarrow> polygon_data list option" where
  "eat_phase rt polygons =
     fold_opt (\<lambda>polygon cleanedPolygons. do {
         polygon \<leftarrow> eat_all rt cleanedPolygons polygon;
         Some (cleanedPolygons @ [polygon])
       }) polygons []"

text \<open>
  The inner loop of the merging: the first polygon that can be merged is replaced and the loop
  left. The write to \<open>data[idx]\<close> goes to the slice that the map holds, so the caller stores the
  changed list.
\<close>

fun merge_into ::
  "go_rt \<Rightarrow> polygon_data \<Rightarrow> polygon_data list \<Rightarrow> (polygon_data list \<times> bool) option" where
  "merge_into rt polygon [] = Some ([], False)"
| "merge_into rt polygon (d # data) = do {
     (newPolygon, canBeMerged) \<leftarrow> mergePolygons rt polygon d;
     if canBeMerged then Some (newPolygon # data, True)
     else do {
       (data, found) \<leftarrow> merge_into rt polygon data;
       Some (d # data, found)
     }
   }"

definition merge_step ::
  "go_rt \<Rightarrow> polygon_data \<Rightarrow> polygon_data list gomap \<Rightarrow> polygon_data list gomap option" where
  "merge_step rt polygon m =
     (let runner = poly_Runner polygon
      in case gomap_get m runner of
           None \<Rightarrow> Some (gomap_set runner (gomap_slice m runner @ [polygon]) m)
         | Some data \<Rightarrow> do {
             (data, found) \<leftarrow> merge_into rt polygon data;
             let m = gomap_set runner data m;
             Some (if \<not> found then gomap_set runner (gomap_slice m runner @ [polygon]) m else m)
           })"

definition merge_phase :: "go_rt \<Rightarrow> polygon_data list \<Rightarrow> polygon_data list gomap option" where
  "merge_phase rt cleanedPolygons = fold_opt (merge_step rt) cleanedPolygons gomap_empty"

definition list_by_runner :: "go_rt \<Rightarrow> polygon_data list gomap \<Rightarrow> polygon_data list" where
  "list_by_runner rt m =
     (let runners = fold (\<lambda>runner acc. acc @ [runner]) (range_order rt 3 (gomap_keys m)) [];
          runners = sort runners
      in fold (\<lambda>runner acc. fold (\<lambda>p acc. acc @ [p]) (gomap_slice m runner) acc) runners [])"

definition cleanPolygons :: "go_rt \<Rightarrow> polygon_data list \<Rightarrow> polygon_data list option" where
  "cleanPolygons rt polygons = do {
     cleanedPolygons \<leftarrow> eat_phase rt (sort_polygons rt newest_first polygons);
     merged \<leftarrow> merge_phase rt cleanedPolygons;
     Some (list_by_runner rt merged)
   }"

subsection \<open>Eating, newest first\<close>

text \<open>All points of a list of polygons.\<close>

definition points_of :: "polygon_data list \<Rightarrow> coordinate set" where
  "points_of ps = (\<Union>p\<in>set ps. set (poly_Coords p))"

lemma points_of_simps [simp]:
  "points_of [] = {}" "points_of (p # ps) = set (poly_Coords p) \<union> points_of ps"
  "points_of (ps @ qs) = points_of ps \<union> points_of qs"
  by (auto simp: points_of_def)

lemma points_of_mono: "set ps \<subseteq> set qs \<Longrightarrow> points_of ps \<subseteq> points_of qs"
  unfolding points_of_def by (rule UN_mono) auto

lemma eat_all_spec:
  assumes "sort_func (sort_coords rt)"
  shows "\<exists>p. eat_all rt cs polygon = Some p \<and> poly_Runner p = poly_Runner polygon \<and>
    set (poly_Coords p) \<subseteq> set (poly_Coords polygon) \<union> points_of cs"
  unfolding eat_all_def
proof (rule fold_opt_total[where P = "\<lambda>p. poly_Runner p = poly_Runner polygon \<and>
    set (poly_Coords p) \<subseteq> set (poly_Coords polygon) \<union> points_of cs"])
  fix c p :: polygon_data
  assume c: "c \<in> set cs" and p: "poly_Runner p = poly_Runner polygon \<and>
    set (poly_Coords p) \<subseteq> set (poly_Coords polygon) \<union> points_of cs"
  obtain q where q: "eatPolygon rt p c = Some q" using eatPolygon_returns[OF assms] by blast
  have "set (poly_Coords c) \<subseteq> points_of cs" using c by (auto simp: points_of_def)
  then show "\<exists>q. (if poly_Runner p = poly_Runner c then Some p else eatPolygon rt p c) = Some q \<and>
      poly_Runner q = poly_Runner polygon \<and>
      set (poly_Coords q) \<subseteq> set (poly_Coords polygon) \<union> points_of cs"
    using p q eatPolygon_runner[OF assms q] eatPolygon_coords[OF assms q] by auto
qed simp

lemma eat_all_Nil [simp]: "eat_all rt [] p = Some p"
  by (simp add: eat_all_def)

lemma eat_phase_snoc:
  "eat_phase rt (ps @ [p]) = do {qs \<leftarrow> eat_phase rt ps; q \<leftarrow> eat_all rt qs p; Some (qs @ [q])}"
  by (simp add: eat_phase_def fold_opt_append bind_eq_None_conv split: Option.bind_splits)

text \<open>Each polygon keeps its place and its runner; no point is invented.\<close>

lemma eat_phase_spec:
  assumes "sort_func (sort_coords rt)"
  shows "\<exists>qs. eat_phase rt ps = Some qs \<and> map poly_Runner qs = map poly_Runner ps \<and>
    points_of qs \<subseteq> points_of ps"
proof (induction ps rule: rev_induct)
  case Nil
  then show ?case by (simp add: eat_phase_def)
next
  case (snoc p ps)
  then obtain qs where qs: "eat_phase rt ps = Some qs" "map poly_Runner qs = map poly_Runner ps"
    "points_of qs \<subseteq> points_of ps" by blast
  obtain q where "eat_all rt qs p = Some q" "poly_Runner q = poly_Runner p"
    "set (poly_Coords q) \<subseteq> set (poly_Coords p) \<union> points_of qs"
    using eat_all_spec[OF assms] by blast
  then show ?case using qs by (auto simp: eat_phase_snoc)
qed

text \<open>The newest polygon is never cut.\<close>

lemma eat_phase_head:
  assumes "sort_func (sort_coords rt)" "eat_phase rt (p # ps) = Some qs"
  shows "hd qs = p"
  using assms(2)
proof (induction ps arbitrary: qs rule: rev_induct)
  case Nil
  then show ?case by (auto simp: eat_phase_def)
next
  case (snoc x xs)
  then obtain qs' where qs': "eat_phase rt (p # xs) = Some qs'"
      "\<exists>q. qs = qs' @ [q]"
    using eat_phase_snoc[of rt "p # xs" x] by (auto split: Option.bind_splits)
  obtain rs where "eat_phase rt (p # xs) = Some rs" "map poly_Runner rs = map poly_Runner (p # xs)"
    using eat_phase_spec[OF assms(1)] by blast
  then have "qs' \<noteq> []" using qs'(1) by auto
  then show ?case using snoc.IH[OF qs'(1)] qs'(2) by auto
qed

subsection \<open>Merging, runner by runner\<close>

definition merge_add :: "go_rt \<Rightarrow> polygon_data \<Rightarrow> polygon_data list \<Rightarrow> polygon_data list option" where
  "merge_add rt p data = do {
     (data, found) \<leftarrow> merge_into rt p data;
     Some (if found then data else data @ [p])
   }"

definition merge_runner :: "go_rt \<Rightarrow> polygon_data list \<Rightarrow> polygon_data list option" where
  "merge_runner rt ps = fold_opt (merge_add rt) ps []"

lemma merge_into_spec:
  assumes "sort_func (sort_coords rt)"
  shows "\<exists>data' found. merge_into rt p data = Some (data', found) \<and> length data' = length data \<and>
    poly_Runner ` set data' \<subseteq> poly_Runner ` (insert p (set data)) \<and>
    points_of data' \<subseteq> set (poly_Coords p) \<union> points_of data \<and> (\<not> found \<longrightarrow> data' = data)"
proof (induction data)
  case (Cons d data)
  obtain q b where q: "mergePolygons rt p d = Some (q, b)"
    using mergePolygons_eq[OF assms] by (metis surj_pair)
  obtain data' found where IH: "merge_into rt p data = Some (data', found)"
    "length data' = length data" "poly_Runner ` set data' \<subseteq> poly_Runner ` (insert p (set data))"
    "points_of data' \<subseteq> set (poly_Coords p) \<union> points_of data" "\<not> found \<longrightarrow> data' = data"
    using Cons by blast
  show ?case
    using q IH mergePolygons_runner[OF assms q] mergePolygons_coords[OF assms q]
    by (cases b) auto
qed auto

lemma merge_add_spec:
  assumes "sort_func (sort_coords rt)"
  shows "\<exists>data'. merge_add rt p data = Some data' \<and> data' \<noteq> [] \<and> length data' \<le> Suc (length data) \<and>
    poly_Runner ` set data' \<subseteq> poly_Runner ` (insert p (set data)) \<and>
    points_of data' \<subseteq> set (poly_Coords p) \<union> points_of data"
proof -
  obtain data' found where m: "merge_into rt p data = Some (data', found)"
      "length data' = length data" "poly_Runner ` set data' \<subseteq> poly_Runner ` (insert p (set data))"
      "points_of data' \<subseteq> set (poly_Coords p) \<union> points_of data" "\<not> found \<longrightarrow> data' = data"
    using merge_into_spec[OF assms, of p data] by blast
  have "data' \<noteq> []" if found
    using m(1,2) that by (cases data) auto
  then show ?thesis using m by (cases found) (auto simp: merge_add_def)
qed

lemma merge_runner_snoc:
  "merge_runner rt (ps @ [p]) = Option.bind (merge_runner rt ps) (merge_add rt p)"
  by (simp add: merge_runner_def fold_opt_append)

lemma merge_runner_spec:
  assumes "sort_func (sort_coords rt)"
  shows "\<exists>data. merge_runner rt ps = Some data \<and> (data = [] \<longleftrightarrow> ps = []) \<and> length data \<le> length ps \<and>
    poly_Runner ` set data \<subseteq> poly_Runner ` set ps \<and> points_of data \<subseteq> points_of ps"
proof (induction ps rule: rev_induct)
  case Nil
  then show ?case by (simp add: merge_runner_def)
next
  case (snoc p ps)
  then obtain data where data: "merge_runner rt ps = Some data" "length data \<le> length ps"
    "poly_Runner ` set data \<subseteq> poly_Runner ` set ps" "points_of data \<subseteq> points_of ps" by blast
  obtain data' where "merge_add rt p data = Some data'" "data' \<noteq> []"
    "length data' \<le> Suc (length data)"
    "poly_Runner ` set data' \<subseteq> poly_Runner ` (insert p (set data))"
    "points_of data' \<subseteq> set (poly_Coords p) \<union> points_of data"
    using merge_add_spec[OF assms] by blast
  then show ?case using data by (auto simp: merge_runner_snoc)
qed

lemma merge_runner_facts:
  assumes "sort_func (sort_coords rt)" "merge_runner rt ps = Some data"
  shows "data = [] \<longleftrightarrow> ps = []" "length data \<le> length ps"
    "poly_Runner ` set data \<subseteq> poly_Runner ` set ps" "points_of data \<subseteq> points_of ps"
  using merge_runner_spec[OF assms(1), of ps] by (simp_all add: assms(2))

lemma merge_runner_single [simp]: "merge_runner rt [p] = Some [p]"
  by (simp add: merge_runner_def merge_add_def)

text \<open>The map of the code holds the result of every runner's merging.\<close>

definition merge_table :: "go_rt \<Rightarrow> polygon_data list \<Rightarrow> polygon_data list gomap \<Rightarrow> bool" where
  "merge_table rt ps m \<longleftrightarrow> gomap_wf m \<and> set (gomap_keys m) = poly_Runner ` set ps \<and>
     (\<forall>u. merge_runner rt (filter (\<lambda>p. poly_Runner p = u) ps) = Some (gomap_slice m u))"

lemma merge_step_eq:
  assumes "merge_into rt p (gomap_slice m (poly_Runner p)) = Some (data, found)"
  shows "\<exists>m'. merge_step rt p m = Some m' \<and>
    gomap_slice m' = (gomap_slice m)(poly_Runner p := if found then data else data @ [p]) \<and>
    (gomap_wf m \<longrightarrow> gomap_wf m') \<and> set (gomap_keys m') = insert (poly_Runner p) (set (gomap_keys m))"
proof (cases "gomap_get m (poly_Runner p)")
  case None
  then have "gomap_slice m (poly_Runner p) = []" by (simp add: gomap_slice_def)
  then have "data = []" "\<not> found" using assms by auto
  then show ?thesis using None \<open>gomap_slice m (poly_Runner p) = []\<close>
    by (intro exI[of _ "gomap_set (poly_Runner p) [p] m"]) (auto simp: merge_step_def)
next
  case (Some old)
  then have "gomap_slice m (poly_Runner p) = old" by (simp add: gomap_slice_def)
  then show ?thesis using Some assms by (auto simp: merge_step_def Let_def)
qed

lemma merge_phase_spec:
  assumes "sort_func (sort_coords rt)"
  shows "\<exists>m. merge_phase rt ps = Some m \<and> merge_table rt ps m"
proof (induction ps rule: rev_induct)
  case Nil
  then show ?case by (simp add: merge_phase_def merge_table_def merge_runner_def)
next
  case (snoc p ps)
  then obtain m where m: "merge_phase rt ps = Some m" "merge_table rt ps m" by blast
  let ?u = "poly_Runner p"
  obtain data found where d: "merge_into rt p (gomap_slice m ?u) = Some (data, found)"
    using merge_into_spec[OF assms] by blast
  obtain m' where m': "merge_step rt p m = Some m'"
      "gomap_slice m' = (gomap_slice m)(?u := if found then data else data @ [p])"
      "gomap_wf m \<longrightarrow> gomap_wf m'" "set (gomap_keys m') = insert ?u (set (gomap_keys m))"
    using merge_step_eq[OF d] by blast
  have "merge_phase rt (ps @ [p]) = Some m'"
    using m(1) m'(1) by (simp add: merge_phase_def fold_opt_append)
  moreover have "merge_runner rt (filter (\<lambda>q. poly_Runner q = u) (ps @ [p])) = Some (gomap_slice m' u)" for u
  proof (cases "u = ?u")
    case True
    have "merge_runner rt (filter (\<lambda>q. poly_Runner q = ?u) ps) = Some (gomap_slice m ?u)"
      using m(2) by (simp add: merge_table_def)
    then show ?thesis using d m'(2) True by (simp add: merge_runner_snoc merge_add_def)
  next
    case False
    then show ?thesis using m(2) m'(2) by (simp add: merge_table_def)
  qed
  ultimately show ?case using m(2) m'(3,4) by (auto simp: merge_table_def)
qed

subsection \<open>The whole function\<close>

lemma fold_snoc: "fold (\<lambda>x acc. acc @ [x]) xs acc = acc @ xs"
  by (induction xs arbitrary: acc) auto

lemma list_by_runner_eq:
  assumes "runtime_ok rt" "gomap_wf m"
  shows "list_by_runner rt m =
    concat (map (gomap_slice m) (sorted_list_of_set (set (gomap_keys m))))"
proof -
  have "fold (\<lambda>k acc. acc @ gomap_slice m k) ks acc = acc @ concat (map (gomap_slice m) ks)" for ks acc
    by (induction ks arbitrary: acc) auto
  moreover have "sort (range_order rt 3 (gomap_keys m)) = sorted_list_of_set (set (gomap_keys m))"
    using runtime_okD(4-6)[OF assms(1), of 3 "gomap_keys m"] gm.keys_distinct[OF assms(2)]
    by (simp add: sorted_list_of_set_sort_remdups distinct_remdups_id)
      (metis distinct_remdups_id sorted_list_of_set_sort_remdups)
  ultimately show ?thesis by (simp add: list_by_runner_def Let_def fold_snoc)
qed

definition runners_of :: "polygon_data list \<Rightarrow> string list" where
  "runners_of ps = sorted_list_of_set (poly_Runner ` set ps)"

lemma set_runners_of [simp]: "set (runners_of ps) = poly_Runner ` set ps"
  by (simp add: runners_of_def)

lemma distinct_runners_of [simp]: "distinct (runners_of ps)"
  by (simp add: runners_of_def)

lemma cleanPolygons_spec:
  assumes "runtime_ok rt"
  shows "\<exists>qs merged. eat_phase rt (sort_polygons rt newest_first ps) = Some qs \<and>
    map poly_Runner qs = map poly_Runner (sort_polygons rt newest_first ps) \<and>
    points_of qs \<subseteq> points_of ps \<and>
    (\<forall>u. merge_runner rt (filter (\<lambda>p. poly_Runner p = u) qs) = Some (merged u)) \<and>
    cleanPolygons rt ps = Some (concat (map merged (runners_of ps)))"
proof -
  let ?sorted = "sort_polygons rt newest_first ps"
  have set_sorted: "set ?sorted = set ps"
    by (rule sort_func.set_srt[OF runtime_okD(2)[OF assms]])
  obtain qs where qs: "eat_phase rt ?sorted = Some qs" "map poly_Runner qs = map poly_Runner ?sorted"
      "points_of qs \<subseteq> points_of ?sorted"
    using eat_phase_spec[OF runtime_okD(3)[OF assms]] by blast
  obtain m where m: "merge_phase rt qs = Some m" "merge_table rt qs m"
    using merge_phase_spec[OF runtime_okD(3)[OF assms]] by blast
  have "poly_Runner ` set qs = poly_Runner ` set ps"
    using arg_cong[OF qs(2), of set] set_sorted by simp
  then have "list_by_runner rt m = concat (map (gomap_slice m) (runners_of ps))"
    using m(2) by (simp add: list_by_runner_eq[OF assms] merge_table_def runners_of_def)
  moreover have "points_of ?sorted = points_of ps" by (simp add: points_of_def set_sorted)
  ultimately show ?thesis using qs m
    by (intro exI[of _ qs] exI[of _ "gomap_slice m"]) (auto simp: cleanPolygons_def merge_table_def)
qed

subsection \<open>Facts about the result\<close>

lemma sum_filter_length:
  assumes "distinct us" "f ` set xs \<subseteq> set us"
  shows "(\<Sum>u\<leftarrow>us. length (filter (\<lambda>x. f x = u) xs)) = length xs"
  using assms(2)
proof (induction xs)
  case (Cons x xs)
  have "(\<Sum>u\<in>set us. length (filter (\<lambda>x. f x = u) (x # xs))) =
      (\<Sum>u\<in>set us. (if f x = u then 1 else 0) + length (filter (\<lambda>x. f x = u) xs))"
    by (intro sum.cong) auto
  then show ?case using Cons assms(1)
    by (simp add: sum_list_distinct_conv_sum_set sum.distrib del: filter.simps)
qed (simp add: sum_list_0)

lemma sorted_concat_groups:
  assumes "sorted us" "\<And>u x. u \<in> set us \<Longrightarrow> x \<in> set (g u) \<Longrightarrow> f x = u"
  shows "sorted (map f (concat (map g us)))"
  using assms
proof (induction us)
  case (Cons u us)
  have "map f (g u) = replicate (length (g u)) u"
    using Cons.prems(2)[of u] by (intro replicate_eqI) auto
  moreover have "f x \<in> set us" if "x \<in> set (concat (map g us))" for x
    using that Cons.prems(2) by auto
  ultimately show ?case using Cons by (auto simp: sorted_append)
qed simp

lemma cleanPolygons_shape:
  assumes "runtime_ok rt"
  shows "\<exists>rs. cleanPolygons rt ps = Some rs \<and> sorted (map poly_Runner rs) \<and>
    poly_Runner ` set rs = poly_Runner ` set ps \<and> length rs \<le> length ps \<and>
    points_of rs \<subseteq> points_of ps"
proof -
  obtain qs merged where
    qs: "map poly_Runner qs = map poly_Runner (sort_polygons rt newest_first ps)"
      "points_of qs \<subseteq> points_of ps"
    and merged: "\<And>u. merge_runner rt (filter (\<lambda>p. poly_Runner p = u) qs) = Some (merged u)"
    and clean: "cleanPolygons rt ps = Some (concat (map merged (runners_of ps)))"
    using cleanPolygons_spec[OF assms, of ps] by blast
  have runners: "poly_Runner ` set qs = poly_Runner ` set ps"
    using arg_cong[OF qs(1), of set] sort_func.set_srt[OF runtime_okD(2)[OF assms]] by simp
  have len: "length qs = length ps"
    using arg_cong[OF qs(1), of length] sort_func.length_srt[OF runtime_okD(2)[OF assms]] by simp
  have one: "(merged u = [] \<longleftrightarrow> filter (\<lambda>p. poly_Runner p = u) qs = [])"
      "length (merged u) \<le> length (filter (\<lambda>p. poly_Runner p = u) qs)"
      "poly_Runner ` set (merged u) \<subseteq> {u}" "points_of (merged u) \<subseteq> points_of ps" for u
  proof -
    note facts = merge_runner_facts[OF runtime_okD(3)[OF assms] merged[of u]]
    show "merged u = [] \<longleftrightarrow> filter (\<lambda>p. poly_Runner p = u) qs = []"
      "length (merged u) \<le> length (filter (\<lambda>p. poly_Runner p = u) qs)"
      by (fact facts(1), fact facts(2))
    show "poly_Runner ` set (merged u) \<subseteq> {u}" using facts(3) by auto
    show "points_of (merged u) \<subseteq> points_of ps"
      by (rule order_trans[OF facts(4)], rule order_trans[OF points_of_mono qs(2)]) auto
  qed
  let ?rs = "concat (map merged (runners_of ps))"
  have runner: "poly_Runner x = u" if "x \<in> set (merged u)" for x u using one(3)[of u] that by auto
  have "sorted (map poly_Runner ?rs)"
    by (rule sorted_concat_groups) (auto simp: runners_of_def runner)
  moreover have "poly_Runner ` set ?rs = poly_Runner ` set ps"
  proof
    show "poly_Runner ` set ?rs \<subseteq> poly_Runner ` set ps"
    proof
      fix v assume "v \<in> poly_Runner ` set ?rs"
      then obtain u x where "u \<in> poly_Runner ` set ps" "x \<in> set (merged u)" "v = poly_Runner x"
        by auto
      then show "v \<in> poly_Runner ` set ps" using runner by simp
    qed
    show "poly_Runner ` set ps \<subseteq> poly_Runner ` set ?rs"
    proof
      fix u assume u: "u \<in> poly_Runner ` set ps"
      then have "filter (\<lambda>p. poly_Runner p = u) qs \<noteq> []"
        unfolding runners[symmetric] by (auto simp: filter_empty_conv)
      then have "merged u \<noteq> []" using one(1) by simp
      then have "hd (merged u) \<in> set (merged u)" by simp
      then have "hd (merged u) \<in> set ?rs" "poly_Runner (hd (merged u)) = u"
        using u runner[of "hd (merged u)" u] by (auto simp del: set_runners_of simp flip: set_runners_of)
      then show "u \<in> poly_Runner ` set ?rs" by force
    qed
  qed
  moreover have "length ?rs \<le> length ps"
  proof -
    have "length ?rs = (\<Sum>u\<leftarrow>runners_of ps. length (merged u))"
      by (simp add: length_concat o_def)
    also have "\<dots> \<le> (\<Sum>u\<leftarrow>runners_of ps. length (filter (\<lambda>p. poly_Runner p = u) qs))"
      by (rule sum_list_mono) (rule one(2))
    also have "\<dots> = length qs"
      by (rule sum_filter_length) (simp_all add: runners_of_def runners)
    finally show ?thesis by (simp add: len)
  qed
  moreover have "points_of ?rs \<subseteq> points_of ps"
    using one(4) by (fastforce simp: points_of_def)
  ultimately show ?thesis using clean by blast
qed

text \<open>The newest polygon, if its runner has no other, comes through unchanged.\<close>

lemma cleanPolygons_newest:
  assumes "runtime_ok rt" "cleanPolygons rt ps = Some rs" "mset ps = add_mset p (mset qs)"
    and "\<And>q. q \<in> set qs \<Longrightarrow> time_After (poly_Time p) (poly_Time q)"
    and "\<And>q. q \<in> set qs \<Longrightarrow> poly_Runner q \<noteq> poly_Runner p"
  shows "filter (\<lambda>r. poly_Runner r = poly_Runner p) rs = [p]"
proof -
  let ?sorted = "sort_polygons rt newest_first ps"
  have set_ps: "set ps = insert p (set qs)"
    using arg_cong[OF assms(3), of set_mset] by simp
  have ms: "mset ?sorted = add_mset p (mset qs)"
    using sort_func.perm[OF runtime_okD(2)[OF assms(1)]] assms(3) by simp
  then obtain s ss where ss: "?sorted = s # ss" by (cases ?sorted) auto
  have "s = p"
  proof (rule ccontr)
    assume "s \<noteq> p"
    then have "s \<in> set qs" "p \<in> set ss"
      using arg_cong[OF ms, of set_mset] ss by auto
    then have "\<not> newest_first p s < 0" "time_After (poly_Time p) (poly_Time s)"
      using sort_func.ordered[OF runtime_okD(2)[OF assms(1)] polygons_by_time.cmp_order_axioms, of ps]
        assms(4) ss by auto
    then show False by (auto simp: newest_first_def time_After_def time_Compare_def split: if_splits)
  qed
  then have ss_mset: "mset ss = mset qs" using ms ss by simp
  obtain es merged where
    es: "eat_phase rt ?sorted = Some es" "map poly_Runner es = map poly_Runner ?sorted"
    and merged: "\<And>u. merge_runner rt (filter (\<lambda>p. poly_Runner p = u) es) = Some (merged u)"
    and clean: "cleanPolygons rt ps = Some (concat (map merged (runners_of ps)))"
    using cleanPolygons_spec[OF assms(1), of ps] by blast
  obtain es' where es': "es = p # es'" "map poly_Runner es' = map poly_Runner ss"
    using es(2) eat_phase_head[OF runtime_okD(3)[OF assms(1)], of s ss es] es(1) ss \<open>s = p\<close>
    by (cases es) auto
  have "poly_Runner ` set es' = poly_Runner ` set qs"
    using arg_cong[OF es'(2), of set] arg_cong[OF ss_mset, of set_mset] by simp
  moreover have "poly_Runner p \<notin> poly_Runner ` set qs"
  proof
    assume "poly_Runner p \<in> poly_Runner ` set qs"
    then obtain q where "q \<in> set qs" "poly_Runner q = poly_Runner p" by auto
    then show False using assms(5) by blast
  qed
  ultimately have "poly_Runner p \<notin> poly_Runner ` set es'" by simp
  then have "filter (\<lambda>r. poly_Runner r = poly_Runner p) es = [p]"
    using es'(1) by (auto simp: filter_empty_conv image_iff)
  then have mp: "merged (poly_Runner p) = [p]" using merged[of "poly_Runner p"] by simp
  have "poly_Runner ` set (merged u) \<subseteq> {u}" for u
    using merge_runner_facts(3)[OF runtime_okD(3)[OF assms(1)] merged[of u]] by auto
  then have sep: "filter (\<lambda>r. poly_Runner r = poly_Runner p) (merged u) =
      (if u = poly_Runner p then merged u else [])" for u
    by (auto simp: filter_id_conv filter_empty_conv)
  have "filter (\<lambda>r. poly_Runner r = poly_Runner p) (concat (map merged us)) = merged (poly_Runner p)"
    if "distinct us" "poly_Runner p \<in> set us" for us
    using that
  proof (induction us)
    case (Cons u us)
    have "filter (\<lambda>r. poly_Runner r = poly_Runner p) (concat (map merged vs)) = []"
      if "poly_Runner p \<notin> set vs" for vs
      using that by (induction vs) (auto simp: sep)
    then show ?case using Cons by (auto simp: sep)
  qed simp
  then have "filter (\<lambda>r. poly_Runner r = poly_Runner p) (concat (map merged (runners_of ps))) =
      merged (poly_Runner p)"
    by (rule) (simp_all add: set_ps)
  then show ?thesis using clean assms(2) mp by simp
qed

subsection \<open>Independence from the orders left open\<close>

text \<open>Only loops over maps read \<open>range_order\<close>.\<close>

lemma distance_range_order [simp]: "distance (rt\<lparr>range_order := f\<rparr>) = distance rt"
  by (intro ext) (simp add: distance_def)

lemma nearest_range_order [simp]: "nearest (rt\<lparr>range_order := f\<rparr>) = nearest rt"
proof -
  have "nearest_step (rt\<lparr>range_order := f\<rparr>) = nearest_step rt"
    by (intro ext) (simp add: nearest_step_def Let_def split: prod.splits)
  then show ?thesis by (intro ext) (simp add: nearest_def)
qed

lemma sort_loop_range_order [simp]:
  "sort_loop (rt\<lparr>range_order := f\<rparr>) points visited acc = sort_loop rt points visited acc"
proof (induction rt points visited acc rule: sort_loop.induct)
  case (1 rt points visited acc)
  show ?case
    by (subst (1 2) sort_loop.simps) (simp add: Let_def 1 del: fun_upd_apply)
qed

lemma getPointsInPolygon_range_order [simp]:
  "getPointsInPolygon (rt\<lparr>range_order := f\<rparr>) = getPointsInPolygon rt"
  by (intro ext) (simp add: getPointsInPolygon_def Let_def cong: if_cong)

lemma eatPolygon_range_order [simp]: "eatPolygon (rt\<lparr>range_order := f\<rparr>) = eatPolygon rt"
  by (intro ext) (simp add: eatPolygon_def Let_def cong: if_cong option.case_cong)

lemma mergePolygons_range_order [simp]: "mergePolygons (rt\<lparr>range_order := f\<rparr>) = mergePolygons rt"
  by (intro ext)
    (simp add: mergePolygons_def sortPointsByDistance_def Let_def cong: if_cong option.case_cong)

lemma eat_phase_range_order [simp]: "eat_phase (rt\<lparr>range_order := f\<rparr>) = eat_phase rt"
  by (intro ext) (simp add: eat_phase_def eat_all_def cong: if_cong)

lemma merge_runner_range_order [simp]: "merge_runner (rt\<lparr>range_order := f\<rparr>) ps = merge_runner rt ps"
proof -
  have "merge_into (rt\<lparr>range_order := f\<rparr>) p data = merge_into rt p data" for p data
    by (induction data) (simp_all cong: if_cong)
  then have "merge_add (rt\<lparr>range_order := f\<rparr>) = merge_add rt"
    by (intro ext) (simp add: merge_add_def)
  then show ?thesis by (simp add: merge_runner_def)
qed

lemma runtime_ok_range_order:
  "runtime_ok rt \<Longrightarrow> (\<And>site ks. mset (f site ks) = mset ks) \<Longrightarrow> runtime_ok (rt\<lparr>range_order := f\<rparr>)"
  by (simp add: runtime_ok_def)

lemma cleanPolygons_map_order:
  assumes "runtime_ok rt" "\<And>site ks. mset (f site ks) = mset ks"
  shows "cleanPolygons (rt\<lparr>range_order := f\<rparr>) ps = cleanPolygons rt ps"
proof -
  let ?rt = "rt\<lparr>range_order := f\<rparr>"
  have ok: "runtime_ok ?rt" by (rule runtime_ok_range_order) (fact assms)+
  obtain qs merged where 1: "eat_phase rt (sort_polygons rt newest_first ps) = Some qs"
      "\<And>u. merge_runner rt (filter (\<lambda>p. poly_Runner p = u) qs) = Some (merged u)"
      "cleanPolygons rt ps = Some (concat (map merged (runners_of ps)))"
    using cleanPolygons_spec[OF assms(1), of ps] by blast
  obtain qs' merged' where 2: "eat_phase ?rt (sort_polygons ?rt newest_first ps) = Some qs'"
      "\<And>u. merge_runner ?rt (filter (\<lambda>p. poly_Runner p = u) qs') = Some (merged' u)"
      "cleanPolygons ?rt ps = Some (concat (map merged' (runners_of ps)))"
    using cleanPolygons_spec[OF ok, of ps] by blast
  have "qs' = qs" using 1(1) 2(1) by simp
  then have "merged' = merged" using 1(2) 2(2) by (intro ext) simp
  then show ?thesis using 1(3) 2(3) by simp
qed

text \<open>Nor does the order of the polygons in the database matter, if no two have the same time.\<close>

definition distinct_times :: "polygon_data list \<Rightarrow> bool" where
  "distinct_times ps \<longleftrightarrow> (\<forall>a\<in>set ps. \<forall>b\<in>set ps. poly_Time a = poly_Time b \<longrightarrow> a = b)"

lemma newest_first_tie:
  "\<not> newest_first a b < 0 \<Longrightarrow> \<not> newest_first b a < 0 \<Longrightarrow> poly_Time a = poly_Time b"
  by (auto simp: newest_first_def time_Compare_def split: if_splits)

lemma cleanPolygons_input_order:
  assumes "runtime_ok rt" "mset ps = mset qs" "distinct_times ps"
  shows "cleanPolygons rt ps = cleanPolygons rt qs"
proof -
  have "sort_polygons rt newest_first ps = sort_polygons rt newest_first qs"
  proof (rule sort_func.srt_order_irrelevant[OF runtime_okD(2)[OF assms(1)]
        polygons_by_time.cmp_order_axioms assms(2)])
    fix a b
    assume "a \<in> set ps" "b \<in> set ps" "\<not> newest_first a b < 0" "\<not> newest_first b a < 0"
    then show "a = b" using assms(3) newest_first_tie[of a b] by (simp add: distinct_times_def)
  qed
  then show ?thesis by (simp add: cleanPolygons_def)
qed

subsection \<open>Properties\<close>

text \<open>C2: Cleaning always returns; the result is listed by runner in ascending order, has a polygon for
  exactly the runners of the input, never more polygons than the input, and no point that is not
  one of the input's.\<close>

theorem cleanPolygons_correct:
  assumes "runtime_ok rt"
  shows "\<exists>rs. cleanPolygons rt ps = Some rs \<and> sorted (map poly_Runner rs) \<and>
    poly_Runner ` set rs = poly_Runner ` set ps \<and> length rs \<le> length ps \<and>
    (\<Union>p\<in>set rs. set (poly_Coords p)) \<subseteq> (\<Union>p\<in>set ps. set (poly_Coords p))"
  using cleanPolygons_shape[OF assms, of ps] unfolding points_of_def .

theorem cleanPolygons_correct_witness:
  "\<exists>rs. cleanPolygons plain_rt [polygon_of square_a ''v'' 1, polygon_of square_b ''u'' 2] = Some rs \<and>
    poly_Runner ` set rs = {''u'', ''v''} \<and> length rs \<le> 2"
proof -
  let ?ps = "[polygon_of square_a ''v'' 1, polygon_of square_b ''u'' 2]"
  obtain rs where rs: "cleanPolygons plain_rt ?ps = Some rs" "poly_Runner ` set rs = poly_Runner ` set ?ps"
    "length rs \<le> length ?ps"
    using cleanPolygons_correct[OF runtime_ok_plain_rt, of ?ps] by blast
  have "poly_Runner ` set ?ps = {''u'', ''v''}" "length ?ps = 2" by (simp_all add: insert_commute)
  then show ?thesis using rs by (intro exI[of _ rs]) (simp only: simp_thms)
qed

text \<open>The latest polygon, when its runner has no other, comes through cleaning unchanged: nobody
  can eat it and there is nothing to merge it with.\<close>

lemma cleanPolygons_keeps_latest:
  assumes "runtime_ok rt" "cleanPolygons rt ps = Some rs" "mset ps = add_mset p (mset qs)"
    and "\<forall>q\<in>set qs. time_After (poly_Time p) (poly_Time q) \<and> poly_Runner q \<noteq> poly_Runner p"
  shows "filter (\<lambda>r. poly_Runner r = poly_Runner p) rs = [p]"
  by (rule cleanPolygons_newest[OF assms(1-3)]) (use assms(4) in auto)

lemma cleanPolygons_keeps_latest_witness:
  "\<exists>rs. cleanPolygons plain_rt [polygon_of square_a ''v'' 1, polygon_of square_b ''u'' 2] = Some rs \<and>
    filter (\<lambda>r. poly_Runner r = ''u'') rs = [polygon_of square_b ''u'' 2]"
proof -
  let ?ps = "[polygon_of square_a ''v'' 1, polygon_of square_b ''u'' 2]"
  obtain rs where rs: "cleanPolygons plain_rt ?ps = Some rs"
    using cleanPolygons_shape[OF runtime_ok_plain_rt] by blast
  have "filter (\<lambda>r. poly_Runner r = poly_Runner (polygon_of square_b ''u'' 2)) rs = [polygon_of square_b ''u'' 2]"
    by (rule cleanPolygons_keeps_latest[OF runtime_ok_plain_rt rs, of _ "[polygon_of square_a ''v'' 1]"])
      (simp_all add: time_After_def)
  then show ?thesis using rs by simp
qed

text \<open>Cleaning does not depend on the order in which the database lists the polygons, provided no
  two different ones carry the same time.\<close>

lemma cleanPolygons_database_order:
  assumes "runtime_ok rt" "mset ps = mset qs"
    and "\<forall>a\<in>set ps. \<forall>b\<in>set ps. poly_Time a = poly_Time b \<longrightarrow> a = b"
  shows "cleanPolygons rt ps = cleanPolygons rt qs"
  by (rule cleanPolygons_input_order[OF assms(1,2)]) (use assms(3) in \<open>simp add: distinct_times_def\<close>)

lemma cleanPolygons_database_order_witness:
  "cleanPolygons plain_rt [polygon_of square_a ''v'' 1, polygon_of square_b ''u'' 2] =
   cleanPolygons plain_rt [polygon_of square_b ''u'' 2, polygon_of square_a ''v'' 1]"
  by (rule cleanPolygons_database_order[OF runtime_ok_plain_rt]) (simp_all add: polygon_of_def)

text \<open>C23: Merging is done runner by runner: whatever the other runners do, the map that the loop fills
  holds for each runner the result of merging that runner's polygons alone, in their order.\<close>

theorem merge_phase_per_runner:
  assumes "runtime_ok rt"
  shows "\<exists>m. merge_phase rt ps = Some m \<and> set (gomap_keys m) = poly_Runner ` set ps \<and>
    (\<forall>u. merge_runner rt (filter (\<lambda>p. poly_Runner p = u) ps) = Some (gomap_slice m u))"
  using merge_phase_spec[OF runtime_okD(3)[OF assms], of ps] by (auto simp: merge_table_def)

theorem merge_phase_per_runner_witness:
  "\<exists>m. merge_phase plain_rt [polygon_of square_a ''v'' 1, polygon_of square_b ''u'' 2] = Some m \<and>
    gomap_slice m ''u'' = [polygon_of square_b ''u'' 2]"
proof -
  obtain m where "merge_phase plain_rt [polygon_of square_a ''v'' 1, polygon_of square_b ''u'' 2] = Some m"
    "merge_runner plain_rt (filter (\<lambda>p. poly_Runner p = ''u'')
      [polygon_of square_a ''v'' 1, polygon_of square_b ''u'' 2]) = Some (gomap_slice m ''u'')"
    using merge_phase_per_runner[OF runtime_ok_plain_rt] by blast
  then show ?thesis by simp
qed

end
