(* ===== verification/Processor.thy ===== *)
theory Processor
  imports Cleaning
begin

section \<open>Processing a group: services/run_processor.go\<close>

text \<open>
  \<open>removePointsFromLiveLinesData\<close> and \<open>processData\<close>, the pure core of the service: from the
  points and polygons stored for a group to what the runners are shown. A runner's cutoff is
  the time up to which the points are dropped; \<open>cutoffs_bounds\<close> says where it lies and
  \<open>removePoints_filter\<close> that the function filters by it. \<open>processData_eq\<close> puts the components
  together.
\<close>

subsection \<open>Removing live points\<close>

definition live_point :: "live_line \<Rightarrow> coordinate" where
  "live_point l = \<lparr>coord_X = ll_X l, coord_Y = ll_Y l, coord_Time = zero_time\<rparr>"

definition cutoff_step ::
  "polygon_data list \<Rightarrow> live_line \<Rightarrow> gotime gomap \<Rightarrow> gotime gomap" where
  "cutoff_step polygons l m =
     (let runner = ll_Sender l in
      if (case gomap_get m runner of None \<Rightarrow> False | Some val \<Rightarrow> time_Before (ll_Time l) val) then m
      else
        let point = live_point l;
            (currMaxTime, isAnyPointInPolygon) =
              fold (\<lambda>polygon (currMaxTime, found).
                  if isPointInPolygon point (poly_Coords polygon)
                  then (if time_After (poly_Time polygon) currMaxTime then poly_Time polygon
                        else currMaxTime, True)
                  else (currMaxTime, found))
                polygons (ll_Time l, False)
        in if isAnyPointInPolygon then gomap_set runner currMaxTime m else m)"

definition removePointsFromLiveLinesData ::
  "live_line list \<Rightarrow> polygon_data list \<Rightarrow> live_line list" where
  "removePointsFromLiveLinesData liveLinesData polygons =
     (let m = fold (cutoff_step polygons) liveLinesData gomap_empty
      in fold (\<lambda>l acc.
             if (case gomap_get m (ll_Sender l) of None \<Rightarrow> False
                 | Some val \<Rightarrow> \<not> time_After (ll_Time l) val)
             then acc else acc @ [l])
           liveLinesData [])"

subsection \<open>The whole step\<close>

text \<open>The error is a value of the signature; no branch of the code returns one.\<close>

definition processData ::
  "go_rt \<Rightarrow> live_line list \<Rightarrow> polygon_data list \<Rightarrow> run_processor_config \<Rightarrow>
   (string + live_line list \<times> polygon_data list) option" where
  "processData rt liveLinesData polygonData cfg =
     (let lines = segregatePointsByUser rt liveLinesData;
          polygonsOf = createUserPolygonsMap rt lines cfg
      in do {
        newPolygons \<leftarrow> addPolygonsToNewPolygonArray rt polygonData polygonsOf;
        newPolygons \<leftarrow> cleanPolygons rt newPolygons;
        let newLiveLinesData = removePointsFromLiveLinesData liveLinesData newPolygons;
        Some (Inr (newLiveLinesData, newPolygons))
      })"

subsection \<open>Cutoffs\<close>

abbreviation live_inside :: "live_line \<Rightarrow> polygon_data \<Rightarrow> bool" where
  "live_inside l polygon \<equiv> isPointInPolygon (live_point l) (poly_Coords polygon)"

definition covered :: "polygon_data list \<Rightarrow> live_line \<Rightarrow> bool" where
  "covered polygons l \<longleftrightarrow> (\<exists>polygon\<in>set polygons. live_inside l polygon)"

lemma cover_fold:
  "fold (\<lambda>polygon (t, found).
       if live_inside l polygon
       then (if time_After (poly_Time polygon) t then poly_Time polygon else t, True)
       else (t, found)) polygons (t, found) =
   (fold (\<lambda>polygon t. if live_inside l polygon then max t (poly_Time polygon) else t) polygons t,
    found \<or> covered polygons l)"
  by (induction polygons arbitrary: t found)
    (auto simp: covered_def time_After_def max_def)

definition entry_time :: "polygon_data list \<Rightarrow> live_line \<Rightarrow> gotime" where
  "entry_time polygons l =
     fold (\<lambda>polygon t. if live_inside l polygon then max t (poly_Time polygon) else t) polygons (ll_Time l)"

lemma cutoff_step_eq:
  "cutoff_step polygons l m =
     (if covered polygons l \<and> (\<forall>val. gomap_get m (ll_Sender l) = Some val \<longrightarrow> val \<le> ll_Time l)
      then gomap_set (ll_Sender l) (entry_time polygons l) m else m)"
  by (cases "gomap_get m (ll_Sender l)")
    (auto simp: cutoff_step_def cover_fold entry_time_def time_Before_def Let_def)

lemma entry_time_bounds:
  "ll_Time l \<le> entry_time polygons l"
  "entry_time polygons l = ll_Time l \<or>
     (\<exists>polygon\<in>set polygons. live_inside l polygon \<and> entry_time polygons l = poly_Time polygon)"
proof -
  let ?step = "\<lambda>polygon t. if live_inside l polygon then max t (poly_Time polygon) else t"
  have "t \<le> fold ?step polygons t" for t
    by (induction polygons arbitrary: t) (auto intro: order_trans[OF max.cobounded1])
  then show "ll_Time l \<le> entry_time polygons l" by (simp add: entry_time_def)
  have "fold ?step polygons t = t \<or>
      (\<exists>polygon\<in>set polygons. live_inside l polygon \<and> fold ?step polygons t = poly_Time polygon)" for t
  proof (induction polygons arbitrary: t)
    case (Cons p ps)
    from Cons[of "?step p t"] show ?case by (auto simp: max_def split: if_splits)
  qed simp
  then show "entry_time polygons l = ll_Time l \<or>
     (\<exists>polygon\<in>set polygons. live_inside l polygon \<and> entry_time polygons l = poly_Time polygon)"
    by (simp add: entry_time_def)
qed

definition cutoffs :: "live_line list \<Rightarrow> polygon_data list \<Rightarrow> gotime gomap" where
  "cutoffs ls polygons = fold (cutoff_step polygons) ls gomap_empty"

lemma cutoffs_snoc: "cutoffs (ls @ [l]) polygons = cutoff_step polygons l (cutoffs ls polygons)"
  by (simp add: cutoffs_def)

text \<open>
  A runner's cutoff is the entry time of one of the runner's covered points, and at or after
  the time of every covered point; a runner without covered points has none.
\<close>

lemma cutoffs_bounds:
  shows "gomap_get (cutoffs ls polygons) u = Some v \<Longrightarrow>
      \<exists>l\<in>set ls. ll_Sender l = u \<and> covered polygons l \<and> v = entry_time polygons l"
    and "l \<in> set ls \<Longrightarrow> covered polygons l \<Longrightarrow>
      \<exists>v. gomap_get (cutoffs ls polygons) (ll_Sender l) = Some v \<and> ll_Time l \<le> v"
proof (induction ls arbitrary: u v l rule: rev_induct)
  case (snoc x xs)
  {
    case 1
    then show ?case using snoc.IH(1)[of u v]
      by (auto simp: cutoffs_snoc cutoff_step_eq split: if_splits)
  next
    case 2
    show ?case
    proof (cases "covered polygons x \<and>
        (\<forall>val. gomap_get (cutoffs xs polygons) (ll_Sender x) = Some val \<longrightarrow> val \<le> ll_Time x)")
      case True
      then have get: "gomap_get (cutoffs (xs @ [x]) polygons) (ll_Sender l) =
          (if ll_Sender l = ll_Sender x then Some (entry_time polygons x)
           else gomap_get (cutoffs xs polygons) (ll_Sender l))"
        by (simp add: cutoffs_snoc cutoff_step_eq)
      show ?thesis
      proof (cases "l = x \<or> ll_Sender l \<noteq> ll_Sender x")
        case True
        then show ?thesis using get 2 snoc.IH(2)[of l] entry_time_bounds(1)[of x polygons] by auto
      next
        case False
        then obtain v where "gomap_get (cutoffs xs polygons) (ll_Sender x) = Some v" "ll_Time l \<le> v"
          using 2 snoc.IH(2)[of l] by auto
        then have "ll_Time l \<le> ll_Time x" using True by auto
        then show ?thesis using get False entry_time_bounds(1)[of x polygons] by auto
      qed
    next
      case False
      then have same: "cutoffs (xs @ [x]) polygons = cutoffs xs polygons"
        by (auto simp: cutoffs_snoc cutoff_step_eq)
      show ?thesis
      proof (cases "l = x")
        case True
        then obtain v where "gomap_get (cutoffs xs polygons) (ll_Sender x) = Some v" "\<not> v \<le> ll_Time x"
          using False 2 by auto
        then show ?thesis using True same by auto
      next
        case False
        then show ?thesis using 2 snoc.IH(2)[of l] same by auto
      qed
    qed
  }
qed (simp_all add: cutoffs_def)

lemma removePoints_filter:
  "removePointsFromLiveLinesData ls polygons =
     filter (\<lambda>l. \<forall>val. gomap_get (cutoffs ls polygons) (ll_Sender l) = Some val \<longrightarrow> val < ll_Time l) ls"
proof -
  have "fold (\<lambda>l acc. if P l then acc else acc @ [l]) ls acc = acc @ filter (\<lambda>l. \<not> P l) ls"
    for P :: "live_line \<Rightarrow> bool" and acc
    by (induction ls arbitrary: acc) auto
  then show ?thesis
    by (simp add: removePointsFromLiveLinesData_def flip: cutoffs_def)
      (auto simp: time_After_def split: option.splits intro!: filter_cong)
qed

text \<open>
  What is dropped: every point at or before a covered point of the same runner; and only points
  that are not after the entry time of a covered point of the same runner.
\<close>

lemma removePoints_drops:
  assumes "l \<in> set ls" "c \<in> set ls" "ll_Sender c = ll_Sender l" "covered polygons c"
    "ll_Time l \<le> ll_Time c"
  shows "l \<notin> set (removePointsFromLiveLinesData ls polygons)"
  using cutoffs_bounds(2)[OF assms(2,4)] assms(3,5) by (fastforce simp: removePoints_filter)

lemma removePoints_keeps:
  assumes "l \<in> set ls" "\<And>c. c \<in> set ls \<Longrightarrow> ll_Sender c = ll_Sender l \<Longrightarrow> covered polygons c \<Longrightarrow>
      entry_time polygons c < ll_Time l"
  shows "l \<in> set (removePointsFromLiveLinesData ls polygons)"
  using assms cutoffs_bounds(1)[of ls polygons "ll_Sender l"]
  by (fastforce simp: removePoints_filter)

lemma removePoints_uncovered:
  "l \<in> set (removePointsFromLiveLinesData ls polygons) \<Longrightarrow> \<not> covered polygons l"
  using removePoints_drops[of l ls l polygons] by (auto simp: removePoints_filter)

text \<open>
  One runner's cutoff without the map: only a covered point that is not before the cutoff so far moves
  it, to the latest of its own time and the times of the polygons around it.
\<close>

fun runner_cutoff :: "polygon_data list \<Rightarrow> gotime option \<Rightarrow> live_line list \<Rightarrow> gotime option" where
  "runner_cutoff polygons t [] = t"
| "runner_cutoff polygons t (c # cs) = runner_cutoff polygons
     (if covered polygons c \<and> (\<forall>v. t = Some v \<longrightarrow> v \<le> ll_Time c)
      then Some (Max (insert (ll_Time c) (poly_Time ` {polygon \<in> set polygons. live_inside c polygon})))
      else t) cs"

lemma entry_time_eq:
  "entry_time polygons c =
     Max (insert (ll_Time c) (poly_Time ` {polygon \<in> set polygons. live_inside c polygon}))"
proof -
  have "fold (\<lambda>polygon t. if live_inside c polygon then max t (poly_Time polygon) else t) polygons t =
      Max (insert t (poly_Time ` {polygon \<in> set polygons. live_inside c polygon}))" for t
  proof (induction polygons arbitrary: t)
    case (Cons p ps)
    let ?S = "poly_Time ` {polygon \<in> set ps. live_inside c polygon}"
    have "poly_Time ` {polygon \<in> set (p # ps). live_inside c polygon} =
        (if live_inside c p then insert (poly_Time p) ?S else ?S)"
      by auto
    moreover have "finite ?S" by simp
    then have "Max (insert t (insert (poly_Time p) ?S)) = Max (insert (max t (poly_Time p)) ?S)"
      by (cases "?S = {}") (simp_all only: Max_insert finite_insert insert_not_empty Max_singleton max.assoc
          not_False_eq_True)
    ultimately show ?case using Cons by simp
  qed simp
  then show ?thesis by (simp add: entry_time_def)
qed

lemma runner_cutoff_append:
  "runner_cutoff polygons t (xs @ ys) = runner_cutoff polygons (runner_cutoff polygons t xs) ys"
  by (induction xs arbitrary: t) simp_all

lemma runner_cutoff_grows: "\<exists>w. runner_cutoff polygons (Some v) cs = Some w \<and> v \<le> w"
proof (induction cs arbitrary: v)
  case (Cons c cs)
  show ?case
  proof (cases "covered polygons c \<and> v \<le> ll_Time c")
    case True
    then have "v \<le> entry_time polygons c" using entry_time_bounds(1) order_trans by blast
    then show ?thesis using True Cons[of "entry_time polygons c"] by (auto simp: entry_time_eq)
  next
    case False
    then show ?thesis using Cons[of v] by auto
  qed
qed simp

lemma runner_cutoff_uncovered:
  "\<forall>c\<in>set cs. \<not> covered polygons c \<Longrightarrow> runner_cutoff polygons t cs = t"
  by (induction cs) auto

lemma cutoffs_runner: "gomap_get (cutoffs ls polygons) u = runner_cutoff polygons None (lines_of u ls)"
  by (induction ls rule: rev_induct)
    (auto simp: cutoffs_snoc cutoff_step_eq runner_cutoff_append entry_time_eq cutoffs_def)

lemma first_covered_cutoff:
  assumes "covered polygons c" "\<forall>x\<in>set xs. ll_Sender x = ll_Sender c \<longrightarrow> \<not> covered polygons x"
  shows "\<exists>w. runner_cutoff polygons None (lines_of (ll_Sender c) (xs @ c # ys)) = Some w \<and>
    entry_time polygons c \<le> w"
  using assms runner_cutoff_uncovered[of "lines_of (ll_Sender c) xs" polygons None]
    runner_cutoff_grows[of polygons "entry_time polygons c" "lines_of (ll_Sender c) ys"]
  by (simp add: runner_cutoff_append entry_time_eq)

subsection \<open>The polygons of a step\<close>

definition line_of :: "go_rt \<Rightarrow> live_line list \<Rightarrow> string \<Rightarrow> live_line list" where
  "line_of rt ls u = sort_lines rt by_time (lines_of u ls)"

text \<open>The runners whose line, put in time order, forms a cycle.\<close>

definition cyclers :: "go_rt \<Rightarrow> live_line list \<Rightarrow> run_processor_config \<Rightarrow> string set" where
  "cyclers rt ls cfg = {u \<in> ll_Sender ` set ls. IsCycle (line_of rt ls u) cfg}"

lemma new_polygons_eq:
  assumes "runtime_ok rt"
  shows "\<exists>us. distinct us \<and> set us = cyclers rt ls cfg \<and>
    addPolygonsToNewPolygonArray rt ps
      (createUserPolygonsMap rt (segregatePointsByUser rt ls) cfg) =
    Some (ps @ map (\<lambda>u. line_polygon (line_of rt ls u)) us)"
proof -
  let ?lines = "segregatePointsByUser rt ls"
  let ?m = "createUserPolygonsMap rt ?lines cfg"
  note wf = segregate_get(3)[OF assms, of ls]
  have get: "gomap_get ?m u = (if u \<in> cyclers rt ls cfg then Some [line_of rt ls u] else None)" for u
    unfolding createUserPolygons_get(1)[OF assms wf] segregate_get(1)[OF assms]
    by (simp add: cyclers_def line_of_def)
  let ?us = "range_order rt 2 (gomap_keys ?m)"
  have us: "set ?us = cyclers rt ls cfg" "distinct ?us"
    using runtime_okD(5,6)[OF assms, of 2 "gomap_keys ?m"]
      gm.keys_distinct[OF createUserPolygons_get(2)[OF assms wf], of cfg] get
    by (auto simp: gm.in_keys_iff split: if_splits)
  have ne: "\<forall>l\<in>set lss. l \<noteq> []" if "gomap_get ?m u = Some lss" for u lss
    using that get[of u] IsCycle_length[of "line_of rt ls u" cfg]
    by (auto simp: cyclers_def split: if_splits)
  have "concat (map (\<lambda>u. map line_polygon (gomap_slice ?m u)) vs) =
      map (\<lambda>u. line_polygon (line_of rt ls u)) vs" if "set vs \<subseteq> cyclers rt ls cfg" for vs
    using that by (induction vs) (auto simp: gomap_slice_def get)
  from this[of ?us] addPolygons_eq[of ?m rt ps, OF ne] us show ?thesis
    by (intro exI[of _ ?us]) simp
qed

lemma processData_eq:
  assumes "runtime_ok rt"
  obtains us rs where "distinct us" "set us = cyclers rt ls cfg"
    "cleanPolygons rt (ps @ map (\<lambda>u. line_polygon (line_of rt ls u)) us) = Some rs"
    "processData rt ls ps cfg = Some (Inr (removePointsFromLiveLinesData ls rs, rs))"
proof -
  obtain us where us: "distinct us" "set us = cyclers rt ls cfg"
    "addPolygonsToNewPolygonArray rt ps
      (createUserPolygonsMap rt (segregatePointsByUser rt ls) cfg) =
     Some (ps @ map (\<lambda>u. line_polygon (line_of rt ls u)) us)"
    using new_polygons_eq[OF assms] by blast
  obtain rs where rs: "cleanPolygons rt (ps @ map (\<lambda>u. line_polygon (line_of rt ls u)) us) = Some rs"
    using cleanPolygons_shape[OF assms] by blast
  have "processData rt ls ps cfg = Some (Inr (removePointsFromLiveLinesData ls rs, rs))"
    by (simp add: processData_def us(3) rs)
  then show ?thesis using that us(1,2) rs by blast
qed

lemma set_line_of:
  "runtime_ok rt \<Longrightarrow> set (line_of rt ls u) = {l \<in> set ls. ll_Sender l = u}"
  using sort_func.set_srt[OF runtime_okD(1)] by (auto simp: line_of_def)

lemma line_of_runner:
  assumes "runtime_ok rt" "u \<in> cyclers rt ls cfg"
  shows "poly_Runner (line_polygon (line_of rt ls u)) = u"
proof -
  have "line_of rt ls u \<noteq> []"
    using assms IsCycle_length[of "line_of rt ls u" cfg] by (auto simp: cyclers_def)
  then have "hd (line_of rt ls u) \<in> set (line_of rt ls u)" by simp
  then show ?thesis by (simp add: set_line_of[OF assms(1)] line_polygon_def)
qed

text \<open>With the check on the duration in force no live line ever becomes a polygon.\<close>

lemma cyclers_duration_check:
  assumes "runtime_ok rt" "cfg_DoSecondsForCycleCheck cfg" "1 \<le> cfg_NumSecondsForCycle cfg"
    "cfg_NumSecondsForCycle cfg < 2 ^ 63"
  shows "cyclers rt ls cfg = {}"
proof -
  have "\<not> IsCycle (line_of rt ls u) cfg" for u
    unfolding line_of_def
    by (rule IsCycle_sorted[OF assms(2-4)])
      (rule sort_func.ordered[OF runtime_okD(1)[OF assms(1)] lines_by_time.cmp_order_axioms])
  then show ?thesis by (simp add: cyclers_def)
qed

lemma removePoints_subseq: "subseq (removePointsFromLiveLinesData ls rs) ls"
  by (simp add: removePoints_filter)

text \<open>What a step returns, in terms of its input.\<close>

lemma processData_outcome:
  assumes "runtime_ok rt"
  shows "\<exists>lls rs. processData rt ls ps cfg = Some (Inr (lls, rs)) \<and> subseq lls ls \<and>
    (\<forall>l\<in>set lls. \<not> covered rs l) \<and> sorted (map poly_Runner rs) \<and>
    poly_Runner ` set rs = poly_Runner ` set ps \<union> cyclers rt ls cfg \<and>
    points_of rs \<subseteq> points_of ps \<union> line_coordinate ` set ls"
proof (rule processData_eq[OF assms, of ls cfg ps])
  fix us rs
  let ?new = "map (\<lambda>u. line_polygon (line_of rt ls u)) us"
  assume us: "set us = cyclers rt ls cfg"
    and clean: "cleanPolygons rt (ps @ ?new) = Some rs"
    and res: "processData rt ls ps cfg = Some (Inr (removePointsFromLiveLinesData ls rs, rs))"
  have shape: "sorted (map poly_Runner rs)" "poly_Runner ` set rs = poly_Runner ` set (ps @ ?new)"
    "points_of rs \<subseteq> points_of (ps @ ?new)"
    using cleanPolygons_shape[OF assms, of "ps @ ?new"] clean by auto
  have "poly_Runner ` set ?new = set us"
    using line_of_runner[OF assms] us by (force simp: image_image)
  moreover have "points_of ?new \<subseteq> line_coordinate ` set ls"
    using set_line_of[OF assms] by (auto simp: points_of_def line_polygon_def)
  ultimately show ?thesis
    using shape res us removePoints_uncovered removePoints_subseq
    by (intro exI[of _ "removePointsFromLiveLinesData ls rs"] exI[of _ rs]) (auto simp: image_Un)
qed

text \<open>
  The order in which maps are visited and the order in which the database lists the polygons do
  not matter, if no two of the polygons that are cleaned have the same time.
\<close>

definition step_polygons ::
  "go_rt \<Rightarrow> live_line list \<Rightarrow> polygon_data list \<Rightarrow> run_processor_config \<Rightarrow> polygon_data list" where
  "step_polygons rt ls ps cfg =
     ps @ map (\<lambda>u. line_polygon (line_of rt ls u)) (sorted_list_of_set (cyclers rt ls cfg))"

lemma finite_cyclers [simp]: "finite (cyclers rt ls cfg)"
  by (simp add: cyclers_def)

lemma processData_canonical:
  assumes "runtime_ok rt" "distinct_times (step_polygons rt ls ps cfg)"
  shows "processData rt ls ps cfg = do {
    rs \<leftarrow> cleanPolygons rt (step_polygons rt ls ps cfg);
    Some (Inr (removePointsFromLiveLinesData ls rs, rs)) }"
proof (rule processData_eq[OF assms(1), of ls cfg ps])
  fix us rs
  assume us: "distinct us" "set us = cyclers rt ls cfg"
    and rs: "cleanPolygons rt (ps @ map (\<lambda>u. line_polygon (line_of rt ls u)) us) = Some rs"
    and res: "processData rt ls ps cfg = Some (Inr (removePointsFromLiveLinesData ls rs, rs))"
  have "mset us = mset (sorted_list_of_set (cyclers rt ls cfg))"
    using us by (simp add: set_eq_iff_mset_eq_distinct[symmetric])
  then have "mset (step_polygons rt ls ps cfg) =
      mset (ps @ map (\<lambda>u. line_polygon (line_of rt ls u)) us)"
    by (simp add: step_polygons_def)
  then have "cleanPolygons rt (step_polygons rt ls ps cfg) = Some rs"
    using cleanPolygons_input_order[OF assms(1) _ assms(2), symmetric] rs by metis
  then show ?thesis using res by simp
qed

lemma processData_orders:
  assumes "runtime_ok rt" "\<And>site ks. mset (f site ks) = mset ks"
    and "distinct_times (step_polygons rt ls ps cfg)" "mset ps = mset ps'"
  shows "processData (rt\<lparr>range_order := f\<rparr>) ls ps' cfg = processData rt ls ps cfg"
proof -
  let ?rt = "rt\<lparr>range_order := f\<rparr>"
  have ok: "runtime_ok ?rt" by (rule runtime_ok_range_order) (fact assms)+
  have "line_of ?rt = line_of rt" by (intro ext) (simp add: line_of_def)
  then have step: "step_polygons ?rt ls ps' cfg = step_polygons rt ls ps' cfg"
    by (simp add: step_polygons_def cyclers_def)
  have perm: "mset (step_polygons rt ls ps cfg) = mset (step_polygons rt ls ps' cfg)"
    using assms(4) by (simp add: step_polygons_def)
  then have "set (step_polygons rt ls ps' cfg) = set (step_polygons rt ls ps cfg)"
    by (metis set_mset_mset)
  then have "distinct_times (step_polygons ?rt ls ps' cfg)"
    using assms(3) by (simp add: step distinct_times_def)
  then have "processData ?rt ls ps' cfg = do {
      rs \<leftarrow> cleanPolygons rt (step_polygons rt ls ps' cfg);
      Some (Inr (removePointsFromLiveLinesData ls rs, rs)) }"
    using processData_canonical[OF ok] cleanPolygons_map_order[OF assms(1,2)] by (simp add: step)
  also have "cleanPolygons rt (step_polygons rt ls ps' cfg) = cleanPolygons rt (step_polygons rt ls ps cfg)"
    by (rule cleanPolygons_input_order[OF assms(1) perm assms(3), symmetric])
  finally show ?thesis using processData_canonical[OF assms(1,3)] by simp
qed

subsection \<open>Properties\<close>

text \<open>C1: A processing step always returns a result and never an error. The live points it returns
  are some of the given ones, in their order, and none of them is inside a returned polygon; the
  polygons belong to the runners that had one or whose line is a cycle, and have no other points
  than the stored polygons and the live points.\<close>

theorem processData_correct:
  assumes "runtime_ok rt"
  shows "\<exists>lls rs. processData rt ls ps cfg = Some (Inr (lls, rs)) \<and> subseq lls ls \<and>
    (\<forall>l\<in>set lls. \<forall>r\<in>set rs. \<not> isPointInPolygon (live_point l) (poly_Coords r)) \<and>
    sorted (map poly_Runner rs) \<and>
    poly_Runner ` set rs = poly_Runner ` set ps \<union>
      {u \<in> ll_Sender ` set ls. IsCycle (line_of rt ls u) cfg} \<and>
    (\<Union>r\<in>set rs. set (poly_Coords r)) \<subseteq>
      (\<Union>p\<in>set ps. set (poly_Coords p)) \<union> line_coordinate ` set ls"
  using processData_outcome[OF assms, of ls ps cfg]
  by (simp add: covered_def cyclers_def points_of_def)

theorem processData_correct_witness:
  "\<exists>lls rs. processData plain_rt [live_at ''u'' 1 5 5] [polygon_of square_a ''v'' 2]
      (NewRunProcessorConfig (distance plain_rt) True 10 (Fin 1)) = Some (Inr (lls, rs)) \<and>
    subseq lls [live_at ''u'' 1 5 5]"
  using processData_correct[OF runtime_ok_plain_rt, of "[live_at ''u'' 1 5 5]" "[polygon_of square_a ''v'' 2]"
      "NewRunProcessorConfig (distance plain_rt) True 10 (Fin 1)"]
  by (elim exE conjE) (intro exI conjI)

text \<open>C20: The step is deterministic although Go visits maps in random order: neither the order of the
  maps nor the order of the stored polygons changes the result, provided no two different polygons
  that are cleaned carry the same time.\<close>

theorem processData_deterministic:
  assumes "runtime_ok rt" "\<forall>site ks. mset (f site ks) = mset ks"
    and "distinct_times (step_polygons rt ls ps cfg)" "mset ps = mset ps'"
  shows "processData (rt\<lparr>range_order := f\<rparr>) ls ps' cfg = processData rt ls ps cfg"
  by (rule processData_orders[OF assms(1) _ assms(3,4)]) (use assms(2) in simp)

theorem processData_deterministic_witness:
  "processData (plain_rt\<lparr>range_order := (\<lambda>site. rev)\<rparr>) [live_at ''u'' 1 5 5, live_at ''w'' 1 5 5]
     [polygon_of square_b ''u'' 2, polygon_of square_a ''v'' 1]
     (NewRunProcessorConfig (distance plain_rt) True 10 (Fin 1)) =
   processData plain_rt [live_at ''u'' 1 5 5, live_at ''w'' 1 5 5]
     [polygon_of square_a ''v'' 1, polygon_of square_b ''u'' 2]
     (NewRunProcessorConfig (distance plain_rt) True 10 (Fin 1))"
proof (rule processData_deterministic[OF runtime_ok_plain_rt])
  have "cyclers plain_rt ls (NewRunProcessorConfig (distance plain_rt) True 10 (Fin 1)) = {}" for ls
    by (rule cyclers_duration_check[OF runtime_ok_plain_rt]) (simp_all add: NewRunProcessorConfig_def)
  then show "distinct_times (step_polygons plain_rt [live_at ''u'' 1 5 5, live_at ''w'' 1 5 5]
      [polygon_of square_a ''v'' 1, polygon_of square_b ''u'' 2]
      (NewRunProcessorConfig (distance plain_rt) True 10 (Fin 1)))"
    by (simp add: step_polygons_def distinct_times_def polygon_of_def)
qed simp_all

text \<open>With the check on the duration in force no live line ever becomes a polygon: the result has
  polygons of exactly the runners that had a stored one.\<close>

lemma processData_no_new_polygons:
  assumes "runtime_ok rt" "cfg_DoSecondsForCycleCheck cfg" "1 \<le> cfg_NumSecondsForCycle cfg"
    "cfg_NumSecondsForCycle cfg < 2 ^ 63"
  shows "\<exists>lls rs. processData rt ls ps cfg = Some (Inr (lls, rs)) \<and> cleanPolygons rt ps = Some rs \<and>
    poly_Runner ` set rs = poly_Runner ` set ps"
proof (rule processData_eq[OF assms(1), of ls cfg ps])
  fix us rs
  assume us: "set us = cyclers rt ls cfg"
    and clean: "cleanPolygons rt (ps @ map (\<lambda>u. line_polygon (line_of rt ls u)) us) = Some rs"
    and res: "processData rt ls ps cfg = Some (Inr (removePointsFromLiveLinesData ls rs, rs))"
  have "us = []" using us cyclers_duration_check[OF assms] by simp
  then have "cleanPolygons rt ps = Some rs" using clean by simp
  then show ?thesis using res cleanPolygons_shape[OF assms(1), of ps] by simp
qed

lemma processData_no_new_polygons_witness:
  "\<exists>lls. processData plain_rt [live_at ''u'' 0 0 0, live_at ''u'' 1800000000000 1 0,
      live_at ''u'' 3600000000000 0 0] [] (NewRunProcessorConfig (distance plain_rt) True 10 (Fin 1)) =
    Some (Inr (lls, []))"
proof -
  let ?cfg = "NewRunProcessorConfig (distance plain_rt) True 10 (Fin 1)"
  let ?ls = "[live_at ''u'' 0 0 0, live_at ''u'' 1800000000000 1 0, live_at ''u'' 3600000000000 0 0]"
  have cfg: "cfg_DoSecondsForCycleCheck ?cfg" "1 \<le> cfg_NumSecondsForCycle ?cfg"
    "cfg_NumSecondsForCycle ?cfg < 2 ^ 63" by (simp_all add: NewRunProcessorConfig_def)
  obtain lls rs where r: "processData plain_rt ?ls [] ?cfg = Some (Inr (lls, rs))"
    "poly_Runner ` set rs = poly_Runner ` set ([] :: polygon_data list)"
    using processData_no_new_polygons[OF runtime_ok_plain_rt cfg, of ?ls "[]"]
    by (elim exE conjE) (rule that)
  then have "rs = []" by simp
  then show ?thesis using r(1) by (intro exI[of _ lls]) (simp only:)
qed

text \<open>C5: What is removed. A point stays exactly if it is later than its runner's cutoff, and the
  others keep their order; the cutoff runs through the runner's points in the order of the list, and
  each covered point that is not before it moves it to the latest of its own time and the times of all
  polygons around it. So a point goes if the same runner has a covered point at the same time or
  later, and also if it is not later than every polygon around the runner's first covered point; it
  stays if it is later than all covered points of the runner and all polygons around them.\<close>

theorem removePoints_correct:
  assumes "l \<in> set ls"
  shows "removePointsFromLiveLinesData ls polygons =
      filter (\<lambda>x. \<forall>t. runner_cutoff polygons None (lines_of (ll_Sender x) ls) = Some t \<longrightarrow> t < ll_Time x) ls \<and>
    (\<forall>xs c ys. l \<in> set (removePointsFromLiveLinesData ls polygons) \<and> ls = xs @ c # ys \<and>
      ll_Sender c = ll_Sender l \<and> covered polygons c \<and>
      (\<forall>x\<in>set xs. ll_Sender x = ll_Sender c \<longrightarrow> \<not> covered polygons x) \<longrightarrow>
      (\<forall>polygon\<in>set polygons. isPointInPolygon (live_point c) (poly_Coords polygon) \<longrightarrow>
         poly_Time polygon < ll_Time l)) \<and>
    (l \<in> set (removePointsFromLiveLinesData ls polygons) \<longrightarrow>
      (\<forall>c\<in>set ls. ll_Sender c = ll_Sender l \<and> covered polygons c \<longrightarrow> ll_Time c < ll_Time l)) \<and>
    ((\<forall>c\<in>set ls. ll_Sender c = ll_Sender l \<and> covered polygons c \<longrightarrow> ll_Time c < ll_Time l \<and>
        (\<forall>polygon\<in>set polygons. isPointInPolygon (live_point c) (poly_Coords polygon) \<longrightarrow>
           poly_Time polygon < ll_Time l)) \<longrightarrow>
      l \<in> set (removePointsFromLiveLinesData ls polygons))"
    (is "?filter \<and> ?first \<and> ?goes \<and> ?stays")
proof (intro conjI)
  show filt: ?filter by (simp add: removePoints_filter cutoffs_runner)
  show ?first
  proof (intro allI impI ballI)
    fix xs c ys polygon
    assume c: "l \<in> set (removePointsFromLiveLinesData ls polygons) \<and> ls = xs @ c # ys \<and>
      ll_Sender c = ll_Sender l \<and> covered polygons c \<and>
      (\<forall>x\<in>set xs. ll_Sender x = ll_Sender c \<longrightarrow> \<not> covered polygons x)"
      and p: "polygon \<in> set polygons" "isPointInPolygon (live_point c) (poly_Coords polygon)"
    obtain w where w: "runner_cutoff polygons None (lines_of (ll_Sender l) ls) = Some w"
        "entry_time polygons c \<le> w"
      using first_covered_cutoff[of polygons c xs ys] c by auto
    have "poly_Time polygon \<le> entry_time polygons c" using p by (auto simp: entry_time_eq intro!: Max_ge)
    moreover have "w < ll_Time l" using c w(1) unfolding filt by auto
    ultimately show "poly_Time polygon < ll_Time l" using w(2) by (meson le_less_trans order_trans)
  qed
  show ?goes using removePoints_drops[OF assms] by (meson not_less)
  show ?stays
  proof
    assume before: "\<forall>c\<in>set ls. ll_Sender c = ll_Sender l \<and> covered polygons c \<longrightarrow> ll_Time c < ll_Time l \<and>
        (\<forall>polygon\<in>set polygons. isPointInPolygon (live_point c) (poly_Coords polygon) \<longrightarrow>
           poly_Time polygon < ll_Time l)"
    show "l \<in> set (removePointsFromLiveLinesData ls polygons)"
    proof (rule removePoints_keeps[OF assms])
      fix c assume "c \<in> set ls" "ll_Sender c = ll_Sender l" "covered polygons c"
      then show "entry_time polygons c < ll_Time l"
        using before entry_time_bounds(2)[of polygons c] by fastforce
    qed
  qed
qed

text \<open>The point of time 2 is later than the covered point, but not than the polygon.\<close>

theorem removePoints_correct_witness:
  "live_at ''u'' 5 9 9 \<in> set (removePointsFromLiveLinesData
     [live_at ''u'' 1 2 2, live_at ''u'' 2 9 9, live_at ''u'' 5 9 9] [polygon_of square_a ''v'' 3]) \<and>
   live_at ''u'' 2 9 9 \<notin> set (removePointsFromLiveLinesData
     [live_at ''u'' 1 2 2, live_at ''u'' 2 9 9, live_at ''u'' 5 9 9] [polygon_of square_a ''v'' 3]) \<and>
   live_at ''u'' 1 2 2 \<notin> set (removePointsFromLiveLinesData
     [live_at ''u'' 1 2 2, live_at ''u'' 2 9 9, live_at ''u'' 5 9 9] [polygon_of square_a ''v'' 3])"
proof -
  let ?ls = "[live_at ''u'' 1 2 2, live_at ''u'' 2 9 9, live_at ''u'' 5 9 9]"
  have lp: "live_point (live_at s t x y) = at_xy x y" for s t x y
    by (simp add: live_point_def live_at_def at_xy_def)
  have at: "ll_Sender (live_at s t x y) = s" "ll_Time (live_at s t x y) = At t" for s t x y
    by (simp_all add: live_at_def)
  have cov: "covered [polygon_of square_a ''v'' 3] (live_at ''u'' 1 2 2)"
      "\<And>s t. \<not> covered [polygon_of square_a ''v'' 3] (live_at s t 9 9)"
    using inside_square_a(1) by (simp add: covered_def lp, simp add: covered_def lp square_a_def ray_eval)
  note at5 = removePoints_correct[of "live_at ''u'' 5 9 9" ?ls "[polygon_of square_a ''v'' 3]",
      THEN conjunct2, THEN conjunct2, THEN conjunct2, THEN mp]
  note at2 = removePoints_correct[of "live_at ''u'' 2 9 9" ?ls "[polygon_of square_a ''v'' 3]",
      THEN conjunct2, THEN conjunct1, rule_format, of "[]" "live_at ''u'' 1 2 2" "tl ?ls" "polygon_of square_a ''v'' 3"]
  note at1 = removePoints_correct[of "live_at ''u'' 1 2 2" ?ls "[polygon_of square_a ''v'' 3]",
      THEN conjunct2, THEN conjunct2, THEN conjunct1, rule_format, of "live_at ''u'' 1 2 2"]
  have "live_at ''u'' 5 9 9 \<in> set (removePointsFromLiveLinesData ?ls [polygon_of square_a ''v'' 3])"
    by (rule at5) (use cov in \<open>auto simp: at\<close>)
  moreover have "live_at ''u'' 2 9 9 \<notin> set (removePointsFromLiveLinesData ?ls [polygon_of square_a ''v'' 3])"
    using at2 cov inside_square_a(1) by (auto simp: at lp)
  moreover have "live_at ''u'' 1 2 2 \<notin> set (removePointsFromLiveLinesData ?ls [polygon_of square_a ''v'' 3])"
    using at1 cov by (auto simp: at)
  ultimately show ?thesis by simp
qed

end
