(* ===== verification/Distance.thy ===== *)
theory Distance
  imports Geometry
begin

section \<open>Properties of the distance function\<close>

text \<open>
  The distance of services/utils.go is computed in floating point, so nothing that holds of the
  exact formula can be taken for granted. What does hold: it is symmetric to the last bit when the
  cosine is even, which rests on the symmetry of rounding (\<open>round64_neg\<close>), and it is a NaN or a
  number between 0 and 20.2 million metres; a NaN has its cause in the cosine (\<open>distance_NaN_iff\<close>).
\<close>

subsection \<open>Signs\<close>

lemma round64_neg: "round64 (\<not> n) (- q) = fneg (round64 n q)"
  by (auto simp: round64_def Let_def fzero_def)

lemma fsign_fneg: "a \<noteq> NaN \<Longrightarrow> fsign (fneg a) \<longleftrightarrow> \<not> fsign a"
  by (cases a) auto

lemma fneg_NaN_iff [simp]: "fneg a = NaN \<longleftrightarrow> a = NaN"
  by (cases a) (auto split: if_splits)

lemma fneg_fzero [simp]: "fneg (fzero n) = fzero (\<not> n)" "fneg (finf n) = finf (\<not> n)"
  by (simp_all add: fzero_def finf_def)

lemma fmul_commute: "fmul a b = fmul b a"
proof -
  have "(fsign a \<noteq> fsign b) = (fsign b \<noteq> fsign a)" by auto
  then show ?thesis unfolding fmul_def Let_def
    by (simp only: mult.commute[of "fval a"]) (auto split: if_splits)
qed

lemma fmul_fneg: "fmul a (fneg b) = fneg (fmul a b)"
proof (cases "a = NaN \<or> b = NaN")
  case False
  then have "(fsign a \<noteq> fsign (fneg b)) = (\<not> (fsign a \<noteq> fsign b))" by (auto simp: fsign_fneg)
  moreover have "fval a * fval (fneg b) = - (fval a * fval b)" by simp
  ultimately show ?thesis using False round64_neg[of "fsign a \<noteq> fsign b" "fval a * fval b"]
    by (simp add: fmul_def Let_def)
qed (auto simp: fmul_def)

lemma fdiv_fneg: "fdiv (fneg a) b = fneg (fdiv a b)"
proof (cases "a = NaN \<or> b = NaN")
  case False
  then have "(fsign (fneg a) \<noteq> fsign b) = (\<not> (fsign a \<noteq> fsign b))" by (auto simp: fsign_fneg)
  moreover have "fval (fneg a) / fval b = - (fval a / fval b)" by simp
  ultimately show ?thesis using False round64_neg[of "fsign a \<noteq> fsign b" "fval a / fval b"]
    by (simp add: fdiv_def Let_def)
qed (auto simp: fdiv_def)

text \<open>Exchanged operands negate a difference, except that a zero may keep its sign.\<close>

lemma fsub_zero:
  assumes "ffinite a" "ffinite b" "rnd (fval a - fval b) = 0"
  shows "\<exists>m. fsub a b = fzero m"
proof -
  have "a \<noteq> NaN" "b \<noteq> NaN" using assms(1,2) by auto
  then show ?thesis using assms
    by (cases "fval a - fval b = 0") (auto simp: fsub_def fadd_def round64_def)
qed

lemma fsub_swap: "fsub b a = fneg (fsub a b) \<or> fsub b a = fsub a b"
proof (cases "ffinite a \<and> ffinite b")
  case True
  let ?d = "fval a - fval b"
  show ?thesis
  proof (cases "?d = 0 \<or> rnd ?d = 0")
    case True
    then have "rnd (fval b - fval a) = 0" "rnd ?d = 0"
      using rnd_minus[of ?d] by auto
    then obtain m n where "fsub a b = fzero m" "fsub b a = fzero n"
      using fsub_zero[of a b] fsub_zero[of b a] \<open>ffinite a \<and> ffinite b\<close> by auto
    then show ?thesis by (cases m; cases n) (simp_all add: fzero_def)
  next
    case False
    then have "round64 False (- ?d) = fneg (round64 False ?d)" by (intro round64_uminus) simp
    then show ?thesis using True False by (auto simp: fsub_def fadd_def)
  qed
next
  case False
  then show ?thesis by (cases a; cases b) (auto simp: fsub_def fadd_def)
qed

subsection \<open>Symmetry\<close>

definition cos_even :: "go_rt \<Rightarrow> bool" where
  "cos_even rt \<longleftrightarrow> (\<forall>x. math_Cos rt (fneg x) = math_Cos rt x)"

lemma cos_radtheta:
  assumes "cos_even rt"
  shows "math_Cos rt (fdiv (fmul math_Pi (fsub b a)) d) = math_Cos rt (fdiv (fmul math_Pi (fsub a b)) d)"
  using fsub_swap[of b a] assms by (auto simp: fmul_fneg fdiv_fneg cos_even_def)

lemma distance_symmetric:
  assumes "cos_even rt"
  shows "distance rt c d a b = distance rt a b c d"
proof -
  let ?r = "\<lambda>x. fdiv (fmul math_Pi x) (flit 180)"
  have "fmul (math_Sin rt (?r c)) (math_Sin rt (?r a)) = fmul (math_Sin rt (?r a)) (math_Sin rt (?r c))"
    "fmul (math_Cos rt (?r c)) (math_Cos rt (?r a)) = fmul (math_Cos rt (?r a)) (math_Cos rt (?r c))"
    by (rule fmul_commute)+
  then show ?thesis
    by (simp only: distance_def Let_def cos_radtheta[OF assms, of d b "flit 180"])
qed

lemma cos_even_plain_rt: "cos_even plain_rt"
proof -
  have "fmul (fneg x) (fneg x) = fmul x x" for x
    by (cases x) (auto simp: fmul_def Let_def)
  then show ?thesis by (simp add: cos_even_def plain_rt_def)
qed

subsection \<open>Properties\<close>

text \<open>C38: The distance does not depend on the order of its two points, to the last bit. It is a NaN only
  if the computed cosine of the angle between the points is a NaN or below -1: a cosine that rounding
  has put above 1 is taken for 1, so it gives a distance. Every other distance lies between 0 and 20.2
  million metres, half the circumference of the Earth and one per cent. The cosine of the runtime is
  even, and its arc cosine is an angle in radians from 0 to pi, or a NaN outside \<open>[-1, 1]\<close>.\<close>

theorem distance_correct:
  assumes "cos_even rt" "acos_ok rt"
  shows "distance rt lat1 lng1 lat2 lng2 = distance rt lat2 lng2 lat1 lng1 \<and>
    (distance rt lat1 lng1 lat2 lng2 = NaN \<longleftrightarrow>
      computed_cosine rt lat1 lng1 lat2 lng2 = NaN \<or> flt (computed_cosine rt lat1 lng1 lat2 lng2) (Fin (- 1))) \<and>
    (distance rt lat1 lng1 lat2 lng2 = NaN \<or>
     \<not> flt (distance rt lat1 lng1 lat2 lng2) (Fin 0) \<and> \<not> flt (Fin 20200000) (distance rt lat1 lng1 lat2 lng2))"
  using distance_symmetric[OF assms(1), of lat1 lng1 lat2 lng2] distance_NaN_iff[OF assms(2), of lat1 lng1 lat2 lng2]
    distance_bound[OF assms(2), of lat1 lng1 lat2 lng2]
  by (auto simp: fin_in_def flt_def)

theorem distance_correct_witness:
  "distance plain_rt (Fin 10) (Fin 0) (Fin 40) (Fin 0) = distance plain_rt (Fin 40) (Fin 0) (Fin 10) (Fin 0) \<and>
   distance plain_rt (Fin 10) (Fin 0) (Fin 40) (Fin 0) \<noteq> NaN"
proof -
  have "fin_in (computed_cosine plain_rt (Fin 10) (Fin 0) (Fin 40) (Fin 0)) 2"
    by (rule meridian_cosine) (simp_all add: fin_in_def)
  then have "\<not> (computed_cosine plain_rt (Fin 10) (Fin 0) (Fin 40) (Fin 0) = NaN \<or>
      flt (computed_cosine plain_rt (Fin 10) (Fin 0) (Fin 40) (Fin 0)) (Fin (- 1)))"
    by (auto simp: fin_in_def flt_def)
  then show ?thesis
    using distance_correct[OF cos_even_plain_rt acos_ok_plain_rt, of "Fin 10" "Fin 0" "Fin 40" "Fin 0"] by blast
qed

end
