(* ===== verification/Mongo.thy ===== *)
theory Mongo
  imports Schema
begin

section \<open>Reading a group's documents: getData in services/utils.go\<close>

text \<open>
  The MongoDB driver is a parameter: \<open>mongo_read\<close> holds the results of its calls (the query with the
  documents its cursor delivers, the decoding of one document, its extended JSON, and the fields of
  such a text). The text is decoded into a struct with the one field \<open>data\<close>, whose type is that of
  the points or polygons; the decoding of such a value is a parameter too. \<open>getData\<close> keeps what survives
  all conversions and logs the rest away (\<open>getData_eq\<close>).
\<close>

subsection \<open>Constants\<close>

definition RUNNER_DATABASE :: string where
  "RUNNER_DATABASE = ''runner''"

definition RUNNER_GROUP_COLLECTION :: string where
  "RUNNER_GROUP_COLLECTION = ''runner_groups''"

definition RUNNER_LIVE_LINES_COLLECTION :: string where
  "RUNNER_LIVE_LINES_COLLECTION = ''runner_live_lines''"

definition RUNNER_POLYGON_COLLECTION :: string where
  "RUNNER_POLYGON_COLLECTION = ''runner_polygon''"

subsection \<open>The function\<close>

type_synonym filter_doc = "(string \<times> string) list"

record ('doc, 'bson, 'text) mongo_read =
  mongo_Find :: "string \<Rightarrow> string \<Rightarrow> filter_doc \<Rightarrow> string + 'doc list"
  cursor_Decode :: "'doc \<Rightarrow> string + 'bson"
  bson_MarshalExtJSON :: "'bson \<Rightarrow> string + 'text"
  extJSON_fields :: "'text \<Rightarrow> string + (string \<times> 'text) list"

text \<open>
  The local struct \<open>dataStruct\<close>. The driver decodes the fields of the text in their order; one that has the
  name of the struct's field, if need be in lower case, is decoded into it, all others are skipped. A
  struct without any such field keeps its zero value.
\<close>

definition dataStruct_field :: go_field where
  "dataStruct_field = \<lparr>fld_Name = ''Data'', fld_json = None, fld_bson = Some ''data''\<rparr>"

definition names_field :: "go_field \<Rightarrow> string \<Rightarrow> bool" where
  "names_field f key \<longleftrightarrow> key = bson_key f \<or> map ascii_lower key = bson_key f"

definition dataStruct_Unmarshal ::
  "('doc, 'bson, 'text) mongo_read \<Rightarrow> ('text \<Rightarrow> 't \<Rightarrow> string + 't) \<Rightarrow> 't \<Rightarrow> 'text \<Rightarrow> string + 't" where
  "dataStruct_Unmarshal db decode zero text =
     (case extJSON_fields db text of
        Inl err \<Rightarrow> Inl err
      | Inr elements \<Rightarrow> fold (\<lambda>(key, value) acc.
          (case acc of
             Inl err \<Rightarrow> Inl err
           | Inr data \<Rightarrow> if names_field dataStruct_field key then decode value data else Inr data))
          elements (Inr zero))"

lemma dataStruct_Unmarshal_skips:
  assumes "extJSON_fields db text = Inr elements" "\<forall>key\<in>set (map fst elements). \<not> names_field dataStruct_field key"
  shows "dataStruct_Unmarshal db decode zero text = Inr zero"
proof -
  have "fold (\<lambda>(key, value) acc.
      (case acc of
         Inl err \<Rightarrow> Inl err
       | Inr data \<Rightarrow> if names_field dataStruct_field key then decode value data else Inr data))
      es (Inr zero) = Inr zero"
    if "\<forall>key\<in>set (map fst es). \<not> names_field dataStruct_field key" for es
    using that by (induction es) auto
  then show ?thesis using assms by (simp add: dataStruct_Unmarshal_def)
qed

lemma stored_point_has_no_data:
  "\<forall>key\<in>insert ''_id'' (set (map fst (LiveLinesData_document l))). \<not> names_field dataStruct_field key"
proof -
  have "\<not> names_field dataStruct_field ''_id''" "\<not> names_field dataStruct_field ''x''"
    "\<not> names_field dataStruct_field ''y''" "\<not> names_field dataStruct_field ''time''"
    "\<not> names_field dataStruct_field ''sender''" "\<not> names_field dataStruct_field ''group_code''"
    by code_simp+
  then show ?thesis by (simp only: document_fields) simp
qed

text \<open>\<open>decode\<close> and \<open>zero\<close> belong to the type parameter of the function.\<close>

definition getData ::
  "('doc, 'bson, 'text) mongo_read \<Rightarrow> ('text \<Rightarrow> 't \<Rightarrow> string + 't) \<Rightarrow> 't \<Rightarrow> string \<Rightarrow> string \<Rightarrow>
   string + 't list" where
  "getData db decode zero groupCode collectionName =
     (case mongo_Find db RUNNER_DATABASE collectionName [(''group_code'', groupCode)] of
        Inl err \<Rightarrow> Inl err
      | Inr cursor \<Rightarrow> Inr (fold (\<lambda>doc data.
          case cursor_Decode db doc of
            Inl err \<Rightarrow> data
          | Inr d \<Rightarrow>
              (case bson_MarshalExtJSON db d of
                 Inl err \<Rightarrow> data
               | Inr dByte \<Rightarrow>
                   (case dataStruct_Unmarshal db decode zero dByte of
                      Inl err \<Rightarrow> data
                    | Inr groupData \<Rightarrow> data @ [groupData])))
          cursor []))"

text \<open>Reading one document: the first failing conversion decides.\<close>

definition read_doc ::
  "('doc, 'bson, 'text) mongo_read \<Rightarrow> ('text \<Rightarrow> 't \<Rightarrow> string + 't) \<Rightarrow> 't \<Rightarrow> 'doc \<Rightarrow> 't option" where
  "read_doc db decode zero doc =
     (case cursor_Decode db doc of Inl err \<Rightarrow> None
      | Inr d \<Rightarrow> (case bson_MarshalExtJSON db d of Inl err \<Rightarrow> None
      | Inr dByte \<Rightarrow> (case dataStruct_Unmarshal db decode zero dByte of Inl err \<Rightarrow> None | Inr t \<Rightarrow> Some t)))"

lemma getData_eq:
  "getData db decode zero groupCode collectionName =
     map_sum id (List.map_filter (read_doc db decode zero))
       (mongo_Find db RUNNER_DATABASE collectionName [(''group_code'', groupCode)])"
proof -
  have step: "(\<lambda>doc data.
          case cursor_Decode db doc of
            Inl err \<Rightarrow> data
          | Inr d \<Rightarrow>
              (case bson_MarshalExtJSON db d of
                 Inl err \<Rightarrow> data
               | Inr dByte \<Rightarrow>
                   (case dataStruct_Unmarshal db decode zero dByte of
                      Inl err \<Rightarrow> data
                    | Inr groupData \<Rightarrow> data @ [groupData]))) =
      (\<lambda>doc data. data @ (case read_doc db decode zero doc of None \<Rightarrow> [] | Some t \<Rightarrow> [t]))"
    by (intro ext) (auto simp: read_doc_def split: sum.splits)
  have "fold (\<lambda>doc data. data @ (case read_doc db decode zero doc of None \<Rightarrow> [] | Some t \<Rightarrow> [t])) docs acc =
      acc @ List.map_filter (read_doc db decode zero) docs" for docs acc
    by (induction docs arbitrary: acc) (auto simp: map_filter_def split: option.splits)
  then show ?thesis by (simp add: getData_def step split: sum.splits)
qed

text \<open>The two instances the services use.\<close>

record ('doc, 'bson, 'text) group_store =
  gs_read :: "('doc, 'bson, 'text) mongo_read"
  decode_LiveLines :: "'text \<Rightarrow> live_line \<Rightarrow> string + live_line"
  decode_Polygon :: "'text \<Rightarrow> polygon_data \<Rightarrow> string + polygon_data"

definition getLiveLinesDataFromMongo ::
  "('doc, 'bson, 'text) group_store \<Rightarrow> string \<Rightarrow> string + live_line list" where
  "getLiveLinesDataFromMongo store groupCode =
     getData (gs_read store) (decode_LiveLines store) zero_live_line groupCode RUNNER_LIVE_LINES_COLLECTION"

definition getPolygonDataFromMongo ::
  "('doc, 'bson, 'text) group_store \<Rightarrow> string \<Rightarrow> string + polygon_data list" where
  "getPolygonDataFromMongo store groupCode =
     getData (gs_read store) (decode_Polygon store) zero_polygon_data groupCode RUNNER_POLYGON_COLLECTION"

lemma getData_error_iff:
  "(\<exists>err. getData db decode zero code coll = Inl err) \<longleftrightarrow>
   (\<exists>err. mongo_Find db RUNNER_DATABASE coll [(''group_code'', code)] = Inl err)"
  by (cases "mongo_Find db RUNNER_DATABASE coll [(''group_code'', code)]") (simp_all add: getData_eq)

subsection \<open>Properties\<close>

text \<open>Reading a group fails exactly if the query fails; otherwise it returns, in the order of the
  cursor, the data of those documents that all conversions accept, and skips the others.\<close>

lemma getData_correct:
  "getData db decode zero groupCode collectionName =
     (case mongo_Find db RUNNER_DATABASE collectionName [(''group_code'', groupCode)] of
        Inl err \<Rightarrow> Inl err
      | Inr docs \<Rightarrow> Inr (map (\<lambda>doc. the (read_doc db decode zero doc))
          (filter (\<lambda>doc. read_doc db decode zero doc \<noteq> None) docs)))"
  by (simp add: getData_eq map_filter_def o_def split: sum.splits)

end
