(* ===== verification/Area.thy ===== *)
theory Area
  imports Mongo Geometry
begin

section \<open>Areas: services/area.go\<close>

text \<open>
  The shoelace formula over the points in nearest-neighbour order, and the total per runner.
  \<open>area_exact\<close>: on integer coordinates of moderate size the floating-point result is exactly
  half the integer shoelace sum; \<open>area_not_negative\<close> and \<open>area_few_points\<close> cover the rest;
  \<open>AreaProcessor_get\<close> describes the totals.
\<close>

definition shoelace_step :: "coordinate list \<Rightarrow> nat \<Rightarrow> float64 \<Rightarrow> float64" where
  "shoelace_step coords i area =
     (let x1 = coord_X (coords ! i);
          y1 = coord_Y (coords ! i);
          x2 = coord_X (coords ! ((i + 1) mod length coords));
          y2 = coord_Y (coords ! ((i + 1) mod length coords))
      in fadd area (fsub (fmul x1 y2) (fmul x2 y1)))"

definition getPolygonArea :: "go_rt \<Rightarrow> coordinate list \<Rightarrow> float64" where
  "getPolygonArea rt coords =
     (let coords = sortPointsByDistance rt coords;
          area = fold (shoelace_step coords) [0..<length coords] (Fin 0)
      in fabs (fdiv area (Fin 2)))"

definition area_add :: "go_rt \<Rightarrow> polygon_data \<Rightarrow> float64 gomap \<Rightarrow> float64 gomap" where
  "area_add rt polygon m =
     (let area = getPolygonArea rt (poly_Coords polygon)
      in case gomap_get m (poly_Runner polygon) of
           Some currentArea \<Rightarrow> gomap_set (poly_Runner polygon) (fadd currentArea area) m
         | None \<Rightarrow> gomap_set (poly_Runner polygon) area m)"

definition AreaProcessor ::
  "go_rt \<Rightarrow> ('doc, 'bson, 'text) group_store \<Rightarrow> string \<Rightarrow> string + float64 gomap" where
  "AreaProcessor rt store groupCode =
     (case getPolygonDataFromMongo store groupCode of
        Inl err \<Rightarrow> Inl err
      | Inr polygonData \<Rightarrow> Inr (fold (area_add rt) polygonData gomap_empty))"

subsection \<open>The area of a polygon\<close>

lemma area_not_negative: "\<not> flt (getPolygonArea rt coords) (Fin 0)"
  by (simp add: getPolygonArea_def Let_def fabs_not_negative)

text \<open>Integer points, and the exact sum.\<close>

definition int_points :: "coordinate list \<Rightarrow> (int \<times> int) list \<Rightarrow> bool" where
  "int_points cs zs \<longleftrightarrow> list_all2 (\<lambda>c z. denotes (coord_X c) (of_int (fst z)) \<and>
     denotes (coord_Y c) (of_int (snd z))) cs zs"

definition cross :: "int \<times> int \<Rightarrow> int \<times> int \<Rightarrow> int" where
  "cross p q = fst p * snd q - fst q * snd p"

definition shoelace :: "(int \<times> int) list \<Rightarrow> int" where
  "shoelace zs = (\<Sum>i\<leftarrow>[0..<length zs]. cross (zs ! i) (zs ! (Suc i mod length zs)))"

lemma cross_bound:
  assumes "\<bar>fst p\<bar> \<le> B" "\<bar>snd p\<bar> \<le> B" "\<bar>fst q\<bar> \<le> B" "\<bar>snd q\<bar> \<le> B"
  shows "\<bar>fst p * snd q\<bar> \<le> B * B" "\<bar>fst q * snd p\<bar> \<le> B * B" "\<bar>cross p q\<bar> \<le> 2 * (B * B)"
proof -
  have "0 \<le> B" using assms(1) by linarith
  then show 1: "\<bar>fst p * snd q\<bar> \<le> B * B" and 2: "\<bar>fst q * snd p\<bar> \<le> B * B"
    using assms by (simp_all add: abs_mult mult_mono)
  show "\<bar>cross p q\<bar> \<le> 2 * (B * B)" using 1 2 unfolding cross_def by linarith
qed

lemma shoelace_fold:
  assumes "int_points cs zs" "\<forall>z\<in>set zs. \<bar>fst z\<bar> \<le> B \<and> \<bar>snd z\<bar> \<le> B"
    and "n \<le> length cs" "2 * (B * B) * int (length cs) \<le> 2 ^ 53"
  shows "denotes (fold (shoelace_step cs) [0..<n] (Fin 0))
      (of_int (\<Sum>i\<leftarrow>[0..<n]. cross (zs ! i) (zs ! (Suc i mod length zs)))) \<and>
    \<bar>\<Sum>i\<leftarrow>[0..<n]. cross (zs ! i) (zs ! (Suc i mod length zs))\<bar> \<le> 2 * (B * B) * int n"
  using assms(3)
proof (induction n)
  case (Suc n)
  let ?j = "Suc n mod length cs"
  let ?s = "\<Sum>i\<leftarrow>[0..<n]. cross (zs ! i) (zs ! (Suc i mod length zs))"
  have len: "length cs = length zs" using assms(1) by (simp add: int_points_def list_all2_lengthD)
  have j: "?j < length cs" using Suc.prems by (intro mod_less_divisor) linarith
  have den: "denotes (coord_X (cs ! i)) (of_int (fst (zs ! i)))"
      "denotes (coord_Y (cs ! i)) (of_int (snd (zs ! i)))" if "i < length cs" for i
    using assms(1) that list_all2_nthD unfolding int_points_def by fastforce+
  have bd: "\<bar>fst (zs ! i)\<bar> \<le> B" "\<bar>snd (zs ! i)\<bar> \<le> B" if "i < length cs" for i
    using assms(2) that len by simp_all
  have n: "n < length cs" using Suc.prems by simp
  note c = cross_bound[OF bd[OF n] bd[OF j]]
  have B: "0 \<le> B * B" by simp
  have "2 * (B * B) * (int n + 1) \<le> 2 * (B * B) * int (length cs)"
    using n B by (intro mult_left_mono) auto
  then have lim: "2 * (B * B) * int n + 2 * (B * B) \<le> 2 ^ 53"
    using assms(4) by (simp add: algebra_simps)
  have BB: "2 * (B * B) \<le> 2 ^ 53"
  proof -
    have "0 \<le> 2 * (B * B) * int n" using B by simp
    then show ?thesis using lim by linarith
  qed
  have IH: "denotes (fold (shoelace_step cs) [0..<n] (Fin 0)) (of_int ?s)"
      "\<bar>?s\<bar> \<le> 2 * (B * B) * int n" using Suc.IH n by simp_all
  have p1: "denotes (fmul (coord_X (cs ! n)) (coord_Y (cs ! ?j))) (of_int (fst (zs ! n) * snd (zs ! ?j)))"
    by (rule int_fmul[OF den(1)[OF n] den(2)[OF j]]) (use c(1) BB in linarith)
  have p2: "denotes (fmul (coord_X (cs ! ?j)) (coord_Y (cs ! n))) (of_int (fst (zs ! ?j) * snd (zs ! n)))"
    by (rule int_fmul[OF den(1)[OF j] den(2)[OF n]]) (use c(2) BB in linarith)
  have d: "denotes (fsub (fmul (coord_X (cs ! n)) (coord_Y (cs ! ?j)))
      (fmul (coord_X (cs ! ?j)) (coord_Y (cs ! n)))) (of_int (cross (zs ! n) (zs ! ?j)))"
    unfolding cross_def by (rule int_fsub[OF p1 p2]) (use c(3) BB in \<open>simp add: cross_def\<close>)
  have sum: "\<bar>?s + cross (zs ! n) (zs ! ?j)\<bar> \<le> 2 * (B * B) * int n + 2 * (B * B)"
    using IH(2) c(3) by linarith
  have "denotes (fadd (fold (shoelace_step cs) [0..<n] (Fin 0))
      (fsub (fmul (coord_X (cs ! n)) (coord_Y (cs ! ?j)))
        (fmul (coord_X (cs ! ?j)) (coord_Y (cs ! n))))) (of_int (?s + cross (zs ! n) (zs ! ?j)))"
    by (rule int_fadd[OF IH(1) d]) (use sum lim in linarith)
  moreover have "shoelace_step cs n a = fadd a (fsub (fmul (coord_X (cs ! n)) (coord_Y (cs ! ?j)))
        (fmul (coord_X (cs ! ?j)) (coord_Y (cs ! n))))" for a
    by (simp add: shoelace_step_def)
  ultimately show ?case using sum by (simp add: len algebra_simps)
qed simp

lemma area_exact:
  assumes "int_points (sortPointsByDistance rt coords) zs"
    and "\<forall>z\<in>set zs. \<bar>fst z\<bar> \<le> B \<and> \<bar>snd z\<bar> \<le> B"
    and "2 * (B * B) * int (length zs) \<le> 2 ^ 53"
  shows "denotes (getPolygonArea rt coords) (\<bar>of_int (shoelace zs)\<bar> / 2)"
proof -
  let ?cs = "sortPointsByDistance rt coords"
  have len: "length ?cs = length zs" using assms(1) by (simp add: int_points_def list_all2_lengthD)
  have f: "denotes (fold (shoelace_step ?cs) [0..<length ?cs] (Fin 0)) (of_int (shoelace zs))"
      "\<bar>shoelace zs\<bar> \<le> 2 * (B * B) * int (length ?cs)"
    using shoelace_fold[OF assms(1,2) order_refl] assms(3) by (simp_all add: len shoelace_def)
  then have s: "\<bar>shoelace zs\<bar> \<le> 2 ^ 53" using assms(3) len by simp
  have r: "rnd (of_int (shoelace zs) / 2) = of_int (shoelace zs) / 2" by (rule rnd_half[OF s])
  have "\<bar>of_int (shoelace zs) / 2\<bar> < (2 ^ 1024 :: rat)"
    using of_int_below_max[OF s] by simp
  then have "denotes (fdiv (fold (shoelace_step ?cs) [0..<length ?cs] (Fin 0)) (Fin 2))
      (of_int (shoelace zs) / 2)"
    using denotes_fdiv[OF f(1), of "Fin 2" 2] by (simp add: r)
  from denotes_fabs[OF this] show ?thesis by (simp add: getPolygonArea_def Let_def)
qed

text \<open>A polygon of at most two points has no area, as long as nothing overflows.\<close>

lemma round64_finite:
  assumes "ffinite (round64 b q)"
  shows "denotes (round64 b q) (rnd q)" "\<bar>rnd q\<bar> < 2 ^ 1024"
proof -
  have "\<not> 2 ^ 1024 \<le> rnd q" "\<not> rnd q \<le> - (2 ^ 1024)"
    using assms unfolding round64_def Let_def by (auto simp del: power_numeral split: if_splits)
  then show "\<bar>rnd q\<bar> < 2 ^ 1024" by linarith
  then show "denotes (round64 b q) (rnd q)" by (rule denotes_round64)
qed

lemma fadd_value:
  assumes "ffinite a" "ffinite b" "ffinite (fadd a b)"
  shows "denotes (fadd a b) (rnd (fval a + fval b))" "\<bar>rnd (fval a + fval b)\<bar> < 2 ^ 1024"
proof -
  have "a \<noteq> NaN" "b \<noteq> NaN" using assms by auto
  then have eq: "fadd a b = (if fval a + fval b = 0 then fzero (a = NegZero \<and> b = NegZero)
      else round64 False (fval a + fval b))"
    using assms by (simp add: fadd_def)
  show "denotes (fadd a b) (rnd (fval a + fval b))" "\<bar>rnd (fval a + fval b)\<bar> < 2 ^ 1024"
    using round64_finite[of False "fval a + fval b"] assms(3) eq by (auto split: if_splits)
qed

lemma there_and_back:
  assumes "ffinite a" "ffinite b" "ffinite (fsub a b)" "ffinite (fsub b a)"
  shows "denotes (fadd (fadd (Fin 0) (fsub a b)) (fsub b a)) 0"
proof -
  define r where "r = rnd (fval a - fval b)"
  have r: "rnd (fval b - fval a) = - r"
    using rnd_minus[of "fval a - fval b"] by (simp add: r_def)
  have d: "denotes (fsub a b) r" "\<bar>r\<bar> < 2 ^ 1024" "denotes (fsub b a) (- r)"
    using fadd_value[of a "fneg b"] fadd_value(1)[of b "fneg a"] assms r
    by (simp_all add: fsub_def r_def)
  have rr: "rnd (0 + r) = r" by (simp add: r_def)
  have z: "denotes (fadd (Fin 0) (fsub a b)) r"
    using denotes_fadd[of "Fin 0" 0 "fsub a b" r] d(1,2) unfolding rr by simp
  show ?thesis using denotes_fadd[OF z d(3)] by simp
qed

lemma half_zero: "denotes a 0 \<Longrightarrow> denotes (fabs (fdiv a (Fin 2))) 0"
  using denotes_fabs[OF denotes_fdiv[of a 0 "Fin 2" 2]] by simp

definition products_finite :: "coordinate list \<Rightarrow> bool" where
  "products_finite cs \<longleftrightarrow> (\<forall>p\<in>set cs. \<forall>q\<in>set cs.
     ffinite (fmul (coord_X p) (coord_Y q)) \<and>
     ffinite (fsub (fmul (coord_X p) (coord_Y q)) (fmul (coord_X q) (coord_Y p))))"

lemma area_few_points:
  assumes "length coords \<le> 2" "products_finite coords"
  shows "denotes (getPolygonArea rt coords) 0"
proof -
  have sort: "sortPointsByDistance rt coords = coords"
    using assms(1) by (simp add: sortPointsByDistance_def)
  consider "coords = []" | p where "coords = [p]" | p q where "coords = [p, q]"
    using assms(1) by (cases coords rule: remdups_adj.cases) auto
  then have "denotes (fold (shoelace_step coords) [0..<length coords] (Fin 0)) 0"
  proof cases
    case (2 p)
    have fin: "ffinite (fmul (coord_X p) (coord_Y p))"
      using assms(2) 2 by (simp add: products_finite_def)
    have "denotes (fsub (fmul (coord_X p) (coord_Y p)) (fmul (coord_X p) (coord_Y p))) 0"
      unfolding fsub_def by (rule fadd_fneg_cancel[OF fin])
    then have "denotes (fadd (Fin 0)
        (fsub (fmul (coord_X p) (coord_Y p)) (fmul (coord_X p) (coord_Y p)))) (rnd (0 + 0))"
      by (intro denotes_fadd) simp_all
    then show ?thesis by (simp add: 2 shoelace_step_def)
  next
    case (3 p q)
    then have fin: "ffinite (fmul (coord_X p) (coord_Y q))" "ffinite (fmul (coord_X q) (coord_Y p))"
      "ffinite (fsub (fmul (coord_X p) (coord_Y q)) (fmul (coord_X q) (coord_Y p)))"
      "ffinite (fsub (fmul (coord_X q) (coord_Y p)) (fmul (coord_X p) (coord_Y q)))"
      using assms(2) by (simp_all add: products_finite_def)
    then show ?thesis
      using there_and_back[OF fin] by (simp add: 3 shoelace_step_def numeral_2_eq_2)
  qed simp
  then show ?thesis by (simp add: getPolygonArea_def sort half_zero)
qed

subsection \<open>The totals of a group\<close>

text \<open>One entry per runner: the areas of the runner's polygons, added in their order.\<close>

fun sum_areas :: "float64 list \<Rightarrow> float64 option" where
  "sum_areas [] = None"
| "sum_areas (a # as) = Some (foldl fadd a as)"

lemma sum_areas_snoc:
  "sum_areas (as @ [a]) = Some (case sum_areas as of None \<Rightarrow> a | Some s \<Rightarrow> fadd s a)"
  by (cases as) auto

lemma area_add_get:
  "gomap_get (area_add rt p m) u =
     (if u = poly_Runner p
      then Some (case gomap_get m u of None \<Rightarrow> getPolygonArea rt (poly_Coords p)
        | Some s \<Rightarrow> fadd s (getPolygonArea rt (poly_Coords p)))
      else gomap_get m u)"
  by (simp add: area_add_def Let_def split: option.splits)

lemma area_fold_get:
  "gomap_get (fold (area_add rt) ps gomap_empty) u =
     sum_areas (map (\<lambda>p. getPolygonArea rt (poly_Coords p)) (filter (\<lambda>p. poly_Runner p = u) ps))"
proof (induction ps rule: rev_induct)
  case (snoc p ps)
  then show ?case by (cases "u = poly_Runner p") (simp_all add: area_add_get sum_areas_snoc)
qed simp

lemma sum_areas_not_negative:
  "sum_areas as = Some s \<Longrightarrow> \<forall>a\<in>set as. \<not> flt a (Fin 0) \<Longrightarrow> \<not> flt s (Fin 0)"
proof (induction as arbitrary: s rule: rev_induct)
  case (snoc a as)
  show ?case
  proof (cases "sum_areas as")
    case None
    then show ?thesis using snoc.prems by (simp add: sum_areas_snoc)
  next
    case (Some t)
    then have "s = fadd t a" using snoc.prems(1) by (simp add: sum_areas_snoc)
    then show ?thesis using snoc.IH[OF Some] snoc.prems(2) by (simp add: fadd_not_negative)
  qed
qed simp

lemma area_totals:
  assumes "getPolygonDataFromMongo store code = Inr ps"
  shows "\<exists>m. AreaProcessor rt store code = Inr m \<and> set (gomap_keys m) = poly_Runner ` set ps \<and>
    (\<forall>u. gomap_get m u = sum_areas (map (\<lambda>p. getPolygonArea rt (poly_Coords p))
       (filter (\<lambda>p. poly_Runner p = u) ps))) \<and>
    (\<forall>u s. gomap_get m u = Some s \<longrightarrow> \<not> flt s (Fin 0))"
proof -
  let ?m = "fold (area_add rt) ps gomap_empty"
  have none: "sum_areas (map f xs) = None \<longleftrightarrow> xs = []" for f :: "polygon_data \<Rightarrow> float64" and xs
    by (cases xs) auto
  have "set (gomap_keys ?m) = {u. sum_areas (map (\<lambda>p. getPolygonArea rt (poly_Coords p))
       (filter (\<lambda>p. poly_Runner p = u) ps)) \<noteq> None}"
    by (auto simp: gm.in_keys_iff area_fold_get)
  then have "set (gomap_keys ?m) = poly_Runner ` set ps"
    by (auto simp: none filter_empty_conv)
  moreover have "\<not> flt s (Fin 0)" if "gomap_get ?m u = Some s" for u s
    using that sum_areas_not_negative area_not_negative unfolding area_fold_get by fastforce
  ultimately show ?thesis
    by (intro exI[of _ ?m]) (simp add: AreaProcessor_def assms area_fold_get)
qed

subsection \<open>Properties\<close>

text \<open>C27: On integer coordinates (in nearest-neighbour order) bounded by B, with 2 B^2 n at most 2^53
  for n points, the floating-point shoelace formula is exact: half the absolute value of the
  integer sum of x1 y2 - x2 y1 over the edges.\<close>

theorem getPolygonArea_exact:
  assumes "list_all2 (\<lambda>c z. denotes (coord_X c) (of_int (fst z)) \<and> denotes (coord_Y c) (of_int (snd z)))
      (sortPointsByDistance rt coords) zs"
    and "\<forall>z\<in>set zs. \<bar>fst z\<bar> \<le> B \<and> \<bar>snd z\<bar> \<le> B"
    and "2 * (B * B) * int (length zs) \<le> 2 ^ 53"
  shows "denotes (getPolygonArea rt coords) (\<bar>of_int (\<Sum>i\<leftarrow>[0..<length zs].
    fst (zs ! i) * snd (zs ! (Suc i mod length zs)) - fst (zs ! (Suc i mod length zs)) * snd (zs ! i))\<bar> / 2)"
  using area_exact[of rt coords zs B] assms unfolding int_points_def shoelace_def cross_def by blast

text \<open>The point (3, 4) alone.\<close>

theorem getPolygonArea_exact_witness:
  "denotes (getPolygonArea plain_rt [\<lparr>coord_X = Fin 3, coord_Y = Fin 4, coord_Time = zero_time\<rparr>]) 0"
  using getPolygonArea_exact[of plain_rt "[\<lparr>coord_X = Fin 3, coord_Y = Fin 4, coord_Time = zero_time\<rparr>]"
      "[(3, 4)]" 4]
  by (simp add: sortPointsByDistance_def)

text \<open>The area of a polygon of at most two points is zero, unless a product or a difference of
  products overflows.\<close>

lemma getPolygonArea_degenerate:
  assumes "length coords \<le> 2"
    and "\<forall>p\<in>set coords. \<forall>q\<in>set coords. ffinite (fmul (coord_X p) (coord_Y q)) \<and>
      ffinite (fsub (fmul (coord_X p) (coord_Y q)) (fmul (coord_X q) (coord_Y p)))"
  shows "denotes (getPolygonArea rt coords) 0"
  by (rule area_few_points) (use assms in \<open>simp_all add: products_finite_def\<close>)

lemma getPolygonArea_degenerate_witness:
  "denotes (getPolygonArea plain_rt [\<lparr>coord_X = Fin 1, coord_Y = Fin 2, coord_Time = zero_time\<rparr>,
     \<lparr>coord_X = Fin 5, coord_Y = Fin 3, coord_Time = zero_time\<rparr>]) 0"
  by (rule getPolygonArea_degenerate) (simp_all add: float_defs)

text \<open>The total areas of a group: if the polygons can be read there is one entry per runner with a
  polygon, the sum of that runner's areas in their order, and no entry is below zero.\<close>

lemma AreaProcessor_correct:
  assumes "getPolygonDataFromMongo store code = Inr ps"
  shows "\<exists>m. AreaProcessor rt store code = Inr m \<and> set (gomap_keys m) = poly_Runner ` set ps \<and>
    (\<forall>u. gomap_get m u = sum_areas (map (\<lambda>p. getPolygonArea rt (poly_Coords p))
       (filter (\<lambda>p. poly_Runner p = u) ps))) \<and>
    (\<forall>u s. gomap_get m u = Some s \<longrightarrow> \<not> flt s (Fin 0))"
  by (rule area_totals[OF assms])

definition one_store :: "(nat, nat, nat) group_store" where
  "one_store = \<lparr>gs_read = \<lparr>mongo_Find = (\<lambda>_ _ _. Inr [7]), cursor_Decode = Inr, bson_MarshalExtJSON = Inr,
       extJSON_fields = (\<lambda>t. Inr [(''data'', t)])\<rparr>,
     decode_LiveLines = (\<lambda>_ _. Inl ''none''), decode_Polygon = (\<lambda>_ p. Inr (p\<lparr>poly_Runner := ''u''\<rparr>))\<rparr>"

lemma AreaProcessor_correct_witness:
  "\<exists>m. AreaProcessor plain_rt one_store ''g'' = Inr m \<and> set (gomap_keys m) = {''u''}"
proof -
  have "getPolygonDataFromMongo one_store ''g'' =
      Inr [\<lparr>poly_Coords = [], poly_Runner = ''u'', poly_Time = zero_time\<rparr>]"
    by (simp add: getPolygonDataFromMongo_def getData_def one_store_def dataStruct_Unmarshal_def names_field_def
        dataStruct_field_def bson_key_def zero_polygon_data_def)
  from AreaProcessor_correct[OF this, of plain_rt] show ?thesis by auto
qed

end
