(* ===== verification/Clients.thy ===== *)
theory Clients
  imports Prelude
begin

section \<open>The registries of websocket clients: package wsdto\<close>

text \<open>
  \<open>GroupCodeDataClientManagerMap\<close> keeps, per group code, a slice of client pointers;
  \<open>PersistAuditDataManagerMap\<close> one client pointer per user. Slices share backing arrays, and the
  handlers keep slices they got from \<open>Get\<close> after the lock is released, so the arrays are an
  explicit heap here: \<open>Add\<close> appends in place while there is capacity, \<open>RemoveClient\<close> shifts the
  elements of the shared array. Every operation holds the mutex throughout, so each is one
  atomic step.

  The locale \<open>registry\<close> is what a handler relies on: named groups of clients, with insertion and
  removal by pointer. Its interpretation \<open>group_reg\<close> shows that the slices of the code provide it, and
  \<open>snapshot_after_remove\<close> what the sharing does to a slice that a reader still holds.
\<close>

subsection \<open>Slices on a heap\<close>

type_synonym ptr = nat

record slice =
  sl_arr :: nat
  sl_len :: nat

record slice_heap =
  arrays :: "nat \<Rightarrow> ptr list"
  next_arr :: nat

definition sl_nil :: slice where
  "sl_nil = \<lparr>sl_arr = 0, sl_len = 0\<rparr>"

definition heap_empty :: slice_heap where
  "heap_empty = \<lparr>arrays = (\<lambda>_. []), next_arr = 1\<rparr>"

definition slice_elems :: "slice_heap \<Rightarrow> slice \<Rightarrow> ptr list" where
  "slice_elems h s = take (sl_len s) (arrays h (sl_arr s))"

text \<open>
  \<open>append(s, x)\<close>: in place below the capacity, else into a new array; \<open>grow n\<close> is the spare
  capacity that the runtime adds to an array of \<open>n\<close> elements.
\<close>

definition slice_append :: "(nat \<Rightarrow> nat) \<Rightarrow> slice_heap \<Rightarrow> slice \<Rightarrow> ptr \<Rightarrow> slice_heap \<times> slice" where
  "slice_append grow h s x =
     (let arr = arrays h (sl_arr s); n = sl_len s in
      if n < length arr
      then (h\<lparr>arrays := (arrays h)(sl_arr s := arr[n := x])\<rparr>, s\<lparr>sl_len := n + 1\<rparr>)
      else (h\<lparr>arrays := (arrays h)(next_arr h := take n arr @ x # replicate (grow n) 0),
              next_arr := next_arr h + 1\<rparr>,
            \<lparr>sl_arr = next_arr h, sl_len = n + 1\<rparr>))"

text \<open>\<open>append(s[:i], s[i+1:]...)\<close> always fits: it moves the tail down in the same array.\<close>

definition slice_delete :: "slice_heap \<Rightarrow> slice \<Rightarrow> nat \<Rightarrow> slice_heap \<times> slice" where
  "slice_delete h s i =
     (let arr = arrays h (sl_arr s); n = sl_len s in
      (h\<lparr>arrays := (arrays h)(sl_arr s :=
          take i arr @ drop (i + 1) (take n arr) @ drop (n - 1) arr)\<rparr>,
       s\<lparr>sl_len := n - 1\<rparr>))"

subsection \<open>Clients of a group\<close>

record group_client =
  gc_Conn :: nat
  gc_Sub :: string

record group_map =
  grp_Map :: "slice gomap"
  grp_heap :: slice_heap

definition NewGroupCodeDataClientManagerMap :: group_map where
  "NewGroupCodeDataClientManagerMap = \<lparr>grp_Map = gomap_empty, grp_heap = heap_empty\<rparr>"

text \<open>Reading a missing key gives the nil slice.\<close>

definition map_slice :: "slice gomap \<Rightarrow> string \<Rightarrow> slice" where
  "map_slice m key = (case gomap_get m key of None \<Rightarrow> sl_nil | Some s \<Rightarrow> s)"

definition group_Add :: "(nat \<Rightarrow> nat) \<Rightarrow> string \<Rightarrow> ptr \<Rightarrow> group_map \<Rightarrow> group_map" where
  "group_Add grow key client m =
     (let (h, s) = slice_append grow (grp_heap m) (map_slice (grp_Map m) key) client
      in \<lparr>grp_Map = gomap_set key s (grp_Map m), grp_heap = h\<rparr>)"

definition group_Remove :: "string \<Rightarrow> group_map \<Rightarrow> group_map" where
  "group_Remove key m = m\<lparr>grp_Map := gomap_del key (grp_Map m)\<rparr>"

definition group_Get :: "string \<Rightarrow> group_map \<Rightarrow> slice \<times> bool" where
  "group_Get key m = (map_slice (grp_Map m) key, gomap_get (grp_Map m) key \<noteq> None)"

text \<open>The loop of \<open>RemoveClient\<close> stops at the first pointer that is equal.\<close>

fun index_of :: "ptr \<Rightarrow> ptr list \<Rightarrow> nat option" where
  "index_of c [] = None"
| "index_of c (x # xs) = (if x = c then Some 0 else map_option Suc (index_of c xs))"

definition group_RemoveClient :: "string \<Rightarrow> ptr \<Rightarrow> group_map \<Rightarrow> group_map" where
  "group_RemoveClient key clientToRemove m =
     (case gomap_get (grp_Map m) key of
        None \<Rightarrow> m
      | Some clients \<Rightarrow>
          let m = (case index_of clientToRemove (slice_elems (grp_heap m) clients) of
                     None \<Rightarrow> m
                   | Some i \<Rightarrow>
                       let (h, s) = slice_delete (grp_heap m) clients i
                       in \<lparr>grp_Map = gomap_set key s (grp_Map m), grp_heap = h\<rparr>)
          in if sl_len (map_slice (grp_Map m) key) = 0
             then m\<lparr>grp_Map := gomap_del key (grp_Map m)\<rparr> else m)"

subsection \<open>Clients of the persistence endpoint\<close>

record persist_client =
  pc_Conn :: nat
  pc_Sub :: string

definition NewPersistAuditDataManagerMap :: "ptr gomap" where
  "NewPersistAuditDataManagerMap = gomap_empty"

definition persist_Add :: "string \<Rightarrow> ptr \<Rightarrow> ptr gomap \<Rightarrow> ptr gomap" where
  "persist_Add key client m = gomap_set key client m"

definition persist_Remove :: "string \<Rightarrow> ptr gomap \<Rightarrow> ptr gomap" where
  "persist_Remove key m = gomap_del key m"

definition persist_Get :: "string \<Rightarrow> ptr gomap \<Rightarrow> ptr option" where
  "persist_Get key m = gomap_get m key"

text \<open>\<open>clients\<close> is the memory that the client pointers refer to.\<close>

definition persist_RemoveClient :: "(ptr \<Rightarrow> persist_client) \<Rightarrow> ptr \<Rightarrow> ptr gomap \<Rightarrow> ptr gomap" where
  "persist_RemoveClient clients client m = gomap_del (pc_Sub (clients client)) m"

subsection \<open>Facts about slices\<close>

definition slice_wf :: "slice_heap \<Rightarrow> slice \<Rightarrow> bool" where
  "slice_wf h s \<longleftrightarrow> sl_len s \<le> length (arrays h (sl_arr s)) \<and> sl_arr s < next_arr h"

lemma slice_append_same:
  assumes "slice_wf h s" "slice_append grow h s x = (h', s')"
  shows "slice_elems h' s' = slice_elems h s @ [x]" "slice_wf h' s'" "0 < sl_len s'"
    "next_arr h \<le> next_arr h'" "sl_arr s' = sl_arr s \<or> sl_arr s' = next_arr h"
  using assms
  by (auto simp: slice_append_def slice_elems_def slice_wf_def Let_def take_Suc_conv_app_nth
      split: if_splits)

lemma slice_append_other:
  assumes "slice_append grow h s x = (h', s')" "sl_arr t \<noteq> sl_arr s" "slice_wf h t"
  shows "slice_elems h' t = slice_elems h t" "slice_wf h' t"
  using assms by (auto simp: slice_append_def slice_elems_def slice_wf_def Let_def split: if_splits)

lemma slice_delete_array:
  assumes "slice_wf h s" "i < sl_len s"
  shows "length (take i (arrays h (sl_arr s)) @ drop (i + 1) (take (sl_len s) (arrays h (sl_arr s))) @
      drop (sl_len s - 1) (arrays h (sl_arr s))) = length (arrays h (sl_arr s))"
  using assms by (simp add: slice_wf_def)

lemma slice_delete_same:
  assumes "slice_wf h s" "i < sl_len s" "slice_delete h s i = (h', s')"
  shows "slice_elems h' s' = take i (slice_elems h s) @ drop (i + 1) (slice_elems h s)"
    "slice_wf h' s'" "sl_arr s' = sl_arr s" "sl_len s' = sl_len s - 1" "next_arr h' = next_arr h"
  using assms slice_delete_array[OF assms(1,2)]
  by (auto simp: slice_delete_def slice_elems_def slice_wf_def Let_def)

lemma slice_delete_other:
  assumes "slice_delete h s i = (h', s')" "sl_arr t \<noteq> sl_arr s" "slice_wf h t"
  shows "slice_elems h' t = slice_elems h t" "slice_wf h' t"
  using assms by (auto simp: slice_delete_def slice_elems_def slice_wf_def Let_def)

text \<open>
  What a reader of the old slice sees after a deletion: the shifted elements, and the last one a
  second time.
\<close>

lemma slice_delete_snapshot:
  assumes "slice_wf h s" "i < sl_len s" "slice_delete h s i = (h', s')"
  shows "slice_elems h' s =
    take i (slice_elems h s) @ drop (i + 1) (slice_elems h s) @ [last (slice_elems h s)]"
proof -
  let ?arr = "arrays h (sl_arr s)"
  have n: "0 < sl_len s" "sl_len s \<le> length ?arr" using assms(1,2) by (auto simp: slice_wf_def)
  then have "take (sl_len s) ?arr \<noteq> []" by auto
  then have "last (take (sl_len s) ?arr) = ?arr ! (sl_len s - 1)" "Suc (sl_len s - 1) = sl_len s"
    using n by (simp_all add: last_conv_nth)
  then have "drop (sl_len s - 1) ?arr = last (take (sl_len s) ?arr) # drop (sl_len s) ?arr"
    using Cons_nth_drop_Suc[of "sl_len s - 1" ?arr] n by simp
  then show ?thesis using assms n
    by (auto simp: slice_delete_def slice_elems_def slice_wf_def Let_def)
qed

lemma index_of_None: "index_of c xs = None \<longleftrightarrow> c \<notin> set xs"
  by (induction xs) auto

lemma index_of_Some:
  "index_of c xs = Some i \<Longrightarrow> i < length xs \<and> xs ! i = c \<and> take i xs @ drop (i + 1) xs = remove1 c xs"
  by (induction xs arbitrary: i) (auto split: if_splits)

subsection \<open>The interface of a registry\<close>

locale registry =
  fixes ok :: "'s \<Rightarrow> bool"
    and members :: "'s \<Rightarrow> string \<Rightarrow> ptr list"
    and new :: 's
    and add :: "string \<Rightarrow> ptr \<Rightarrow> 's \<Rightarrow> 's"
    and drop_group :: "string \<Rightarrow> 's \<Rightarrow> 's"
    and drop_client :: "string \<Rightarrow> ptr \<Rightarrow> 's \<Rightarrow> 's"
  assumes ok_new: "ok new"
    and ok_add: "ok s \<Longrightarrow> ok (add k c s)"
    and ok_drop_group: "ok s \<Longrightarrow> ok (drop_group k s)"
    and ok_drop_client: "ok s \<Longrightarrow> ok (drop_client k c s)"
    and members_new: "members new = (\<lambda>_. [])"
    and members_add: "ok s \<Longrightarrow> members (add k c s) = (members s)(k := members s k @ [c])"
    and members_drop_group: "ok s \<Longrightarrow> members (drop_group k s) = (members s)(k := [])"
    and members_drop_client:
      "ok s \<Longrightarrow> members (drop_client k c s) = (members s)(k := remove1 c (members s k))"

text \<open>The events of the handlers' sessions, and their effect on abstract groups.\<close>

datatype registry_event = Joins string ptr | Leaves string ptr | Closes string

fun group_spec :: "registry_event \<Rightarrow> (string \<Rightarrow> ptr list) \<Rightarrow> string \<Rightarrow> ptr list" where
  "group_spec (Joins k c) g = g(k := g k @ [c])"
| "group_spec (Leaves k c) g = g(k := remove1 c (g k))"
| "group_spec (Closes k) g = g(k := [])"

text \<open>Every session registers a pointer of its own.\<close>

fun joined :: "registry_event list \<Rightarrow> ptr list" where
  "joined [] = []"
| "joined (Joins k c # es) = c # joined es"
| "joined (e # es) = joined es"

lemma joined_append [simp]: "joined (es @ es') = joined es @ joined es'"
  by (induction es rule: joined.induct) auto

text \<open>A client is in a group after its join until it leaves or the group is closed.\<close>

definition connected :: "registry_event list \<Rightarrow> string \<Rightarrow> ptr \<Rightarrow> bool" where
  "connected es k c \<longleftrightarrow> (\<exists>before after. es = before @ Joins k c # after \<and>
     Leaves k c \<notin> set after \<and> Closes k \<notin> set after)"

lemma connected_snoc:
  "connected (es @ [e]) k c \<longleftrightarrow>
     e = Joins k c \<or> connected es k c \<and> e \<noteq> Leaves k c \<and> e \<noteq> Closes k"
proof
  assume "connected (es @ [e]) k c"
  then obtain b a where ba: "es @ [e] = b @ Joins k c # a" "Leaves k c \<notin> set a" "Closes k \<notin> set a"
    by (auto simp: connected_def)
  show "e = Joins k c \<or> connected es k c \<and> e \<noteq> Leaves k c \<and> e \<noteq> Closes k"
  proof (cases a rule: rev_cases)
    case (snoc a' x)
    then have "es = b @ Joins k c # a'" "e = x" using ba(1) by auto
    then show ?thesis using ba(2,3) snoc by (auto simp: connected_def)
  qed (use ba in auto)
next
  assume "e = Joins k c \<or> connected es k c \<and> e \<noteq> Leaves k c \<and> e \<noteq> Closes k"
  then show "connected (es @ [e]) k c"
  proof
    assume "connected es k c \<and> e \<noteq> Leaves k c \<and> e \<noteq> Closes k"
    then obtain b a where "es = b @ Joins k c # a" "Leaves k c \<notin> set a" "Closes k \<notin> set a"
        "e \<noteq> Leaves k c" "e \<noteq> Closes k" by (auto simp: connected_def)
    then have "es @ [e] = b @ Joins k c # (a @ [e])" "Leaves k c \<notin> set (a @ [e])"
      "Closes k \<notin> set (a @ [e])" by auto
    then show ?thesis unfolding connected_def by blast
  next
    assume "e = Joins k c"
    then show ?thesis unfolding connected_def by (intro exI[of _ es] exI[of _ "[]"]) simp
  qed
qed

lemma connected_joined: "connected es k c \<Longrightarrow> c \<in> set (joined es)"
  by (auto simp: connected_def)

lemma group_spec_connected:
  assumes "distinct (joined es)"
  shows "distinct (fold group_spec es (\<lambda>_. []) k) \<and>
    set (fold group_spec es (\<lambda>_. []) k) = {c. connected es k c}"
  using assms
proof (induction es arbitrary: k rule: rev_induct)
  case Nil
  then show ?case by (simp add: connected_def)
next
  case (snoc e es)
  have IH: "distinct (fold group_spec es (\<lambda>_. []) k)"
      "set (fold group_spec es (\<lambda>_. []) k) = {c. connected es k c}" for k
    using snoc by simp_all
  show ?case
  proof (cases e)
    case (Joins k' c)
    then have "\<not> connected es k'' c" for k'' using snoc.prems connected_joined[of es k'' c] by auto
    then show ?thesis using IH Joins by (auto simp: connected_snoc)
  next
    case (Leaves k' c)
    then show ?thesis using IH by (auto simp: connected_snoc distinct_remove1)
  next
    case (Closes k')
    then show ?thesis using IH by (auto simp: connected_snoc)
  qed
qed

context registry
begin

fun run_event :: "registry_event \<Rightarrow> 's \<Rightarrow> 's" where
  "run_event (Joins k c) s = add k c s"
| "run_event (Leaves k c) s = drop_client k c s"
| "run_event (Closes k) s = drop_group k s"

lemma ok_run: "ok s \<Longrightarrow> ok (fold run_event es s)"
proof (induction es arbitrary: s)
  case (Cons e es)
  have "ok (run_event e s)" using Cons.prems by (cases e) (auto simp: ok_add ok_drop_group ok_drop_client)
  then show ?case using Cons.IH by simp
qed simp

lemma members_run: "ok s \<Longrightarrow> members (fold run_event es s) = fold group_spec es (members s)"
proof (induction es arbitrary: s)
  case (Cons e es)
  have "ok (run_event e s)" using ok_run[OF Cons.prems, of "[e]"] by simp
  moreover have "members (run_event e s) = group_spec e (members s)"
    using Cons.prems by (cases e) (auto simp: members_add members_drop_group members_drop_client)
  ultimately show ?case using Cons.IH by simp
qed simp

lemma members_connected:
  assumes "distinct (joined es)"
  shows "distinct (members (fold run_event es new) k)"
    "set (members (fold run_event es new) k) = {c. connected es k c}"
  using group_spec_connected[OF assms, of k] by (simp_all add: members_run[OF ok_new] members_new)

end

subsection \<open>The slices of the code are a registry\<close>

definition group_ok :: "group_map \<Rightarrow> bool" where
  "group_ok m \<longleftrightarrow> arrays (grp_heap m) 0 = [] \<and> 0 < next_arr (grp_heap m) \<and>
     (\<forall>k s. gomap_get (grp_Map m) k = Some s \<longrightarrow> slice_wf (grp_heap m) s \<and> 0 < sl_len s) \<and>
     (\<forall>k k' s s'. gomap_get (grp_Map m) k = Some s \<longrightarrow> gomap_get (grp_Map m) k' = Some s' \<longrightarrow>
        sl_arr s = sl_arr s' \<longrightarrow> k = k')"

definition group_members :: "group_map \<Rightarrow> string \<Rightarrow> ptr list" where
  "group_members m k = slice_elems (grp_heap m) (map_slice (grp_Map m) k)"

lemma group_okD:
  assumes "group_ok m"
  shows "arrays (grp_heap m) 0 = []" "0 < next_arr (grp_heap m)"
    "gomap_get (grp_Map m) k = Some s \<Longrightarrow> slice_wf (grp_heap m) s"
    "gomap_get (grp_Map m) k = Some s \<Longrightarrow> 0 < sl_len s"
    "gomap_get (grp_Map m) k = Some s \<Longrightarrow> gomap_get (grp_Map m) k' = Some s' \<Longrightarrow>
      sl_arr s = sl_arr s' \<Longrightarrow> k = k'"
  using assms by (auto simp: group_ok_def)

lemma group_ok_arr: "group_ok m \<Longrightarrow> gomap_get (grp_Map m) k = Some s \<Longrightarrow> 0 < sl_arr s"
  using group_okD(1)[of m] group_okD(3,4)[of m k s]
  by (cases "sl_arr s") (auto simp: slice_wf_def)

lemma nil_wf: "group_ok m \<Longrightarrow> slice_wf (grp_heap m) (map_slice (grp_Map m) k)"
  using group_okD(2,3) by (auto simp: map_slice_def sl_nil_def slice_wf_def split: option.splits)

lemma members_None: "gomap_get (grp_Map m) k = None \<Longrightarrow> group_members m k = []"
  by (simp add: group_members_def map_slice_def sl_nil_def slice_elems_def)

lemma members_Some: "gomap_get (grp_Map m) k = Some s \<Longrightarrow> group_members m k = slice_elems (grp_heap m) s"
  by (simp add: group_members_def map_slice_def)

lemma group_add_spec:
  assumes ok: "group_ok m"
  shows "group_ok (group_Add grow k c m)"
    "group_members (group_Add grow k c m) = (group_members m)(k := group_members m k @ [c])"
proof -
  let ?s = "map_slice (grp_Map m) k"
  obtain h' s' where app: "slice_append grow (grp_heap m) ?s c = (h', s')" by (cases "slice_append grow (grp_heap m) ?s c")
  note same = slice_append_same[OF nil_wf[OF ok] app]
  note other = slice_append_other[OF app]
  have add: "group_Add grow k c m = \<lparr>grp_Map = gomap_set k s' (grp_Map m), grp_heap = h'\<rparr>"
    by (simp add: group_Add_def app)
  have differ: "sl_arr t \<noteq> sl_arr ?s" "sl_arr t \<noteq> sl_arr s'"
    if "gomap_get (grp_Map m) k' = Some t" "k' \<noteq> k" for k' t
  proof -
    have t: "slice_wf (grp_heap m) t" "0 < sl_arr t"
      using group_okD(3)[OF ok that(1)] group_ok_arr[OF ok that(1)] by auto
    show s: "sl_arr t \<noteq> sl_arr ?s"
      using t(2) group_okD(5)[OF ok that(1)] that(2)
      by (auto simp: map_slice_def sl_nil_def split: option.splits)
    then show "sl_arr t \<noteq> sl_arr s'" using same(5) t(1) by (auto simp: slice_wf_def)
  qed
  have zero: "arrays h' 0 = []" "0 < next_arr h'"
  proof -
    have "sl_arr ?s = 0 \<Longrightarrow> sl_len ?s = 0"
      using group_ok_arr[OF ok, of k] by (auto simp: map_slice_def sl_nil_def split: option.splits)
    then show "arrays h' 0 = []"
      using app group_okD(1,2)[OF ok] by (auto simp: slice_append_def Let_def split: if_splits)
    show "0 < next_arr h'" using same(4) group_okD(2)[OF ok] by simp
  qed
  show "group_ok (group_Add grow k c m)"
    unfolding add group_ok_def using same(2,3) zero differ group_okD(3-5)[OF ok] other
    by (fastforce split: if_splits)
  show "group_members (group_Add grow k c m) = (group_members m)(k := group_members m k @ [c])"
  proof
    fix k'
    show "group_members (group_Add grow k c m) k' = ((group_members m)(k := group_members m k @ [c])) k'"
    proof (cases "gomap_get (grp_Map m) k'")
      case None
      then show ?thesis using same(1) unfolding add
        by (auto simp: group_members_def map_slice_def sl_nil_def slice_elems_def)
    next
      case (Some t)
      then show ?thesis using same(1) differ(1)[OF Some] other group_okD(3)[OF ok Some] unfolding add
        by (auto simp: group_members_def map_slice_def)
    qed
  qed
qed

lemma group_remove_spec:
  assumes ok: "group_ok m"
  shows "group_ok (group_Remove k m)" "group_members (group_Remove k m) = (group_members m)(k := [])"
proof -
  show "group_ok (group_Remove k m)"
    using ok by (auto simp: group_ok_def group_Remove_def)
  show "group_members (group_Remove k m) = (group_members m)(k := [])"
    by (auto simp: group_members_def group_Remove_def map_slice_def sl_nil_def slice_elems_def)
qed

text \<open>Removing a client: the three cases of the code.\<close>

lemma removeClient_cases:
  obtains (unknown) "gomap_get (grp_Map m) k = None" "group_RemoveClient k c m = m"
  | (absent) s where "gomap_get (grp_Map m) k = Some s" "c \<notin> set (slice_elems (grp_heap m) s)"
      "group_RemoveClient k c m =
        (if sl_len s = 0 then m\<lparr>grp_Map := gomap_del k (grp_Map m)\<rparr> else m)"
  | (present) s i h' s' where "gomap_get (grp_Map m) k = Some s"
      "index_of c (slice_elems (grp_heap m) s) = Some i" "slice_delete (grp_heap m) s i = (h', s')"
      "group_RemoveClient k c m =
        (if sl_len s' = 0 then \<lparr>grp_Map = gomap_del k (gomap_set k s' (grp_Map m)), grp_heap = h'\<rparr>
         else \<lparr>grp_Map = gomap_set k s' (grp_Map m), grp_heap = h'\<rparr>)"
proof (cases "gomap_get (grp_Map m) k")
  case None
  then show ?thesis by (intro unknown) (simp_all add: group_RemoveClient_def)
next
  case (Some s)
  show ?thesis
  proof (cases "index_of c (slice_elems (grp_heap m) s)")
    case None
    then have "c \<notin> set (slice_elems (grp_heap m) s)" by (simp add: index_of_None)
    then show ?thesis
      by (rule absent[OF Some]) (simp add: group_RemoveClient_def Some None map_slice_def)
  next
    case (Some i)
    obtain h' s' where "slice_delete (grp_heap m) s i = (h', s')"
      by (cases "slice_delete (grp_heap m) s i")
    then show ?thesis using Some \<open>gomap_get (grp_Map m) k = Some s\<close>
      by (intro present) (auto simp: group_RemoveClient_def map_slice_def Let_def)
  qed
qed

lemma group_drop_spec:
  assumes ok: "group_ok m"
  shows "group_ok (group_RemoveClient k c m) \<and>
    group_members (group_RemoveClient k c m) = (group_members m)(k := remove1 c (group_members m k))"
proof (rule removeClient_cases[of m k c])
  assume "gomap_get (grp_Map m) k = None" "group_RemoveClient k c m = m"
  then show ?thesis using ok members_None[of m k] by (auto simp: fun_eq_iff)
next
  fix s assume "gomap_get (grp_Map m) k = Some s" "c \<notin> set (slice_elems (grp_heap m) s)"
    "group_RemoveClient k c m = (if sl_len s = 0 then m\<lparr>grp_Map := gomap_del k (grp_Map m)\<rparr> else m)"
  then show ?thesis using ok group_okD(4)[OF ok, of k s]
    by (auto simp: fun_eq_iff members_Some remove1_idem)
next
  fix s i h' s'
  assume s: "gomap_get (grp_Map m) k = Some s" and i: "index_of c (slice_elems (grp_heap m) s) = Some i"
    and del: "slice_delete (grp_heap m) s i = (h', s')"
    and rem: "group_RemoveClient k c m =
      (if sl_len s' = 0 then \<lparr>grp_Map = gomap_del k (gomap_set k s' (grp_Map m)), grp_heap = h'\<rparr>
       else \<lparr>grp_Map = gomap_set k s' (grp_Map m), grp_heap = h'\<rparr>)"
  have wf: "slice_wf (grp_heap m) s" by (rule group_okD(3)[OF ok s])
  have elems: "i < length (slice_elems (grp_heap m) s)"
      "take i (slice_elems (grp_heap m) s) @ drop (i + 1) (slice_elems (grp_heap m) s) =
        remove1 c (slice_elems (grp_heap m) s)"
    using index_of_Some[OF i] by auto
  then have "i < sl_len s" by (simp add: slice_elems_def)
  note same = slice_delete_same[OF wf this del]
  note other = slice_delete_other[OF del]
  have differ: "sl_arr t \<noteq> sl_arr s" if "gomap_get (grp_Map m) k' = Some t" "k' \<noteq> k" for k' t
    using group_okD(5)[OF ok that(1) s] that(2) by auto
  have zero: "arrays h' 0 = []" "0 < next_arr h'"
    using del group_okD(1,2)[OF ok] group_ok_arr[OF ok s]
    by (auto simp: slice_delete_def Let_def)
  have ok': "group_ok (group_RemoveClient k c m)"
    unfolding rem group_ok_def using same(2,3) zero differ group_okD(3-5)[OF ok] other s
    by (fastforce split: if_splits)
  have "group_members (group_RemoveClient k c m) k' =
      ((group_members m)(k := remove1 c (group_members m k))) k'" for k'
  proof (cases "k' = k")
    case True
    have "slice_elems h' s' = remove1 c (group_members m k)"
      using same(1) elems(2) members_Some[OF s] by simp
    then show ?thesis unfolding rem using True
      by (auto simp: group_members_def map_slice_def sl_nil_def slice_elems_def)
  next
    case False
    then show ?thesis unfolding rem
      using differ other group_okD(3)[OF ok]
      by (auto simp: group_members_def map_slice_def sl_nil_def slice_elems_def[of _ "\<lparr>sl_arr = 0, sl_len = 0\<rparr>"]
          split: option.splits)
  qed
  then show ?thesis using ok' by (auto simp: fun_eq_iff)
qed

lemma group_ok_new: "group_ok NewGroupCodeDataClientManagerMap"
  by (simp add: group_ok_def NewGroupCodeDataClientManagerMap_def heap_empty_def)

interpretation group_reg: registry group_ok group_members NewGroupCodeDataClientManagerMap
  "group_Add grow" group_Remove group_RemoveClient for grow
proof unfold_locales
  show "group_members NewGroupCodeDataClientManagerMap = (\<lambda>_. [])"
    by (intro ext members_None) (simp add: NewGroupCodeDataClientManagerMap_def)
qed (use group_ok_new group_add_spec group_remove_spec group_drop_spec in auto)

text \<open>
  A slice that \<open>Get\<close> returned reads the shared array at the time of each access. After another
  goroutine's \<open>RemoveClient\<close> it shows the shifted elements and the last one twice.
\<close>

lemma snapshot_after_remove:
  assumes ok: "group_ok m" and get: "group_Get k m = (s, True)" and c: "c \<in> set (group_members m k)"
  shows "slice_elems (grp_heap (group_RemoveClient k c m)) s =
    remove1 c (group_members m k) @ [last (group_members m k)]"
proof -
  have s: "gomap_get (grp_Map m) k = Some s" using get by (auto simp: group_Get_def map_slice_def)
  show ?thesis
  proof (rule removeClient_cases[of m k c])
    fix t i h' s'
    assume t: "gomap_get (grp_Map m) k = Some t" and i: "index_of c (slice_elems (grp_heap m) t) = Some i"
      and del: "slice_delete (grp_heap m) t i = (h', s')"
      and rem: "group_RemoveClient k c m =
        (if sl_len s' = 0 then \<lparr>grp_Map = gomap_del k (gomap_set k s' (grp_Map m)), grp_heap = h'\<rparr>
         else \<lparr>grp_Map = gomap_set k s' (grp_Map m), grp_heap = h'\<rparr>)"
    have "t = s" using s t by simp
    have "i < sl_len s" using index_of_Some[OF i] \<open>t = s\<close> by (simp add: slice_elems_def)
    then have "slice_elems h' s = take i (slice_elems (grp_heap m) s) @
        drop (i + 1) (slice_elems (grp_heap m) s) @ [last (slice_elems (grp_heap m) s)]"
      using slice_delete_snapshot[OF group_okD(3)[OF ok s]] del \<open>t = s\<close> by simp
    then show ?thesis using index_of_Some[OF i] members_Some[OF s] \<open>t = s\<close> unfolding rem by auto
  qed (use s c members_Some[OF s] in auto)
qed

subsection \<open>Properties\<close>

text \<open>The sessions' events as calls of the code.\<close>

fun group_event :: "(nat \<Rightarrow> nat) \<Rightarrow> registry_event \<Rightarrow> group_map \<Rightarrow> group_map" where
  "group_event grow (Joins k c) m = group_Add grow k c m"
| "group_event grow (Leaves k c) m = group_RemoveClient k c m"
| "group_event grow (Closes k) m = group_Remove k m"

lemma group_event_run: "group_event grow = group_reg.run_event grow"
proof (intro ext)
  show "group_event grow e m = group_reg.run_event grow e m" for e m by (cases e) simp_all
qed

lemma group_members_events:
  "group_members (fold (group_event grow) es NewGroupCodeDataClientManagerMap) =
   fold group_spec es (\<lambda>_. [])"
  unfolding group_event_run
  using group_reg.members_run[OF group_reg.ok_new] by (simp only: group_reg.members_new)

text \<open>C19: The slices in the map refine lists: after any sequence of joins, departures and group
  removals, the clients of each group are those of the abstract lists, whatever spare capacity the
  runtime gives and although the slices are shifted and extended in place.\<close>

theorem group_map_refines:
  "group_members (fold (group_event grow) es NewGroupCodeDataClientManagerMap) =
   fold group_spec es (\<lambda>_. [])"
  by (rule group_members_events)

text \<open>A group holds exactly the clients that joined and have not left since, each once, provided
  every session registers a pointer of its own.\<close>

lemma group_map_connected:
  assumes "distinct (joined es)"
  shows "distinct (group_members (fold (group_event grow) es NewGroupCodeDataClientManagerMap) k) \<and>
    (c \<in> set (group_members (fold (group_event grow) es NewGroupCodeDataClientManagerMap) k) \<longleftrightarrow>
      (\<exists>before after. es = before @ Joins k c # after \<and> Leaves k c \<notin> set after \<and> Closes k \<notin> set after))"
  unfolding group_event_run using group_reg.members_connected[OF assms, of grow k]
  by (simp add: connected_def)

lemma group_map_connected_witness:
  "1 \<notin> set (group_members (fold (group_event (\<lambda>n. n)) [Joins ''g'' 1, Joins ''g'' 2, Leaves ''g'' 1]
     NewGroupCodeDataClientManagerMap) ''g'')"
proof -
  let ?es = "[Joins ''g'' 1, Joins ''g'' 2, Leaves ''g'' 1]"
  have "\<not> (\<exists>before after. ?es = before @ Joins ''g'' 1 # after \<and> Leaves ''g'' 1 \<notin> set after \<and>
      Closes ''g'' \<notin> set after)"
    by (auto simp: Cons_eq_append_conv)
  then show ?thesis using group_map_connected[of ?es "\<lambda>n. n" "''g''" 1] by simp
qed

text \<open>A slice obtained from \<open>Get\<close> is not a snapshot: after another goroutine removes a client of
  the group, the slice lacks that client and shows the last client twice. So a broadcast that is
  under way can skip a connected client and write to another one twice.\<close>

lemma group_Get_not_a_snapshot:
  assumes "m = fold (group_event grow) es NewGroupCodeDataClientManagerMap"
    and "group_Get k m = (s, True)" "c \<in> set (group_members m k)"
  shows "slice_elems (grp_heap m) s = group_members m k \<and>
    slice_elems (grp_heap (group_RemoveClient k c m)) s =
      remove1 c (group_members m k) @ [last (group_members m k)]"
proof -
  have "group_ok m" unfolding assms(1) group_event_run by (rule group_reg.ok_run[OF group_reg.ok_new])
  moreover have "gomap_get (grp_Map m) k = Some s" using assms(2) by (auto simp: group_Get_def map_slice_def)
  ultimately show ?thesis
    using snapshot_after_remove[OF _ assms(2,3)] members_Some[of m k s] by simp
qed

lemma group_Get_not_a_snapshot_witness:
  "\<exists>s. group_Get ''g'' (fold (group_event (\<lambda>n. n)) [Joins ''g'' 1, Joins ''g'' 2, Joins ''g'' 3]
      NewGroupCodeDataClientManagerMap) = (s, True) \<and>
    slice_elems (grp_heap (group_RemoveClient ''g'' 1 (fold (group_event (\<lambda>n. n))
      [Joins ''g'' 1, Joins ''g'' 2, Joins ''g'' 3] NewGroupCodeDataClientManagerMap))) s = [2, 3, 3]"
proof -
  let ?m = "fold (group_event (\<lambda>n. n)) [Joins ''g'' 1, Joins ''g'' 2, Joins ''g'' 3]
      NewGroupCodeDataClientManagerMap"
  have mem: "group_members ?m ''g'' = [1, 2, 3]"
    unfolding group_members_events by simp
  then obtain s where "group_Get ''g'' ?m = (s, True)"
    using members_None[of ?m "''g''"] by (cases "gomap_get (grp_Map ?m) ''g''") (auto simp: group_Get_def map_slice_def)
  then show ?thesis
    using group_Get_not_a_snapshot[of ?m "\<lambda>n. n" _ "''g''" s 1, OF refl] unfolding mem by simp
qed

text \<open>The registry of the persistence endpoint forgets a user who is still connected: when a user
  has connected twice, closing the first connection removes the entry of the second, since
  \<open>RemoveClient\<close> deletes by user and not by connection.\<close>

lemma persist_RemoveClient_drops_successor:
  assumes "pc_Sub (clients c1) = sub" "pc_Sub (clients c2) = sub"
  shows "persist_Get sub (persist_Add sub c2 (persist_Add sub c1 m)) = Some c2 \<and>
    persist_Get sub (persist_RemoveClient clients c1 (persist_Add sub c2 (persist_Add sub c1 m))) = None"
  using assms by (simp add: persist_Get_def persist_Add_def persist_RemoveClient_def)

lemma persist_RemoveClient_drops_successor_witness:
  "persist_Get ''u'' (persist_RemoveClient (\<lambda>c. \<lparr>pc_Conn = c, pc_Sub = ''u''\<rparr>) 1
     (persist_Add ''u'' 2 (persist_Add ''u'' 1 NewPersistAuditDataManagerMap))) = None"
  using persist_RemoveClient_drops_successor[of "\<lambda>c. \<lparr>pc_Conn = c, pc_Sub = ''u''\<rparr>" 1 "''u''" 2
      NewPersistAuditDataManagerMap] by simp

end
