(* ===== verification/Env.thy ===== *)
theory Env
  imports Prelude
begin

section \<open>Environment variables and start-up failures: package utils\<close>

text \<open>
  Start-up code may end the process: \<open>panic\<close> unwinds it, \<open>log.Fatal\<close> and \<open>os.Exit\<close> stop it at
  once; a loop may also never end. \<open>outcome\<close> has these as values. \<open>GetDotEnvVariable\<close> is the one access to the environment;
  the results of \<open>godotenv.Load\<close> and \<open>os.Getenv\<close> are the record \<open>env\<close>.
\<close>

subsection \<open>Outcomes\<close>

datatype 'a outcome = Done 'a | Panic string | Exit | Diverges

fun and_then :: "'a outcome \<Rightarrow> ('a \<Rightarrow> 'b outcome) \<Rightarrow> 'b outcome" where
  "and_then (Done x) f = f x"
| "and_then (Panic msg) f = Panic msg"
| "and_then Exit f = Exit"
| "and_then Diverges f = Diverges"

lemma and_then_Done_iff: "and_then m f = Done y \<longleftrightarrow> (\<exists>x. m = Done x \<and> f x = Done y)"
  by (cases m) auto

lemma and_then_assoc: "and_then (and_then m f) g = and_then m (\<lambda>x. and_then (f x) g)"
  by (cases m) auto

subsection \<open>Constants\<close>

definition ENV :: string where "ENV = ''ENV''"
definition SERVER :: string where "SERVER = ''SERVER''"
definition SERVER_PORT :: string where "SERVER_PORT = ''SERVER_PORT''"
definition SERVER_HOST :: string where "SERVER_HOST = ''SERVER_HOST''"
definition SERVER_SERVICE_PORT :: string where "SERVER_SERVICE_PORT = ''SERVER_SERVICE_PORT''"
definition SERVER_ENGINE_PORT :: string where "SERVER_ENGINE_PORT = ''SERVER_ENGINE_PORT''"
definition SERVICE :: string where "SERVICE = ''service''"
definition ENGINE :: string where "ENGINE = ''engine''"
definition REDIS_HOST :: string where "REDIS_HOST = ''REDIS_HOST''"
definition REDIS_PORT :: string where "REDIS_PORT = ''REDIS_PORT''"
definition REDIS_PASSWORD :: string where "REDIS_PASSWORD = ''REDIS_PASSWORD''"
definition MONGO_HOST :: string where "MONGO_HOST = ''MONGO_HOST''"
definition MONGO_INITDB_ROOT_USERNAME :: string where "MONGO_INITDB_ROOT_USERNAME = ''MONGO_INITDB_ROOT_USERNAME''"
definition MONGO_INITDB_ROOT_PASSWORD :: string where "MONGO_INITDB_ROOT_PASSWORD = ''MONGO_INITDB_ROOT_PASSWORD''"
definition ME_CONFIG_MONGODB_PORT :: string where "ME_CONFIG_MONGODB_PORT = ''ME_CONFIG_MONGODB_PORT''"
definition RABBITMQ_HOST :: string where "RABBITMQ_HOST = ''RABBITMQ_HOST''"
definition AUTH0_AUDIENCE :: string where "AUTH0_AUDIENCE = ''AUTH0_AUDIENCE''"
definition AUTH0_AUTHORITY :: string where "AUTH0_AUTHORITY = ''AUTH0_AUTHORITY''"
definition MGMT_AUTH0_CLIENT_ID :: string where "MGMT_AUTH0_CLIENT_ID = ''MGMT_AUTH0_CLIENT_ID''"
definition MGMT_AUTH0_CLIENT_SECRET :: string where "MGMT_AUTH0_CLIENT_SECRET = ''MGMT_AUTH0_CLIENT_SECRET''"
definition MGMT_AUTH0_AUDIENCE :: string where "MGMT_AUTH0_AUDIENCE = ''MGMT_AUTH0_AUDIENCE''"

lemmas env_keys = ENV_def SERVER_def SERVER_PORT_def SERVER_HOST_def SERVER_SERVICE_PORT_def
  SERVER_ENGINE_PORT_def SERVICE_def ENGINE_def REDIS_HOST_def REDIS_PORT_def REDIS_PASSWORD_def
  MONGO_HOST_def MONGO_INITDB_ROOT_USERNAME_def MONGO_INITDB_ROOT_PASSWORD_def
  ME_CONFIG_MONGODB_PORT_def RABBITMQ_HOST_def AUTH0_AUDIENCE_def AUTH0_AUTHORITY_def
  MGMT_AUTH0_CLIENT_ID_def MGMT_AUTH0_CLIENT_SECRET_def MGMT_AUTH0_AUDIENCE_def

subsection \<open>utils/dotenv.go\<close>

record env =
  env_Load :: "string option"
  env_Getenv :: "string \<Rightarrow> string"

text \<open>A value that is not valid ends the process in \<open>log.Fatalf\<close>; the return behind it is not reached.\<close>

definition validateEnvVariable :: "string \<Rightarrow> bool outcome" where
  "validateEnvVariable value =
     (if value = ''debug'' \<or> value = ''release'' \<or> value = ''test'' then Done True else Exit)"

definition GetDotEnvVariable :: "env \<Rightarrow> string \<Rightarrow> string outcome" where
  "GetDotEnvVariable e key =
     (case env_Load e of
        Some err \<Rightarrow> Panic (''Error loading .env file: '' @ err)
      | None \<Rightarrow>
          let value = env_Getenv e key in
          and_then (if key = ENV then validateEnvVariable value else Done True) (\<lambda>_.
            if key = SERVER_PORT then
              (let val = env_Getenv e SERVER in
               if val \<noteq> SERVICE \<and> val \<noteq> ENGINE then Exit
               else if val = SERVICE then Done (env_Getenv e SERVER_SERVICE_PORT)
               else Done (env_Getenv e SERVER_ENGINE_PORT))
            else Done value))"

subsection \<open>utils/log.go\<close>

datatype logger = ProductionLogger | DevelopmentLogger

text \<open>\<open>zap.Must\<close> panics if the logger cannot be built; \<open>build\<close> is zap's result for each kind.\<close>

definition zap_Must :: "(logger \<Rightarrow> string option) \<Rightarrow> logger \<Rightarrow> logger outcome" where
  "zap_Must build l = (case build l of None \<Rightarrow> Done l | Some err \<Rightarrow> Panic err)"

definition NewProduction :: "(logger \<Rightarrow> string option) \<Rightarrow> env \<Rightarrow> logger outcome" where
  "NewProduction build e = and_then (GetDotEnvVariable e ENV) (\<lambda>env.
     if env = ''release'' then zap_Must build ProductionLogger
     else if env = ''debug'' then zap_Must build DevelopmentLogger
     else zap_Must build DevelopmentLogger)"

subsection \<open>Facts\<close>

lemma env_key_distinct [simp]:
  "ENV \<noteq> SERVER_PORT" "SERVER_HOST \<noteq> SERVER_PORT" "SERVER_HOST \<noteq> ENV" "SERVER_PORT \<noteq> ENV" "SERVICE \<noteq> ENGINE"
  by (simp_all add: env_keys)

lemma GetDotEnvVariable_Panic: "env_Load e = Some err \<Longrightarrow> \<exists>msg. GetDotEnvVariable e key = Panic msg"
  by (simp add: GetDotEnvVariable_def)

lemma GetDotEnvVariable_plain:
  "env_Load e = None \<Longrightarrow> key \<noteq> ENV \<Longrightarrow> key \<noteq> SERVER_PORT \<Longrightarrow>
    GetDotEnvVariable e key = Done (env_Getenv e key)"
  by (simp add: GetDotEnvVariable_def)

lemma GetDotEnvVariable_ENV:
  "env_Load e = None \<Longrightarrow> GetDotEnvVariable e ENV =
    (if env_Getenv e ENV \<in> {''debug'', ''release'', ''test''} then Done (env_Getenv e ENV) else Exit)"
  by (simp add: GetDotEnvVariable_def validateEnvVariable_def)

lemma GetDotEnvVariable_PORT:
  "env_Load e = None \<Longrightarrow> GetDotEnvVariable e SERVER_PORT =
    (if env_Getenv e SERVER = SERVICE then Done (env_Getenv e SERVER_SERVICE_PORT)
     else if env_Getenv e SERVER = ENGINE then Done (env_Getenv e SERVER_ENGINE_PORT) else Exit)"
  by (simp add: GetDotEnvVariable_def)

end
