(* ===== verification/Config.thy ===== *)
theory Config
  imports Env
begin

section \<open>Configuration: packages serverconfig, mongodbconfig, redisconfig, wsconfig\<close>

text \<open>
  The functional-options constructors: an option is a function on the configuration (one that may
  end the process), and the constructor folds the options over the zero value. \<open>server_Default_correct\<close>
  says when the server's default configuration exists.
\<close>

subsection \<open>Options\<close>

fun apply_options :: "('c \<Rightarrow> 'c outcome) list \<Rightarrow> 'c \<Rightarrow> 'c outcome" where
  "apply_options [] config = Done config"
| "apply_options (option # options) config = and_then (option config) (apply_options options)"

subsection \<open>serverconfig\<close>

text \<open>The configuration of gin's cors package: the fields that the code sets.\<close>

record cors_config =
  AllowAllOrigins :: bool
  AllowOrigins :: "string list"
  AllowMethods :: "string list"
  AllowHeaders :: "string list"
  ExposeHeaders :: "string list"
  AllowCredentials :: bool
  MaxAge :: int

record server_config =
  srv_Port :: string
  srv_GinMode :: string
  srv_Cors :: cors_config

definition zero_server_config :: server_config where
  "zero_server_config = \<lparr>srv_Port = [], srv_GinMode = [],
     srv_Cors = \<lparr>AllowAllOrigins = False, AllowOrigins = [], AllowMethods = [], AllowHeaders = [],
       ExposeHeaders = [], AllowCredentials = False, MaxAge = 0\<rparr>\<rparr>"

definition NewServerConfig :: "(server_config \<Rightarrow> server_config outcome) list \<Rightarrow> server_config outcome" where
  "NewServerConfig options = apply_options options zero_server_config"

definition server_WithPort :: "string \<Rightarrow> server_config \<Rightarrow> server_config outcome" where
  "server_WithPort port c = Done (c\<lparr>srv_Port := port\<rparr>)"

definition WithGinMode :: "string \<Rightarrow> server_config \<Rightarrow> server_config outcome" where
  "WithGinMode ginMode c =
     (if ginMode = ''debug'' then Done (c\<lparr>srv_GinMode := ''debug''\<rparr>)
      else if ginMode = ''release'' then Done (c\<lparr>srv_GinMode := ''release''\<rparr>)
      else if ginMode = ''test'' then Done (c\<lparr>srv_GinMode := ''test''\<rparr>)
      else Exit)"

definition WithCors :: "cors_config \<Rightarrow> server_config \<Rightarrow> server_config outcome" where
  "WithCors config c = Done (c\<lparr>srv_Cors := config\<rparr>)"

definition WithCorsHosts :: "string list \<Rightarrow> server_config \<Rightarrow> server_config outcome" where
  "WithCorsHosts hosts c = Done (c\<lparr>srv_Cors := (srv_Cors c)\<lparr>AllowOrigins := hosts\<rparr>\<rparr>)"

text \<open>\<open>corsDefault\<close> is what \<open>cors.DefaultConfig\<close> returns.\<close>

definition server_Default :: "cors_config \<Rightarrow> env \<Rightarrow> server_config outcome" where
  "server_Default corsDefault e =
     and_then (GetDotEnvVariable e SERVER_PORT) (\<lambda>port.
     and_then (GetDotEnvVariable e ENV) (\<lambda>mode.
     and_then (GetDotEnvVariable e SERVER_HOST) (\<lambda>host.
     and_then (GetDotEnvVariable e SERVER_PORT) (\<lambda>port'.
       NewServerConfig [server_WithPort port, WithGinMode mode, WithCors corsDefault,
         WithCorsHosts [host @ port']]))))"

subsection \<open>mongodbconfig\<close>

record mongo_config =
  mc_UserName :: string
  mc_Password :: string
  mc_Host :: string
  mc_Port :: string

definition mongo_NewConfig :: "(mongo_config \<Rightarrow> mongo_config outcome) list \<Rightarrow> mongo_config outcome" where
  "mongo_NewConfig options =
     apply_options options \<lparr>mc_UserName = [], mc_Password = [], mc_Host = [], mc_Port = []\<rparr>"

definition WithUserName :: "string \<Rightarrow> mongo_config \<Rightarrow> mongo_config outcome" where
  "WithUserName userName c = Done (c\<lparr>mc_UserName := userName\<rparr>)"

definition WithPassword :: "string \<Rightarrow> mongo_config \<Rightarrow> mongo_config outcome" where
  "WithPassword password c = Done (c\<lparr>mc_Password := password\<rparr>)"

definition WithHost :: "string \<Rightarrow> mongo_config \<Rightarrow> mongo_config outcome" where
  "WithHost host c = Done (c\<lparr>mc_Host := host\<rparr>)"

definition WithPort :: "string \<Rightarrow> mongo_config \<Rightarrow> mongo_config outcome" where
  "WithPort port c = Done (c\<lparr>mc_Port := port\<rparr>)"

definition mongo_DefaultConfig :: "env \<Rightarrow> mongo_config outcome" where
  "mongo_DefaultConfig e =
     and_then (GetDotEnvVariable e MONGO_INITDB_ROOT_USERNAME) (\<lambda>user.
     and_then (GetDotEnvVariable e MONGO_INITDB_ROOT_PASSWORD) (\<lambda>password.
     and_then (GetDotEnvVariable e MONGO_HOST) (\<lambda>host.
     and_then (GetDotEnvVariable e ME_CONFIG_MONGODB_PORT) (\<lambda>port.
       mongo_NewConfig [WithUserName user, WithPassword password, WithHost host, WithPort port]))))"

definition GetURI :: "mongo_config \<Rightarrow> string" where
  "GetURI c = ''mongodb://'' @ mc_UserName c @ '':'' @ mc_Password c @ ''@'' @ mc_Host c @ '':'' @ mc_Port c @ ''/''"

text \<open>\<open>connect\<close> and \<open>ping\<close> are the driver's results for a URI; the client is the URI it is for.\<close>

definition mongo_Connect ::
  "(string \<Rightarrow> string option) \<Rightarrow> (string \<Rightarrow> string option) \<Rightarrow> mongo_config \<Rightarrow> string outcome" where
  "mongo_Connect connect ping config =
     (let uri = GetURI config in
      if connect uri \<noteq> None then Exit
      else if ping uri \<noteq> None then Exit
      else Done uri)"

subsection \<open>redisconfig\<close>

record redis_config =
  rc_Host :: string
  rc_Port :: string
  rc_Password :: string
  rc_DB :: int

definition NewRedisConfig :: "(redis_config \<Rightarrow> redis_config outcome) list \<Rightarrow> env \<Rightarrow> redis_config outcome" where
  "NewRedisConfig options e =
     and_then (GetDotEnvVariable e REDIS_HOST) (\<lambda>host.
     and_then (GetDotEnvVariable e REDIS_PORT) (\<lambda>port.
     and_then (GetDotEnvVariable e REDIS_PASSWORD) (\<lambda>password.
       apply_options options \<lparr>rc_Host = host, rc_Port = port, rc_Password = password, rc_DB = 0\<rparr>)))"

definition WithRedisDB :: "int \<Rightarrow> redis_config \<Rightarrow> redis_config outcome" where
  "WithRedisDB db c = Done (c\<lparr>rc_DB := db\<rparr>)"

definition DefaultRedisConfigForAuth :: "env \<Rightarrow> redis_config outcome" where
  "DefaultRedisConfigForAuth e = NewRedisConfig [WithRedisDB 0] e"

record redis_options =
  ro_Addr :: string
  ro_Password :: string
  ro_DB :: int

definition NewRedisClient :: "(redis_options \<Rightarrow> string option) \<Rightarrow> redis_config \<Rightarrow> redis_options outcome" where
  "NewRedisClient ping config =
     (let redisAddr = rc_Host config @ '':'' @ rc_Port config;
          client = \<lparr>ro_Addr = redisAddr, ro_Password = rc_Password config, ro_DB = rc_DB config\<rparr>
      in if ping client \<noteq> None then Exit else Done client)"

subsection \<open>wsconfig\<close>

record upgrader =
  ReadBufferSize :: int
  WriteBufferSize :: int

definition DefaultWsConfig :: upgrader where
  "DefaultWsConfig = \<lparr>ReadBufferSize = 1024, WriteBufferSize = 1024\<rparr>"

subsection \<open>Properties\<close>

text \<open>The server's default configuration exists exactly if the .env file loads, SERVER names one of
  the two programs and ENV one of gin's modes; it then has that program's port, and the unknown-mode
  exit of \<open>WithGinMode\<close> is never taken.\<close>

lemma server_Default_correct:
  "server_Default corsDefault e =
     (case env_Load e of Some err \<Rightarrow> Panic (''Error loading .env file: '' @ err)
      | None \<Rightarrow>
          let port = env_Getenv e (if env_Getenv e SERVER = SERVICE then SERVER_SERVICE_PORT else SERVER_ENGINE_PORT)
          in if env_Getenv e SERVER \<in> {SERVICE, ENGINE} \<and> env_Getenv e ENV \<in> {''debug'', ''release'', ''test''}
             then Done \<lparr>srv_Port = port, srv_GinMode = env_Getenv e ENV,
               srv_Cors = corsDefault\<lparr>AllowOrigins := [env_Getenv e SERVER_HOST @ port]\<rparr>\<rparr>
             else Exit)"
proof (cases "env_Load e")
  case (Some err)
  then show ?thesis by (simp add: server_Default_def GetDotEnvVariable_def)
next
  case None
  show ?thesis
    unfolding server_Default_def GetDotEnvVariable_PORT[OF None] GetDotEnvVariable_ENV[OF None]
    using None
    by (auto simp: GetDotEnvVariable_plain[OF None] NewServerConfig_def server_WithPort_def
        WithGinMode_def WithCors_def WithCorsHosts_def zero_server_config_def Let_def)
qed

end
