(* ===== verification/Http.thy ===== *)
theory Http
  imports Env Schema
begin

section \<open>Requests and replies: net/http headers and the gin context\<close>

text \<open>
  What the middlewares and handlers see of a request. Headers are the multi-valued map of
  \<open>net/http\<close>: keys in canonical form, \<open>Add\<close> appends a value, \<open>Get\<close> reads the first. Of gin's context
  the code uses the headers, the path parameters and the body, and it replies with
  \<open>AbortWithError\<close> and \<open>JSON\<close>; the calls are kept in order in \<open>ctx_replies\<close>, since gin may get several
  for one request. A middleware is a function of the handler behind it, which it runs with \<open>Next\<close>.
  \<open>FailIfError\<close> (utils/misc.go) records an error and lets its caller go on.
\<close>

subsection \<open>Headers\<close>

definition header_char :: "char \<Rightarrow> bool" where
  "header_char c \<longleftrightarrow> in_range CHR ''a'' CHR ''z'' c \<or> in_range CHR ''A'' CHR ''Z'' c \<or>
     in_range CHR ''0'' CHR ''9'' c \<or> c \<in> set ''!#$%&*+-.^_|~'' \<or> c = CHR 0x27 \<or> c = CHR 0x60"

fun canonical_from :: "bool \<Rightarrow> string \<Rightarrow> string" where
  "canonical_from upper [] = []"
| "canonical_from upper (c # cs) =
     (if upper then ascii_upper c else ascii_lower c) # canonical_from (c = CHR ''-'') cs"

definition CanonicalHeaderKey :: "string \<Rightarrow> string" where
  "CanonicalHeaderKey key = (if list_all header_char key then canonical_from True key else key)"

type_synonym headers = "(string \<times> string) list"

definition header_Add :: "string \<Rightarrow> string \<Rightarrow> headers \<Rightarrow> headers" where
  "header_Add key v h = h @ [(CanonicalHeaderKey key, v)]"

definition header_Get :: "string \<Rightarrow> headers \<Rightarrow> string" where
  "header_Get key h = (case map_of h (CanonicalHeaderKey key) of None \<Rightarrow> [] | Some v \<Rightarrow> v)"

lemma header_Get_Add:
  "header_Get key (header_Add key' v h) =
     (if CanonicalHeaderKey key = CanonicalHeaderKey key' \<and> map_of h (CanonicalHeaderKey key) = None then v
      else header_Get key h)"
  by (auto simp: header_Get_def header_Add_def map_add_def split: option.splits)

lemma map_of_header_Add:
  "map_of (header_Add key v h) k =
     (case map_of h k of None \<Rightarrow> if k = CanonicalHeaderKey key then Some v else None | Some v' \<Rightarrow> Some v')"
  by (auto simp: header_Add_def map_add_def split: option.splits)

lemma canonical_keys:
  "CanonicalHeaderKey ''userData'' = ''Userdata''"
  "CanonicalHeaderKey ''userPermissions'' = ''Userpermissions''"
  by code_simp+

subsection \<open>Data of Auth0: dto/auth.go\<close>

record user_data =
  ud_Nickname :: string
  ud_Name :: string
  ud_Picture :: string
  ud_UpdatedAt :: string
  ud_Sub :: string

record mgmt_post_request =
  mreq_ClientID :: string
  mreq_ClientSecret :: string
  mreq_Audience :: string
  mreq_GrantType :: string

record mgmt_post_response =
  mres_AccessToken :: string
  mres_ExpiresIn :: int
  mres_Scope :: string
  mres_TokenType :: string

record permission_source =
  src_SourceId :: string
  src_SourceName :: string
  src_SourceType :: string

record user_permission =
  perm_PermissionName :: string
  perm_Description :: string
  perm_ResourceServerName :: string
  perm_ResourceServerID :: string
  perm_Sources :: "permission_source list"

definition NewMgmtPostRequest :: "string \<Rightarrow> string \<Rightarrow> string \<Rightarrow> mgmt_post_request" where
  "NewMgmtPostRequest clientId clientSecret audience =
     \<lparr>mreq_ClientID = clientId, mreq_ClientSecret = clientSecret, mreq_Audience = audience,
      mreq_GrantType = ''client_credentials''\<rparr>"

definition zero_user_data :: user_data where
  "zero_user_data = \<lparr>ud_Nickname = [], ud_Name = [], ud_Picture = [], ud_UpdatedAt = [], ud_Sub = []\<rparr>"

subsection \<open>Other types of package dto\<close>

text \<open>Nothing uses them.\<close>

record error_message =
  em_Message :: string

record health_check_response =
  hcr_Message :: string

definition NewHealthCheckResponse :: "string \<Rightarrow> health_check_response" where
  "NewHealthCheckResponse message = \<lparr>hcr_Message = message\<rparr>"

subsection \<open>The context\<close>

datatype json_body = Message string | UserBody user_data | AreaBody "float64 gomap option"

datatype reply = Aborted nat string | Json nat json_body

record gin_ctx =
  ctx_Method :: string
  ctx_Path :: string
  ctx_RawQuery :: string
  ctx_Header :: headers
  ctx_Params :: "(string \<times> string) list"
  ctx_Body :: string
  ctx_replies :: "reply list"

definition GetHeader :: "string \<Rightarrow> gin_ctx \<Rightarrow> string" where
  "GetHeader key c = header_Get key (ctx_Header c)"

definition ctx_Param :: "string \<Rightarrow> gin_ctx \<Rightarrow> string" where
  "ctx_Param key c = (case map_of (ctx_Params c) key of None \<Rightarrow> [] | Some v \<Rightarrow> v)"

definition AbortWithError :: "nat \<Rightarrow> string \<Rightarrow> gin_ctx \<Rightarrow> gin_ctx" where
  "AbortWithError code err c = c\<lparr>ctx_replies := ctx_replies c @ [Aborted code err]\<rparr>"

definition ctx_JSON :: "nat \<Rightarrow> json_body \<Rightarrow> gin_ctx \<Rightarrow> gin_ctx" where
  "ctx_JSON code body c = c\<lparr>ctx_replies := ctx_replies c @ [Json code body]\<rparr>"

text \<open>\<open>utils.FailIfError\<close>: there is no way for it to end its caller.\<close>

definition FailIfError :: "string option \<Rightarrow> nat \<Rightarrow> gin_ctx \<Rightarrow> gin_ctx" where
  "FailIfError err code c = (case err of None \<Rightarrow> c | Some e \<Rightarrow> AbortWithError code e c)"

definition StatusOK :: nat where "StatusOK = 200"
definition StatusCreated :: nat where "StatusCreated = 201"
definition StatusAccepted :: nat where "StatusAccepted = 202"
definition StatusBadRequest :: nat where "StatusBadRequest = 400"
definition StatusUnauthorized :: nat where "StatusUnauthorized = 401"
definition StatusInternalServerError :: nat where "StatusInternalServerError = 500"

lemmas status_defs = StatusOK_def StatusCreated_def StatusAccepted_def StatusBadRequest_def
  StatusUnauthorized_def StatusInternalServerError_def

lemma reply_simps [simp]:
  "ctx_replies (AbortWithError code err c) = ctx_replies c @ [Aborted code err]"
  "ctx_replies (ctx_JSON code body c) = ctx_replies c @ [Json code body]"
  "ctx_Header (AbortWithError code err c) = ctx_Header c" "ctx_Header (ctx_JSON code body c) = ctx_Header c"
  "ctx_Params (AbortWithError code err c) = ctx_Params c" "ctx_Params (ctx_JSON code body c) = ctx_Params c"
  by (simp_all add: AbortWithError_def ctx_JSON_def)

lemma FailIfError_simps [simp]:
  "FailIfError None code c = c" "FailIfError (Some e) code c = AbortWithError code e c"
  by (simp_all add: FailIfError_def)

subsection \<open>Handlers\<close>

text \<open>
  A handler works on the context and on the outside world \<open>'w\<close> (the other servers and the
  database), and may end the process or never return. A nil map in a reply is \<open>None\<close>.
\<close>

type_synonym ('w, 'a) io = "'w \<Rightarrow> 'a outcome \<times> 'w"

type_synonym 'w handler = "gin_ctx \<Rightarrow> ('w, gin_ctx) io"

type_synonym 'w middleware = "'w handler \<Rightarrow> 'w handler"

definition io_return :: "'a \<Rightarrow> ('w, 'a) io" where
  "io_return x w = (Done x, w)"

definition io_exit :: "('w, 'a) io" where
  "io_exit w = (Exit, w)"

definition io_panic :: "string \<Rightarrow> ('w, 'a) io" where
  "io_panic msg w = (Panic msg, w)"

definition io_bind :: "('w, 'a) io \<Rightarrow> ('a \<Rightarrow> ('w, 'b) io) \<Rightarrow> ('w, 'b) io" where
  "io_bind m f w =
     (case m w of (Done x, w') \<Rightarrow> f x w' | (Panic msg, w') \<Rightarrow> (Panic msg, w') | (Exit, w') \<Rightarrow> (Exit, w')
      | (Diverges, w') \<Rightarrow> (Diverges, w'))"

text \<open>\<open>log.Fatal\<close> on an error.\<close>

definition or_exit :: "string + 'a \<Rightarrow> ('a \<Rightarrow> ('w, 'b) io) \<Rightarrow> ('w, 'b) io" where
  "or_exit r f = (case r of Inl err \<Rightarrow> io_exit | Inr x \<Rightarrow> f x)"

lemma io_simps [simp]:
  "io_bind (io_return x) f = f x" "io_bind io_exit f = io_exit" "io_bind (io_panic msg) f = io_panic msg"
  "io_return x w = (Done x, w)" "io_exit w = (Exit, w)" "io_panic msg w = (Panic msg, w)"
  "or_exit (Inl err) g = io_exit" "or_exit (Inr y) g = g y"
  by (auto simp: io_bind_def io_return_def io_exit_def io_panic_def or_exit_def)

lemma io_bind_Done_iff:
  "io_bind m f w = (Done y, w') \<longleftrightarrow> (\<exists>x w1. m w = (Done x, w1) \<and> f x w1 = (Done y, w'))"
  by (auto simp: io_bind_def split: prod.splits outcome.splits)

lemma io_bind_eq: "m w = (Done x, w1) \<Longrightarrow> io_bind m f w = f x w1"
  by (simp add: io_bind_def)

lemma io_bind_Exit: "m w = (Exit, w1) \<Longrightarrow> io_bind m f w = (Exit, w1)"
  by (simp add: io_bind_def)

lemma or_exit_Done_iff: "or_exit r f w = (Done y, w') \<longleftrightarrow> (\<exists>x. r = Inr x \<and> f x w = (Done y, w'))"
  by (cases r) auto

end
