(* ===== verification/Auth.thy ===== *)
theory Auth
  imports Http
begin

section \<open>Identity and permissions: middlewares/auth, utils/req.go, dto/claims.go\<close>

text \<open>
  \<open>UserInfoMiddleware\<close> asks Auth0 who the bearer of the token is and what they may do, and passes
  both on in two request headers; \<open>ValidatePermissions\<close> compares the second with a list. The HTTP
  client, the URL and JSON functions, Redis and the JWT library are the record \<open>auth_ops\<close>. Every
  error of the lookup ends in \<open>log.Fatal\<close>, which stops the process; the calls behind a \<open>Fatal\<close> are
  not reached.

  \<open>permission_loop_eq\<close> reduces the loops to set inclusion; \<open>user_info_cases\<close> says what the lookup
  leaves for the handlers; the token of the management API is fetched at most once per expiry.
\<close>

subsection \<open>The outside world\<close>

record http_request =
  hr_Method :: string
  hr_URL :: string
  hr_Header :: headers
  hr_Body :: string

text \<open>
  \<open>net_Do\<close> is \<open>client.Do\<close> with, for a response, the result of reading its body. Decoding yields an
  error or none, and what is then in the variable.
\<close>

record 'w auth_ops =
  net_JoinPath :: "string \<Rightarrow> string list \<Rightarrow> string + string"
  net_Parse :: "string \<Rightarrow> string + string"
  net_NewRequest :: "string \<Rightarrow> string \<Rightarrow> string option"
  net_Do :: "http_request \<Rightarrow> 'w \<Rightarrow> (string + (string + string)) \<times> 'w"
  enc_UserData :: "user_data \<Rightarrow> string + string"
  dec_UserData :: "string \<Rightarrow> string option \<times> user_data"
  enc_Permissions :: "user_permission list \<Rightarrow> string + string"
  dec_Permissions :: "string \<Rightarrow> string option \<times> user_permission list"
  enc_MgmtPostRequest :: "mgmt_post_request \<Rightarrow> string + string"
  dec_MgmtPostResponse :: "string \<Rightarrow> string option \<times> mgmt_post_response"
  redis_Get :: "string \<Rightarrow> 'w \<Rightarrow> (string + string) \<times> 'w"
  redis_Set :: "string \<Rightarrow> string \<Rightarrow> int \<Rightarrow> 'w \<Rightarrow> 'w"
  AuthHeaderTokenExtractor :: "headers \<Rightarrow> string + string"
  validator_New :: "string \<Rightarrow> string \<Rightarrow> string list \<Rightarrow> string + 'w middleware"

definition MGMT_ACCESS_TOKEN :: string where
  "MGMT_ACCESS_TOKEN = ''mgmtAccessToken''"

text \<open>In nanoseconds.\<close>

definition TOKEN_EXPIRY_TIME :: int where
  "TOKEN_EXPIRY_TIME = 23 * 3600 * 1000000000"

subsection \<open>utils/req.go\<close>

text \<open>
  The common end of the three functions: send, read the body, decode. A failure to send or to
  read is \<open>Fatal\<close>, a failure to decode is returned; the status code of the response is not looked at.
\<close>

definition fetch ::
  "'w auth_ops \<Rightarrow> (string \<Rightarrow> string option \<times> 'a) \<Rightarrow> http_request \<Rightarrow> ('w, string + 'a) io" where
  "fetch ops decode req w =
     (case net_Do ops req w of
        (Inl err, w') \<Rightarrow> (Exit, w')
      | (Inr (Inl err), w') \<Rightarrow> (Exit, w')
      | (Inr (Inr body), w') \<Rightarrow>
          (case decode body of
             (Some err, v) \<Rightarrow> (Done (Inl err), w')
           | (None, v) \<Rightarrow> (Done (Inr v), w')))"

definition bearer :: "string \<Rightarrow> headers" where
  "bearer token = header_Add ''authorization'' (''Bearer '' @ token) (header_Add ''Accept'' ''application/json'' [])"

definition GetUserInfo :: "'w auth_ops \<Rightarrow> string \<Rightarrow> string \<Rightarrow> ('w, string + user_data) io" where
  "GetUserInfo ops issuerURL token =
     or_exit (net_JoinPath ops issuerURL [''/userinfo'']) (\<lambda>userInfoUrl.
       case net_NewRequest ops ''GET'' userInfoUrl of
         Some err \<Rightarrow> io_exit
       | None \<Rightarrow> fetch ops (dec_UserData ops)
           \<lparr>hr_Method = ''GET'', hr_URL = userInfoUrl, hr_Header = bearer token, hr_Body = []\<rparr>)"

text \<open>
  Here the error of \<open>http.NewRequest\<close> is overwritten before it is read, so with one the code goes on
  to use a nil request.
\<close>

definition GetMgmtPostResponse ::
  "'w auth_ops \<Rightarrow> string \<Rightarrow> string \<Rightarrow> string \<Rightarrow> string \<Rightarrow> ('w, string + mgmt_post_response) io" where
  "GetMgmtPostResponse ops mgmtClientId mgmtClientSecret mgmtAudienceApi mgmtTokenUrl =
     or_exit (enc_MgmtPostRequest ops (NewMgmtPostRequest mgmtClientId mgmtClientSecret mgmtAudienceApi)) (\<lambda>bbody.
       case net_NewRequest ops ''POST'' mgmtTokenUrl of
         Some err \<Rightarrow> io_panic ''nil pointer dereference''
       | None \<Rightarrow> fetch ops (dec_MgmtPostResponse ops)
           \<lparr>hr_Method = ''POST'', hr_URL = mgmtTokenUrl,
            hr_Header = header_Add ''Content-Type'' ''application/json'' [], hr_Body = bbody\<rparr>)"

definition GetUserPermissions ::
  "'w auth_ops \<Rightarrow> string \<Rightarrow> string \<Rightarrow> ('w, string + user_permission list) io" where
  "GetUserPermissions ops mgmtPermissionUrl access_token =
     (case net_NewRequest ops ''GET'' mgmtPermissionUrl of
        Some err \<Rightarrow> io_exit
      | None \<Rightarrow> fetch ops (dec_Permissions ops)
          \<lparr>hr_Method = ''GET'', hr_URL = mgmtPermissionUrl, hr_Header = bearer access_token, hr_Body = []\<rparr>)"

subsection \<open>AuthMiddleware\<close>

text \<open>
  \<open>validator_New\<close> stands for the key provider, the validator and the wrapped \<open>CheckJWT\<close> of the
  library, built from the issuer, the authority and the audiences.
\<close>

definition AuthMiddleware :: "'w auth_ops \<Rightarrow> env \<Rightarrow> 'w middleware outcome" where
  "AuthMiddleware ops e =
     and_then (GetDotEnvVariable e AUTH0_AUDIENCE) (\<lambda>audience.
     and_then (GetDotEnvVariable e AUTH0_AUTHORITY) (\<lambda>authority.
       case net_Parse ops authority of
         Inl err \<Rightarrow> Exit
       | Inr issuerURL \<Rightarrow>
           (case validator_New ops issuerURL authority [audience] of
              Inl err \<Rightarrow> Exit
            | Inr checkJWT \<Rightarrow> Done checkJWT)))"

subsection \<open>ValidatePermissions\<close>

text \<open>The two nested loops, and the loop that stops at the first permission not found.\<close>

definition mark_permission :: "string list \<Rightarrow> user_permission \<Rightarrow> bool list \<Rightarrow> bool list" where
  "mark_permission expectedClaims permission foundPermission =
     fold (\<lambda>i found. if perm_PermissionName permission = expectedClaims ! i then found[i := True] else found)
       [0..<length expectedClaims] foundPermission"

fun all_found :: "bool list \<Rightarrow> bool" where
  "all_found [] = True"
| "all_found (permission # foundPermission) = (if \<not> permission then False else all_found foundPermission)"

definition ValidatePermissions :: "'w auth_ops \<Rightarrow> string list \<Rightarrow> 'w middleware" where
  "ValidatePermissions ops expectedClaims next c =
     (case dec_Permissions ops (GetHeader ''userPermissions'' c) of
        (Some err, _) \<Rightarrow> io_return (AbortWithError StatusInternalServerError err c)
      | (None, userPermissionsDto) \<Rightarrow>
          let foundPermission = fold (mark_permission expectedClaims) userPermissionsDto
                (replicate (length expectedClaims) False)
          in if \<not> all_found foundPermission
             then io_return (AbortWithError StatusUnauthorized ''User does not have the required permissions'' c)
             else next c)"

text \<open>The second check of permissions, on the claims of a token (dto/claims.go).\<close>

text \<open>The claims of a token are always accepted; their permissions are checked by \<open>HasPermissions\<close>.\<close>

record custom_claims =
  cc_Permissions :: "string list"

definition CustomClaims_Validate :: "custom_claims \<Rightarrow> string option" where
  "CustomClaims_Validate c = None"

fun HasPermissions_loop :: "string list \<Rightarrow> string list \<Rightarrow> bool" where
  "HasPermissions_loop permissions [] = True"
| "HasPermissions_loop permissions (scope # expectedClaims) =
     (if scope \<notin> set permissions then False else HasPermissions_loop permissions expectedClaims)"

definition HasPermissions :: "string list \<Rightarrow> string list \<Rightarrow> bool" where
  "HasPermissions permissions expectedClaims =
     (if length expectedClaims = 0 then False else HasPermissions_loop permissions expectedClaims)"

subsection \<open>UserInfoMiddleware\<close>

text \<open>The token for the management API, from the cache or from Auth0.\<close>

definition mgmt_access_token ::
  "'w auth_ops \<Rightarrow> string \<Rightarrow> string \<Rightarrow> string \<Rightarrow> string \<Rightarrow> ('w, string) io" where
  "mgmt_access_token ops mgmtClientId mgmtClientSecret mgmtAudienceApi mgmtTokenUrl w =
     (case redis_Get ops MGMT_ACCESS_TOKEN w of
        (Inr cachedToken, w') \<Rightarrow> (Done cachedToken, w')
      | (Inl err, w') \<Rightarrow>
          io_bind (GetMgmtPostResponse ops mgmtClientId mgmtClientSecret mgmtAudienceApi mgmtTokenUrl)
            (\<lambda>r. or_exit r (\<lambda>mgmtPostResponse w.
               (Done (mres_AccessToken mgmtPostResponse),
                redis_Set ops MGMT_ACCESS_TOKEN (mres_AccessToken mgmtPostResponse) TOKEN_EXPIRY_TIME w))) w')"

record mgmt_config =
  mgmtAudience :: string
  mgmtClientId :: string
  mgmtClientSecret :: string
  mgmtAuthority :: string

definition user_info_handler :: "'w auth_ops \<Rightarrow> mgmt_config \<Rightarrow> 'w middleware" where
  "user_info_handler ops conf next c =
     or_exit (net_JoinPath ops (mgmtAudience conf) [''/api/v2/'']) (\<lambda>mgmtAudienceApi.
     or_exit (net_JoinPath ops (mgmtAudience conf) [''/oauth/token'']) (\<lambda>mgmtTokenUrl.
     or_exit (net_JoinPath ops (mgmtAudience conf) [''/api/v2/users/'']) (\<lambda>mgmtPermissionUrl.
     or_exit (AuthHeaderTokenExtractor ops (ctx_Header c)) (\<lambda>token.
     or_exit (net_Parse ops (mgmtAuthority conf)) (\<lambda>issuerURL.
     io_bind (GetUserInfo ops issuerURL token) (\<lambda>r.
     or_exit r (\<lambda>userData.
     or_exit (enc_UserData ops userData) (\<lambda>userDataMarshal.
     io_bind (mgmt_access_token ops (mgmtClientId conf) (mgmtClientSecret conf) mgmtAudienceApi mgmtTokenUrl)
       (\<lambda>access_token.
     or_exit (net_JoinPath ops mgmtPermissionUrl [ud_Sub userData, ''/permissions'']) (\<lambda>mgmtPermissionUrl.
     io_bind (GetUserPermissions ops mgmtPermissionUrl access_token) (\<lambda>r.
     or_exit r (\<lambda>userPermissions.
     or_exit (enc_Permissions ops userPermissions) (\<lambda>userPermissionsMarshal.
       next (c\<lparr>ctx_Header := header_Add ''userPermissions'' userPermissionsMarshal
         (header_Add ''userData'' userDataMarshal (ctx_Header c))\<rparr>))))))))))))))"

definition UserInfoMiddleware :: "'w auth_ops \<Rightarrow> env \<Rightarrow> 'w middleware outcome" where
  "UserInfoMiddleware ops e =
     and_then (GetDotEnvVariable e MGMT_AUTH0_AUDIENCE) (\<lambda>audience.
     and_then (GetDotEnvVariable e MGMT_AUTH0_CLIENT_ID) (\<lambda>clientId.
     and_then (GetDotEnvVariable e MGMT_AUTH0_CLIENT_SECRET) (\<lambda>clientSecret.
     and_then (GetDotEnvVariable e AUTH0_AUTHORITY) (\<lambda>authority.
       Done (user_info_handler ops \<lparr>mgmtAudience = audience, mgmtClientId = clientId,
         mgmtClientSecret = clientSecret, mgmtAuthority = authority\<rparr>)))))"

subsection \<open>Permissions\<close>

lemma mark_permission_upto:
  "length found = length expected \<Longrightarrow> n \<le> length expected \<Longrightarrow>
   fold (\<lambda>i found. if name = expected ! i then found[i := True] else found) [0..<n] found =
   map (\<lambda>i. found ! i \<or> i < n \<and> expected ! i = name) [0..<length expected]"
proof (induction n)
  case 0
  then show ?case by (auto intro: nth_equalityI)
next
  case (Suc n)
  then show ?case by (auto intro!: nth_equalityI simp: nth_list_update less_Suc_eq split: if_splits)
qed

lemma mark_permission_eq:
  "length found = length expected \<Longrightarrow> mark_permission expected p found =
   map (\<lambda>i. found ! i \<or> expected ! i = perm_PermissionName p) [0..<length expected]"
  by (auto simp: mark_permission_def mark_permission_upto)

lemma mark_permissions_eq:
  "length found = length expected \<Longrightarrow> fold (mark_permission expected) ps found =
   map (\<lambda>i. found ! i \<or> expected ! i \<in> perm_PermissionName ` set ps) [0..<length expected]"
proof (induction ps arbitrary: found)
  case Nil
  then show ?case by (auto intro: nth_equalityI)
next
  case (Cons p ps)
  then show ?case by (auto simp: mark_permission_eq)
qed

lemma all_found_map: "all_found (map f xs) \<longleftrightarrow> (\<forall>x\<in>set xs. f x)"
  by (induction xs) auto

lemma permission_loop_eq:
  "all_found (fold (mark_permission expected) ps (replicate (length expected) False)) \<longleftrightarrow>
   set expected \<subseteq> perm_PermissionName ` set ps"
proof -
  have "set expected \<subseteq> A \<longleftrightarrow> (\<forall>i<length expected. expected ! i \<in> A)" for A
    by (metis in_set_conv_nth subsetD subsetI)
  then show ?thesis by (simp add: mark_permissions_eq all_found_map Ball_def)
qed

lemma HasPermissions_iff: "HasPermissions permissions expected \<longleftrightarrow> expected \<noteq> [] \<and> set expected \<subseteq> set permissions"
proof -
  have "HasPermissions_loop permissions expected \<longleftrightarrow> set expected \<subseteq> set permissions"
    by (induction expected) auto
  then show ?thesis by (simp add: HasPermissions_def)
qed

subsection \<open>The lookup\<close>

text \<open>If a request gets past the middleware, Auth0 has named its user, and the headers were added.\<close>

lemma user_info_cases:
  assumes "user_info_handler ops conf next c w = (Done c', w')"
  obtains token issuer ud u p w1 w3 where
    "AuthHeaderTokenExtractor ops (ctx_Header c) = Inr token" "net_Parse ops (mgmtAuthority conf) = Inr issuer"
    "GetUserInfo ops issuer token w = (Done (Inr ud), w1)" "enc_UserData ops ud = Inr u"
    "next (c\<lparr>ctx_Header := header_Add ''userPermissions'' p (header_Add ''userData'' u (ctx_Header c))\<rparr>) w3 =
      (Done c', w')"
  using assms unfolding user_info_handler_def or_exit_Done_iff io_bind_Done_iff
  by (elim exE conjE, hypsubst) (rule that)

subsection \<open>Properties\<close>

text \<open>C30: \<open>ValidatePermissions\<close> lets a request through exactly if the user has every expected permission;
  it answers 401 if one is missing and 500 if the header does not decode. It agrees with
  \<open>HasPermissions\<close> except on an empty list of permissions, which it lets pass.\<close>

theorem ValidatePermissions_correct:
  "ValidatePermissions ops expected next c =
     (case dec_Permissions ops (GetHeader ''userPermissions'' c) of
        (Some err, _) \<Rightarrow> io_return (AbortWithError 500 err c)
      | (None, ps) \<Rightarrow>
          if set expected \<subseteq> perm_PermissionName ` set ps then next c
          else io_return (AbortWithError 401 ''User does not have the required permissions'' c)) \<and>
   (set expected \<subseteq> perm_PermissionName ` set ps \<longleftrightarrow>
      expected = [] \<or> HasPermissions (map perm_PermissionName ps) expected)"
  by (auto simp: ValidatePermissions_def permission_loop_eq HasPermissions_iff status_defs Let_def
      split: prod.splits option.splits)

text \<open>A request that gets past \<open>UserInfoMiddleware\<close> reaches the handler with one more value of each of
  the two headers; but a handler that reads \<open>userData\<close> gets Auth0's answer only if the client did not
  send that header itself, else it gets the client's value. The middleware never answers a request on
  its own.\<close>

lemma UserInfo_identity:
  assumes "user_info_handler ops conf next c w = (Done c', w')"
  shows "\<exists>token issuer ud u c1 w1 w2. AuthHeaderTokenExtractor ops (ctx_Header c) = Inr token \<and>
    net_Parse ops (mgmtAuthority conf) = Inr issuer \<and>
    GetUserInfo ops issuer token w = (Done (Inr ud), w1) \<and> enc_UserData ops ud = Inr u \<and>
    next c1 w2 = (Done c', w') \<and> ctx_Params c1 = ctx_Params c \<and> ctx_Body c1 = ctx_Body c \<and>
    GetHeader ''userData'' c1 = (case map_of (ctx_Header c) ''Userdata'' of None \<Rightarrow> u | Some v \<Rightarrow> v)"
proof -
  obtain token issuer ud u p w1 w3 where 1:
    "AuthHeaderTokenExtractor ops (ctx_Header c) = Inr token" "net_Parse ops (mgmtAuthority conf) = Inr issuer"
    "GetUserInfo ops issuer token w = (Done (Inr ud), w1)" "enc_UserData ops ud = Inr u"
    "next (c\<lparr>ctx_Header := header_Add ''userPermissions'' p (header_Add ''userData'' u (ctx_Header c))\<rparr>) w3 =
      (Done c', w')"
    using assms by (rule user_info_cases)
  have "header_Get ''userData'' (header_Add ''userPermissions'' p (header_Add ''userData'' u h)) =
      (case map_of h ''Userdata'' of None \<Rightarrow> u | Some v \<Rightarrow> v)" for h
    by (simp add: header_Get_def map_of_header_Add canonical_keys split: option.splits)
  then show ?thesis using 1
    by (intro exI[of _ token] exI[of _ issuer] exI[of _ ud] exI[of _ u] exI[of _ w1] exI[of _ w3]
        exI[of _ "c\<lparr>ctx_Header := header_Add ''userPermissions'' p (header_Add ''userData'' u (ctx_Header c))\<rparr>"])
      (simp add: GetHeader_def)
qed

text \<open>One request stops the server: if Auth0's answer to the user lookup does not decode, as its error
  texts do not, the process exits, whatever the handler and whatever is behind the middleware.\<close>

lemma UserInfo_exits_on_bad_answer:
  assumes "net_JoinPath ops (mgmtAudience conf) [''/api/v2/''] = Inr api"
    "net_JoinPath ops (mgmtAudience conf) [''/oauth/token''] = Inr tokenUrl"
    "net_JoinPath ops (mgmtAudience conf) [''/api/v2/users/''] = Inr usersUrl"
    "AuthHeaderTokenExtractor ops (ctx_Header c) = Inr token"
    "net_Parse ops (mgmtAuthority conf) = Inr issuer" "net_JoinPath ops issuer [''/userinfo''] = Inr url"
    "net_NewRequest ops ''GET'' url = None"
    "net_Do ops \<lparr>hr_Method = ''GET'', hr_URL = url, hr_Header = bearer token, hr_Body = []\<rparr> w = (Inr (Inr body), w1)"
    "dec_UserData ops body = (Some err, ud)"
  shows "user_info_handler ops conf next c w = (Exit, w1)"
proof -
  have "GetUserInfo ops issuer token w = (Done (Inl err), w1)"
    using assms by (simp add: GetUserInfo_def fetch_def)
  then show ?thesis using assms by (simp add: user_info_handler_def io_bind_def)
qed

text \<open>
  A small world for examples: Auth0 knows one token; URLs are joined by appending, users and
  permissions are written as their subject and names. The world is the content of the cache.
\<close>

definition example_user :: user_data where
  "example_user = zero_user_data\<lparr>ud_Sub := ''runner''\<rparr>"

definition example_net :: "string option auth_ops" where
  "example_net = \<lparr>net_JoinPath = (\<lambda>base parts. Inr (base @ concat parts)), net_Parse = Inr,
     net_NewRequest = (\<lambda>_ _. None),
     net_Do = (\<lambda>r w. (Inr (Inr (if hr_Header r = bearer ''good'' then ''runner''
         else if hr_Method r = ''POST'' then ''good'' else ''Unauthorized'')), w)),
     enc_UserData = (\<lambda>u. Inr (ud_Sub u)),
     dec_UserData = (\<lambda>s. if s = ''Unauthorized'' then (Some ''invalid character'', zero_user_data)
       else (None, zero_user_data\<lparr>ud_Sub := s\<rparr>)),
     enc_Permissions = (\<lambda>_. Inr ''[]''), dec_Permissions = (\<lambda>s. (None, if s = ''[]'' then [] else
       [\<lparr>perm_PermissionName = s, perm_Description = [], perm_ResourceServerName = [], perm_ResourceServerID = [],
         perm_Sources = []\<rparr>])),
     enc_MgmtPostRequest = (\<lambda>_. Inr ''{}''),
     dec_MgmtPostResponse = (\<lambda>s. (None, \<lparr>mres_AccessToken = s, mres_ExpiresIn = 0, mres_Scope = [], mres_TokenType = []\<rparr>)),
     redis_Get = (\<lambda>_ w. (case w of None \<Rightarrow> Inl ''redis: nil'' | Some t \<Rightarrow> Inr t, w)),
     redis_Set = (\<lambda>_ v _ _. Some v),
     AuthHeaderTokenExtractor = (\<lambda>h. Inr (header_Get ''authorization'' h)),
     validator_New = (\<lambda>_ _ _. Inl ''none'')\<rparr>"

definition example_conf :: mgmt_config where
  "example_conf = \<lparr>mgmtAudience = ''a'', mgmtClientId = ''i'', mgmtClientSecret = ''s'', mgmtAuthority = ''auth''\<rparr>"

definition request_with :: "headers \<Rightarrow> gin_ctx" where
  "request_with h = \<lparr>ctx_Method = ''GET'', ctx_Path = ''/'', ctx_RawQuery = [], ctx_Header = h, ctx_Params = [], ctx_Body = [], ctx_replies = []\<rparr>"

lemma canonical_authorization: "CanonicalHeaderKey ''authorization'' = ''Authorization''"
  "CanonicalHeaderKey ''Accept'' = ''Accept''"
  by code_simp+

lemma example_user_info:
  assumes "map_of h ''Authorization'' = Some ''good''"
  shows "\<exists>w'. user_info_handler example_net example_conf next (request_with h) w =
    next (request_with (header_Add ''userPermissions'' ''[]'' (header_Add ''userData'' ''runner'' h))) w'"
  using assms
  by (cases w)
    (auto simp: user_info_handler_def example_net_def example_conf_def request_with_def header_Get_def
      canonical_authorization GetUserInfo_def GetUserPermissions_def GetMgmtPostResponse_def fetch_def
      mgmt_access_token_def io_bind_def bearer_def header_Add_def)

lemma UserInfo_identity_witness:
  "\<exists>c'. fst (user_info_handler example_net example_conf (\<lambda>c. io_return (AbortWithError 200 (GetHeader ''userData'' c) c))
      (request_with [(''Authorization'', ''good''), (''Userdata'', ''victim'')]) None) = Done c' \<and>
    (\<exists>c1. GetHeader ''userData'' c1 = ''victim'' \<and> c' = AbortWithError 200 ''victim'' c1)"
proof -
  let ?next = "\<lambda>c. io_return (AbortWithError 200 (GetHeader ''userData'' c) c)"
  let ?c = "request_with [(''Authorization'', ''good''), (''Userdata'', ''victim'')]"
  obtain c' w' where run: "user_info_handler example_net example_conf ?next ?c None = (Done c', w')"
    using example_user_info[of "[(''Authorization'', ''good''), (''Userdata'', ''victim'')]" ?next None] by auto
  then show ?thesis using UserInfo_identity[OF run] by (auto simp: request_with_def)
qed

text \<open>The lookup does not depend on the handler behind it.\<close>

lemma user_info_next:
  assumes "user_info_handler ops conf io_return c w = (Done c1, w1)"
  shows "user_info_handler ops conf next c w = next c1 w1"
  using assms unfolding user_info_handler_def or_exit_Done_iff io_bind_Done_iff
  by (elim exE conjE, hypsubst) (simp add: io_bind_def)

text \<open>A client can give itself permissions: if it sends a \<open>userPermissions\<close> header that lists the
  expected ones, \<open>ValidatePermissions\<close> lets the request through, whatever permissions Auth0 reported
  in the lookup before it.\<close>

lemma permissions_from_client_header:
  assumes "user_info_handler ops conf io_return c w = (Done c1, w1)"
    and "map_of (ctx_Header c) ''Userpermissions'' = Some v" "dec_Permissions ops v = (None, ps)"
    and "set expected \<subseteq> perm_PermissionName ` set ps"
  shows "user_info_handler ops conf (ValidatePermissions ops expected next) c w = next c1 w1"
proof -
  obtain u p where "c1 = c\<lparr>ctx_Header := header_Add ''userPermissions'' p (header_Add ''userData'' u (ctx_Header c))\<rparr>"
    using assms(1) by (rule user_info_cases) (simp, metis)
  then have "GetHeader ''userPermissions'' c1 = v"
    using assms(2) by (simp add: GetHeader_def header_Get_def map_of_header_Add canonical_keys)
  then show ?thesis using user_info_next[OF assms(1)] assms(3,4)
    by (simp add: ValidatePermissions_def permission_loop_eq Let_def)
qed

lemma permissions_from_client_header_witness:
  "\<exists>w1. user_info_handler example_net example_conf (ValidatePermissions example_net [''read:all''] (\<lambda>c w. (Panic ''reached'', w)))
    (request_with [(''Authorization'', ''good''), (''Userpermissions'', ''read:all'')]) None = (Panic ''reached'', w1)"
proof -
  let ?c = "request_with [(''Authorization'', ''good''), (''Userpermissions'', ''read:all'')]"
  obtain c1 w1 where run: "user_info_handler example_net example_conf io_return ?c None = (Done c1, w1)"
    using example_user_info[of "[(''Authorization'', ''good''), (''Userpermissions'', ''read:all'')]" io_return None] by auto
  have "user_info_handler example_net example_conf (ValidatePermissions example_net [''read:all''] (\<lambda>c w. (Panic ''reached'', w))) ?c None =
      (\<lambda>c w. (Panic ''reached'', w)) c1 w1"
    by (rule permissions_from_client_header[OF run, of "''read:all''" "snd (dec_Permissions example_net ''read:all'')"])
      (simp_all add: request_with_def example_net_def)
  then show ?thesis by blast
qed

lemma UserInfo_exits_on_bad_answer_witness:
  "fst (user_info_handler example_net example_conf (\<lambda>c. io_return c) (request_with []) None) = Exit"
proof -
  have "user_info_handler example_net example_conf (\<lambda>c. io_return c) (request_with []) None = (Exit, None)"
    by (rule UserInfo_exits_on_bad_answer[where err = "''invalid character''" and body = "''Unauthorized''"
          and token = "[]" and ud = zero_user_data])
      (simp_all add: example_net_def header_Get_def example_conf_def request_with_def bearer_def header_Add_def
        canonical_authorization)
  then show ?thesis by simp
qed

text \<open>The token of the management API is fetched once: after a call that got one, the next call
  returns the same token and leaves the world as it is, so it sends no request.\<close>

lemma mgmt_token_cached:
  assumes "\<And>v w. redis_Get ops MGMT_ACCESS_TOKEN (redis_Set ops MGMT_ACCESS_TOKEN v TOKEN_EXPIRY_TIME w) =
      (Inr v, redis_Set ops MGMT_ACCESS_TOKEN v TOKEN_EXPIRY_TIME w)"
    and "\<And>t w w'. redis_Get ops MGMT_ACCESS_TOKEN w = (Inr t, w') \<Longrightarrow> redis_Get ops MGMT_ACCESS_TOKEN w' = (Inr t, w')"
    and "mgmt_access_token ops i s api url w = (Done token, w1)"
  shows "mgmt_access_token ops i s api url w1 = (Done token, w1)"
proof (cases "redis_Get ops MGMT_ACCESS_TOKEN w")
  case (Pair r w0)
  show ?thesis
  proof (cases r)
    case (Inr t)
    then show ?thesis using assms(2)[of w t w0] assms(3) Pair by (simp add: mgmt_access_token_def)
  next
    case (Inl err)
    then obtain w2 where "w1 = redis_Set ops MGMT_ACCESS_TOKEN token TOKEN_EXPIRY_TIME w2"
      using assms(3) Pair by (auto simp: mgmt_access_token_def io_bind_Done_iff or_exit_Done_iff)
    then show ?thesis using assms(1) by (simp add: mgmt_access_token_def)
  qed
qed

lemma mgmt_token_cached_witness:
  "mgmt_access_token example_net ''i'' ''s'' ''api'' ''url'' (Some ''good'') = (Done ''good'', Some ''good'')"
proof (rule mgmt_token_cached)
  show "mgmt_access_token example_net ''i'' ''s'' ''api'' ''url'' None = (Done ''good'', Some ''good'')"
    by (simp add: mgmt_access_token_def example_net_def GetMgmtPostResponse_def fetch_def io_bind_def
        bearer_def header_Add_def)
qed (auto simp: example_net_def split: option.splits)

end
