(* ===== verification/RunnerGroups.thy ===== *)
theory RunnerGroups
  imports Auth Area
begin

section \<open>Running groups: the handlers of /runner and the group code\<close>

text \<open>
  \<open>CreateRunnerGroup\<close>, \<open>JoinRunnerGroup\<close> and the area handler, with \<open>CreateCode\<close> and
  \<open>GenerateRandomString\<close> of utils/misc.go. The MongoDB driver, the clock, the random numbers and gin's
  JSON binding are the record \<open>group_ops\<close>.

  \<open>CreateCode\<close> loops until the database reports an unused code, so it need not return:
  \<open>CreateCode_iff\<close> says when it does. A join reads the group and writes back the extended list of
  members; \<open>join_step\<close> interleaves the reads and writes of many requests, with the bound on the
  members as invariant (\<open>join_reachable_ok\<close>).

  \<open>finds_by_document\<close> states how the database answers a search: it compares the field with those of the
  stored documents, which \<open>Schema\<close> derives from the tags of the struct.
\<close>

subsection \<open>The outside world\<close>

datatype find_result = Found runner_group | NoDocuments | FindFailed string

record 'w group_ops =
  db_FindOne :: "string \<Rightarrow> string \<Rightarrow> filter_doc \<Rightarrow> 'w \<Rightarrow> find_result \<times> 'w"
  db_InsertOne :: "string \<Rightarrow> string \<Rightarrow> runner_group \<Rightarrow> 'w \<Rightarrow> string option \<times> 'w"
  db_SetMembers :: "string \<Rightarrow> string \<Rightarrow> filter_doc \<Rightarrow> string list \<Rightarrow> 'w \<Rightarrow> string option \<times> 'w"
  rand_Intn :: "nat \<Rightarrow> 'w \<Rightarrow> nat \<times> 'w"
  now_UnixMilli :: "'w \<Rightarrow> int \<times> 'w"
  bind_JSON :: "string \<Rightarrow> string + string"

text \<open>
  \<open>db_SetMembers\<close> is \<open>UpdateOne\<close> with \<open>$set\<close> on the field \<open>members\<close>; \<open>bind_JSON\<close> is
  \<open>ShouldBindJSON\<close>, whose result is the field \<open>group\<close>.
\<close>

definition MAX_GROUP_MEMBERS :: nat where
  "MAX_GROUP_MEMBERS = 16"

subsection \<open>Group codes: utils/misc.go\<close>

definition letterBytes :: string where
  "letterBytes = ''abcdefghijklm'' @ ''nopqrstuvwxyz'' @ ''ABCDEFGHIJKLM'' @ ''NOPQRSTUVWXYZ''"

fun random_letters :: "'w group_ops \<Rightarrow> nat \<Rightarrow> 'w \<Rightarrow> string \<times> 'w" where
  "random_letters ops 0 w = ([], w)"
| "random_letters ops (Suc n) w =
     (let (i, w) = rand_Intn ops (length letterBytes) w;
          (b, w) = random_letters ops n w
      in (letterBytes ! i # b, w))"

definition GenerateRandomString :: "'w group_ops \<Rightarrow> nat \<Rightarrow> 'w \<Rightarrow> string \<times> 'w" where
  "GenerateRandomString ops n = random_letters ops n"

text \<open>One round of the loop: a code, what the database says of it, and the next world.\<close>

definition try_code :: "'w group_ops \<Rightarrow> 'w \<Rightarrow> string \<times> find_result \<times> 'w" where
  "try_code ops w =
     (let (code, w) = GenerateRandomString ops 10 w;
          (r, w) = db_FindOne ops RUNNER_DATABASE RUNNER_GROUP_COLLECTION [(''code'', code)] w
      in (code, r, w))"

text \<open>A failure of the database is logged and tried again, like a code that is in use.\<close>

partial_function (option) CreateCode :: "'w group_ops \<Rightarrow> 'w \<Rightarrow> (string \<times> 'w) option" where
  "CreateCode ops w =
     (case try_code ops w of (code, r, w') \<Rightarrow>
        (case r of NoDocuments \<Rightarrow> Some (code, w') | _ \<Rightarrow> CreateCode ops w'))"

subsection \<open>The handlers\<close>

definition CreateRunnerGroup ::
  "'w group_ops \<Rightarrow> (string \<Rightarrow> string option \<times> user_data) \<Rightarrow> 'w handler" where
  "CreateRunnerGroup ops unmarshal c w =
     (case unmarshal (GetHeader ''userData'' c) of
        (Some err, _) \<Rightarrow> (Done (AbortWithError StatusInternalServerError err c), w)
      | (None, userData) \<Rightarrow>
     (case bind_JSON ops (ctx_Body c) of
        Inl err \<Rightarrow> (Done (AbortWithError StatusBadRequest err c), w)
      | Inr name \<Rightarrow>
          let members = [ud_Sub userData];
              (timeStamp, w) = now_UnixMilli ops w
          in (case CreateCode ops w of
                None \<Rightarrow> (Diverges, w)
              | Some (code, w) \<Rightarrow>
                  let data = \<lparr>grp_GroupName = name, grp_GroupCode = code, grp_CreatedAt = timeStamp,
                        grp_Members = members, grp_Owner = ud_Sub userData\<rparr>
                  in (case db_InsertOne ops RUNNER_DATABASE RUNNER_GROUP_COLLECTION data w of
                        (Some err, w) \<Rightarrow> (Done (AbortWithError StatusInternalServerError err c), w)
                      | (None, w) \<Rightarrow>
                          (Done (ctx_JSON StatusCreated (Message ''Group created successfully'') c), w)))))"

text \<open>What the handler decides on the group it read: a final answer, or the members to write.\<close>

definition join_decision :: "string \<Rightarrow> string list \<Rightarrow> string + string list" where
  "join_decision sub members =
     (if sub \<in> set members then Inl ''You are already a member of this group''
      else if length members = MAX_GROUP_MEMBERS then Inl ''Group is full''
      else Inr (members @ [sub]))"

definition JoinRunnerGroup ::
  "'w group_ops \<Rightarrow> (string \<Rightarrow> string option \<times> user_data) \<Rightarrow> 'w handler" where
  "JoinRunnerGroup ops unmarshal c w =
     (let code = ctx_Param ''groupCode'' c in
      case unmarshal (GetHeader ''userData'' c) of
        (Some err, _) \<Rightarrow> (Done (AbortWithError StatusInternalServerError err c), w)
      | (None, userData) \<Rightarrow>
          let docFilter = [(''code'', code)] in
          (case db_FindOne ops RUNNER_DATABASE RUNNER_GROUP_COLLECTION docFilter w of
             (NoDocuments, w) \<Rightarrow>
               (Done (AbortWithError StatusInternalServerError ''mongo: no documents in result'' c), w)
           | (FindFailed err, w) \<Rightarrow> (Done (AbortWithError StatusInternalServerError err c), w)
           | (Found result, w) \<Rightarrow>
               (case join_decision (ud_Sub userData) (grp_Members result) of
                  Inl msg \<Rightarrow> (Done (ctx_JSON StatusOK (Message msg) c), w)
                | Inr members \<Rightarrow>
                    (case db_SetMembers ops RUNNER_DATABASE RUNNER_GROUP_COLLECTION docFilter members w of
                       (Some err, w) \<Rightarrow> (Done (AbortWithError StatusInternalServerError err c), w)
                     | (None, w) \<Rightarrow> (Done (ctx_JSON StatusOK (Message ''Joined group successfully'') c), w)))))"

text \<open>The area handler answers twice when the areas cannot be computed, the second time with a nil map.\<close>

definition AreaCalculatorGroup ::
  "go_rt \<Rightarrow> ('w \<Rightarrow> ('doc, 'bson, 'text) group_store) \<Rightarrow> 'w handler" where
  "AreaCalculatorGroup rt store c w =
     (let code = ctx_Param ''groupCode'' c;
          (area, err) = (case AreaProcessor rt (store w) code of
             Inl err \<Rightarrow> (None, Some err) | Inr area \<Rightarrow> (Some area, None));
          c = FailIfError err StatusInternalServerError c
      in (Done (ctx_JSON StatusAccepted (AreaBody area) c), w))"

subsection \<open>When a code is found\<close>

definition next_try :: "'w group_ops \<Rightarrow> 'w \<Rightarrow> 'w" where
  "next_try ops w = snd (snd (try_code ops w))"

definition found_after :: "'w group_ops \<Rightarrow> 'w \<Rightarrow> nat \<Rightarrow> string \<Rightarrow> 'w \<Rightarrow> bool" where
  "found_after ops w k code w' \<longleftrightarrow> try_code ops ((next_try ops ^^ k) w) = (code, NoDocuments, w') \<and>
     (\<forall>j<k. fst (snd (try_code ops ((next_try ops ^^ j) w))) \<noteq> NoDocuments)"

lemma found_after_0: "found_after ops w 0 code w' \<longleftrightarrow> try_code ops w = (code, NoDocuments, w')"
  by (simp add: found_after_def)

lemma found_after_Suc:
  "found_after ops w (Suc k) code w' \<longleftrightarrow>
     fst (snd (try_code ops w)) \<noteq> NoDocuments \<and> found_after ops (next_try ops w) k code w'"
  by (auto simp: found_after_def funpow_swap1 less_Suc_eq_0_disj)

lemma CreateCode_found: "found_after ops w k code w' \<Longrightarrow> CreateCode ops w = Some (code, w')"
proof (induction k arbitrary: w)
  case 0
  then show ?case by (simp add: found_after_0 CreateCode.simps)
next
  case (Suc k)
  obtain c r w1 where t: "try_code ops w = (c, r, w1)" by (cases "try_code ops w")
  then have "r \<noteq> NoDocuments" "CreateCode ops w1 = Some (code, w')"
    using Suc by (auto simp: found_after_Suc next_try_def)
  then show ?case using t by (subst CreateCode.simps) (auto split: find_result.splits)
qed

lemma CreateCode_returns:
  assumes "CreateCode ops w = Some r"
  shows "\<exists>k. found_after ops w k (fst r) (snd r)"
proof (rule CreateCode.raw_induct[OF _ assms, where P = "\<lambda>ops w r. \<exists>k. found_after ops w k (fst r) (snd r)"])
  fix rec :: "'a group_ops \<Rightarrow> 'a \<Rightarrow> (string \<times> 'a) option" and ops w r
  assume 1: "\<And>ops w r. rec ops w = Some r \<Longrightarrow> \<exists>k. found_after ops w k (fst r) (snd r)"
    "(case try_code ops w of (code, r, w') \<Rightarrow>
        (case r of NoDocuments \<Rightarrow> Some (code, w') | _ \<Rightarrow> rec ops w')) = Some r"
  obtain c res w1 where t: "try_code ops w = (c, res, w1)" by (cases "try_code ops w")
  show "\<exists>k. found_after ops w k (fst r) (snd r)"
  proof (cases res)
    case NoDocuments
    then show ?thesis using 1(2) t by (intro exI[of _ 0]) (auto simp: found_after_0)
  next
    case (Found g)
    then have "rec ops w1 = Some r" using 1(2) t by simp
    then obtain k where "found_after ops w1 k (fst r) (snd r)" using 1(1) by blast
    then show ?thesis using t Found by (intro exI[of _ "Suc k"]) (simp add: found_after_Suc next_try_def)
  next
    case (FindFailed e)
    then have "rec ops w1 = Some r" using 1(2) t by simp
    then obtain k where "found_after ops w1 k (fst r) (snd r)" using 1(1) by blast
    then show ?thesis using t FindFailed by (intro exI[of _ "Suc k"]) (simp add: found_after_Suc next_try_def)
  qed
qed

lemma CreateCode_iff: "CreateCode ops w = Some (code, w') \<longleftrightarrow> (\<exists>k. found_after ops w k code w')"
  using CreateCode_found CreateCode_returns[of ops w "(code, w')"] by auto

lemma random_letters_ok:
  fixes ops :: "'w group_ops"
  assumes "\<And>w. fst (rand_Intn ops (length letterBytes) w) < length letterBytes"
  shows "length (fst (random_letters ops n w)) = n \<and> set (fst (random_letters ops n w)) \<subseteq> set letterBytes"
proof (induction n arbitrary: w)
  case (Suc n)
  obtain i w1 where "rand_Intn ops (length letterBytes) w = (i, w1)" by (cases "rand_Intn ops (length letterBytes) w")
  then show ?case using Suc[of w1] assms[of w] by (auto split: prod.splits)
qed simp

lemma try_code_ok:
  assumes "\<And>w. fst (rand_Intn ops (length letterBytes) w) < length letterBytes"
    and "try_code ops w = (code, r, w')"
  shows "length code = 10 \<and> set code \<subseteq> set letterBytes"
proof -
  have "code = fst (random_letters ops 10 w)"
    using assms(2) by (auto simp: try_code_def GenerateRandomString_def split: prod.splits)
  then show ?thesis using random_letters_ok[of ops 10 w, OF assms(1)] by simp
qed

subsection \<open>Joins that interleave\<close>

text \<open>
  A request reads the members, and later writes the list it computed from what it read. The state
  holds the members of the group's document and where each request is.
\<close>

datatype join_session = Reading string | Writing string "string list" | Replied string

record join_state =
  js_members :: "string list"
  js_pc :: "nat \<Rightarrow> join_session"

inductive join_step :: "join_state \<Rightarrow> join_state \<Rightarrow> bool" where
  join_refuse: "js_pc s i = Reading sub \<Longrightarrow> join_decision sub (js_members s) = Inl msg \<Longrightarrow>
    join_step s (s\<lparr>js_pc := (js_pc s)(i := Replied msg)\<rparr>)"
| join_read: "js_pc s i = Reading sub \<Longrightarrow> join_decision sub (js_members s) = Inr members \<Longrightarrow>
    join_step s (s\<lparr>js_pc := (js_pc s)(i := Writing sub members)\<rparr>)"
| join_write: "js_pc s i = Writing sub members \<Longrightarrow>
    join_step s (s\<lparr>js_members := members, js_pc := (js_pc s)(i := Replied ''Joined group successfully'')\<rparr>)"

inductive_cases join_stepE: "join_step s s'"

definition members_ok :: "string list \<Rightarrow> string list \<Rightarrow> bool" where
  "members_ok start ms \<longleftrightarrow> length ms \<le> MAX_GROUP_MEMBERS \<and> distinct ms \<and> prefix start ms"

definition join_inv :: "string list \<Rightarrow> join_state \<Rightarrow> bool" where
  "join_inv start s \<longleftrightarrow> members_ok start (js_members s) \<and>
     (\<forall>i sub ms. js_pc s i = Writing sub ms \<longrightarrow> members_ok start ms)"

lemma join_decision_ok:
  "members_ok start ms \<Longrightarrow> join_decision sub ms = Inr ms' \<Longrightarrow> members_ok start ms'"
  by (auto simp: members_ok_def join_decision_def split: if_splits)

lemma join_step_inv: "join_step s s' \<Longrightarrow> join_inv start s \<Longrightarrow> join_inv start s'"
  by (induction rule: join_step.induct) (auto simp: join_inv_def join_decision_ok)

lemma join_reachable_ok: "rtranclp join_step s s' \<Longrightarrow> join_inv start s \<Longrightarrow> join_inv start s'"
  by (induction rule: rtranclp_induct) (auto intro: join_step_inv)

lemma members_ok_start: "length ms \<le> MAX_GROUP_MEMBERS \<Longrightarrow> distinct ms \<Longrightarrow> members_ok ms ms"
  by (simp add: members_ok_def)

subsection \<open>Requests in sequence\<close>

datatype group_request = CreateReq gin_ctx | JoinReq gin_ctx

fun group_handler ::
  "'w group_ops \<Rightarrow> (string \<Rightarrow> string option \<times> user_data) \<Rightarrow> group_request \<Rightarrow> ('w, gin_ctx) io" where
  "group_handler ops unmarshal (CreateReq c) = CreateRunnerGroup ops unmarshal c"
| "group_handler ops unmarshal (JoinReq c) = JoinRunnerGroup ops unmarshal c"

fun group_requests ::
  "'w group_ops \<Rightarrow> (string \<Rightarrow> string option \<times> user_data) \<Rightarrow> group_request list \<Rightarrow> ('w, gin_ctx list) io" where
  "group_requests ops unmarshal [] = io_return []"
| "group_requests ops unmarshal (r # rs) =
     io_bind (group_handler ops unmarshal r) (\<lambda>c.
       io_bind (group_requests ops unmarshal rs) (\<lambda>cs. io_return (c # cs)))"

text \<open>
  What MongoDB promises of \<open>FindOne\<close> with a filter of equalities, on a collection that holds the documents
  of this program's groups: in the document that it returns every field of the filter has the asked
  value, or is an array with it.
\<close>

definition field_matches :: "document \<Rightarrow> string \<times> string \<Rightarrow> bool" where
  "field_matches d kv \<longleftrightarrow> map_of d (fst kv) = Some (BString (snd kv)) \<or>
     (\<exists>vs. map_of d (fst kv) = Some (BArray vs) \<and> snd kv \<in> set vs)"

definition finds_by_document :: "'w group_ops \<Rightarrow> bool" where
  "finds_by_document ops \<longleftrightarrow> (\<forall>f w g w'. db_FindOne ops RUNNER_DATABASE RUNNER_GROUP_COLLECTION f w = (Found g, w') \<longrightarrow>
     (\<forall>kv\<in>set f. field_matches (RunnerGroupSchema_document g) kv))"

lemma no_field_no_match: "k \<notin> fst ` set d \<Longrightarrow> \<not> field_matches d (k, v)"
  by (force simp: field_matches_def dest: map_of_SomeD)

text \<open>No group's document has the field \<open>code\<close>: the struct's fields have no \<open>bson\<close> tags.\<close>

lemma group_has_no_code: "''code'' \<notin> fst ` set (RunnerGroupSchema_document g)"
proof -
  have "fst ` set (RunnerGroupSchema_document g) = set (map fst (RunnerGroupSchema_document g))"
    by (rule set_map[symmetric])
  then show ?thesis by simp
qed

lemma finds_no_code:
  assumes "finds_by_document ops"
  shows "fst (db_FindOne ops RUNNER_DATABASE RUNNER_GROUP_COLLECTION [(''code'', code)] w) \<noteq> Found g"
proof
  assume "fst (db_FindOne ops RUNNER_DATABASE RUNNER_GROUP_COLLECTION [(''code'', code)] w) = Found g"
  then obtain w' where "db_FindOne ops RUNNER_DATABASE RUNNER_GROUP_COLLECTION [(''code'', code)] w = (Found g, w')"
    by (metis prod.collapse)
  then have "field_matches (RunnerGroupSchema_document g) (''code'', code)"
    using assms unfolding finds_by_document_def by (metis list.set_intros(1))
  then show False using no_field_no_match[OF group_has_no_code] by blast
qed

text \<open>What the search for a code keeps: lookups of a code and random numbers.\<close>

definition search_keeps :: "'w group_ops \<Rightarrow> ('w \<Rightarrow> bool) \<Rightarrow> bool" where
  "search_keeps ops good \<longleftrightarrow>
     (\<forall>code w. good w \<longrightarrow> good (snd (db_FindOne ops RUNNER_DATABASE RUNNER_GROUP_COLLECTION [(''code'', code)] w))) \<and>
     (\<forall>n w. good w \<longrightarrow> good (snd (rand_Intn ops n w)))"

lemma random_letters_inv:
  assumes "search_keeps ops good"
  shows "good w \<Longrightarrow> good (snd (random_letters ops n w))"
proof (induction n arbitrary: w)
  case (Suc n)
  have "good (snd (rand_Intn ops (length letterBytes) w))" using assms Suc.prems by (simp add: search_keeps_def)
  then show ?case using Suc.IH by (simp add: split_beta)
qed simp

lemma try_code_inv:
  assumes "search_keeps ops good" "good w"
  shows "good (snd (snd (try_code ops w)))"
  using random_letters_inv[OF assms, of 10] assms(1)
  by (simp add: try_code_def GenerateRandomString_def split_beta search_keeps_def)

lemma found_after_inv:
  assumes "search_keeps ops good"
  shows "good w \<Longrightarrow> found_after ops w k code w' \<Longrightarrow> good w'"
proof (induction k arbitrary: w)
  case 0
  then show ?case using try_code_inv[OF assms 0(1)] by (simp add: found_after_0)
next
  case (Suc k)
  then show ?case using try_code_inv[OF assms Suc.prems(1)] Suc.IH[of "next_try ops w"]
    by (simp add: found_after_Suc next_try_def)
qed

lemma CreateCode_keeps:
  assumes "search_keeps ops good" "CreateCode ops w = Some (code, w')" "good w"
  shows "good w'"
proof -
  obtain k where "found_after ops w k code w'" using CreateCode_iff[of ops w code w'] assms(2) by blast
  then show ?thesis by (rule found_after_inv[OF assms(1,3)])
qed

lemma join_not_found:
  assumes "finds_by_document ops"
  shows "\<exists>err w'. JoinRunnerGroup ops unmarshal c w = (Done (AbortWithError 500 err c), w') \<and>
    (w' = w \<or> w' = snd (db_FindOne ops RUNNER_DATABASE RUNNER_GROUP_COLLECTION [(''code'', ctx_Param ''groupCode'' c)] w))"
proof -
  let ?find = "db_FindOne ops RUNNER_DATABASE RUNNER_GROUP_COLLECTION [(''code'', ctx_Param ''groupCode'' c)] w"
  obtain r w1 where "?find = (r, w1)" by (cases ?find)
  then show ?thesis using finds_no_code[OF assms, of "ctx_Param ''groupCode'' c" w]
    by (auto simp: JoinRunnerGroup_def Let_def status_defs split: prod.splits option.splits find_result.splits)
qed

lemma create_success:
  assumes "CreateRunnerGroup ops unmarshal c w = (Done c', w')"
    and "ctx_replies c' = ctx_replies c @ [Json 201 body]"
  shows "\<exists>u g w2. unmarshal (GetHeader ''userData'' c) = (None, u) \<and> grp_Owner g = ud_Sub u \<and>
    grp_Members g = [ud_Sub u] \<and> db_InsertOne ops RUNNER_DATABASE RUNNER_GROUP_COLLECTION g w2 = (None, w')"
  using assms
  by (auto simp: CreateRunnerGroup_def Let_def status_defs split: prod.splits option.splits sum.splits)
    (metis runner_group.select_convs(4,5))

subsection \<open>Properties\<close>

text \<open>C18: However many joins of a group interleave, the group never has more than 16 members, no member
  twice, and none of those it started with (its owner among them) is ever lost.\<close>

theorem join_members_bounded:
  assumes "rtranclp join_step s s'" "\<And>i. \<exists>sub. js_pc s i = Reading sub"
    and "length (js_members s) \<le> 16" "distinct (js_members s)"
  shows "length (js_members s') \<le> 16 \<and> distinct (js_members s') \<and> prefix (js_members s) (js_members s')"
proof -
  have "\<not> js_pc s i = Writing sub ms" for i sub ms using assms(2)[of i] by auto
  then have "join_inv (js_members s) s"
    using assms(3,4) by (simp add: join_inv_def members_ok_start MAX_GROUP_MEMBERS_def)
  from join_reachable_ok[OF assms(1) this] show ?thesis
    by (simp add: join_inv_def members_ok_def MAX_GROUP_MEMBERS_def)
qed

text \<open>Two requests that both read before either writes.\<close>

definition join_start :: "string list \<Rightarrow> string \<Rightarrow> string \<Rightarrow> join_state" where
  "join_start ms a b = \<lparr>js_members = ms, js_pc = (\<lambda>i. Reading (if i = 0 then a else b))\<rparr>"

lemma join_race:
  assumes "a \<notin> set ms" "b \<notin> set ms" "length ms \<noteq> MAX_GROUP_MEMBERS"
  shows "\<exists>s. rtranclp join_step (join_start ms a b) s \<and> js_members s = ms @ [b] \<and>
    js_pc s 0 = Replied ''Joined group successfully'' \<and> js_pc s 1 = Replied ''Joined group successfully''"
proof -
  let ?pc0 = "\<lambda>i :: nat. Reading (if i = 0 then a else b)"
  let ?pc1 = "?pc0(0 := Writing a (ms @ [a]))"
  let ?pc2 = "?pc1(1 := Writing b (ms @ [b]))"
  let ?pc3 = "?pc2(0 := Replied ''Joined group successfully'')"
  let ?pc4 = "?pc3(1 := Replied ''Joined group successfully'')"
  have "join_step \<lparr>js_members = ms, js_pc = ?pc0\<rparr> \<lparr>js_members = ms, js_pc = ?pc1\<rparr>"
    using join_read[of "\<lparr>js_members = ms, js_pc = ?pc0\<rparr>" 0 a "ms @ [a]"] assms
    by (simp add: join_decision_def)
  moreover have "join_step \<lparr>js_members = ms, js_pc = ?pc1\<rparr> \<lparr>js_members = ms, js_pc = ?pc2\<rparr>"
    using join_read[of "\<lparr>js_members = ms, js_pc = ?pc1\<rparr>" 1 b "ms @ [b]"] assms
    by (simp add: join_decision_def)
  moreover have "join_step \<lparr>js_members = ms, js_pc = ?pc2\<rparr> \<lparr>js_members = ms @ [a], js_pc = ?pc3\<rparr>"
    using join_write[of "\<lparr>js_members = ms, js_pc = ?pc2\<rparr>" 0 a "ms @ [a]"] by simp
  moreover have "join_step \<lparr>js_members = ms @ [a], js_pc = ?pc3\<rparr> \<lparr>js_members = ms @ [b], js_pc = ?pc4\<rparr>"
    using join_write[of "\<lparr>js_members = ms @ [a], js_pc = ?pc3\<rparr>" 1 b "ms @ [b]"] by simp
  ultimately have "rtranclp join_step (join_start ms a b) \<lparr>js_members = ms @ [b], js_pc = ?pc4\<rparr>"
    unfolding join_start_def by (meson rtranclp.rtrancl_into_rtrancl rtranclp.rtrancl_refl)
  then show ?thesis by (intro exI[of _ "\<lparr>js_members = ms @ [b], js_pc = ?pc4\<rparr>"]) simp
qed

lemma join_reachable_start:
  "length ms \<le> 16 \<Longrightarrow> distinct ms \<Longrightarrow> rtranclp join_step (join_start ms a b) s \<Longrightarrow> length (js_members s) \<le> 16"
  using join_reachable_ok[of "join_start ms a b" s ms] members_ok_start[of ms]
  by (simp add: join_inv_def join_start_def members_ok_def MAX_GROUP_MEMBERS_def)

theorem join_members_bounded_witness:
  "\<exists>s. rtranclp join_step (join_start [''owner''] ''a'' ''b'') s \<and> js_members s = [''owner'', ''b''] \<and>
    prefix [''owner''] (js_members s)"
proof -
  obtain s where s: "rtranclp join_step (join_start [''owner''] ''a'' ''b'') s" "js_members s = [''owner'', ''b'']"
    using join_race[of "''a''" "[''owner'']" "''b''"] by (auto simp: MAX_GROUP_MEMBERS_def)
  show ?thesis
    using join_members_bounded[OF s(1)] s by (intro exI[of _ s]) (auto simp: join_start_def)
qed

text \<open>A join can be lost: two users who join at the same time can both be told that they joined
  although only one of them is then a member.\<close>

lemma join_lost_update:
  assumes "a \<notin> set ms" "b \<notin> set ms" "a \<noteq> b" "length ms < 16"
  shows "\<exists>s. rtranclp join_step (join_start ms a b) s \<and> a \<notin> set (js_members s) \<and> b \<in> set (js_members s) \<and>
    js_pc s 0 = Replied ''Joined group successfully'' \<and> js_pc s 1 = Replied ''Joined group successfully''"
  using join_race[OF assms(1,2)] assms by (auto simp: MAX_GROUP_MEMBERS_def)

lemma join_lost_update_witness:
  "\<exists>s. rtranclp join_step (join_start [''owner''] ''a'' ''b'') s \<and> ''a'' \<notin> set (js_members s) \<and>
    js_pc s 0 = Replied ''Joined group successfully''"
  using join_lost_update[of "''a''" "[''owner'']" "''b''"] by auto

text \<open>C31: Alone on the database, a join is the steps of the interleaving model: the handler's reply is
  the step's, and the members in the database are those of the state.\<close>

theorem JoinRunnerGroup_refines_steps:
  assumes "\<And>w. db_FindOne ops RUNNER_DATABASE RUNNER_GROUP_COLLECTION [(''code'', ctx_Param ''groupCode'' c)] w =
      (Found (grp w), w)"
    and "\<And>ms w. db_SetMembers ops RUNNER_DATABASE RUNNER_GROUP_COLLECTION [(''code'', ctx_Param ''groupCode'' c)] ms w =
      (None, store ms w) \<and> grp_Members (grp (store ms w)) = ms"
    and "unmarshal (GetHeader ''userData'' c) = (None, u)" "pc i = Reading (ud_Sub u)"
  shows "\<exists>msg w'. JoinRunnerGroup ops unmarshal c w = (Done (ctx_JSON 200 (Message msg) c), w') \<and>
    rtranclp join_step \<lparr>js_members = grp_Members (grp w), js_pc = pc\<rparr>
      \<lparr>js_members = grp_Members (grp w'), js_pc = pc(i := Replied msg)\<rparr>"
proof (cases "join_decision (ud_Sub u) (grp_Members (grp w))")
  case (Inl msg)
  then have "join_step \<lparr>js_members = grp_Members (grp w), js_pc = pc\<rparr>
      \<lparr>js_members = grp_Members (grp w), js_pc = pc(i := Replied msg)\<rparr>"
    using join_refuse[of "\<lparr>js_members = grp_Members (grp w), js_pc = pc\<rparr>" i "ud_Sub u" msg] assms(4) by simp
  then show ?thesis using assms(1,3) Inl
    by (intro exI[of _ msg] exI[of _ w]) (simp add: JoinRunnerGroup_def Let_def status_defs)
next
  case (Inr ms)
  let ?s0 = "\<lparr>js_members = grp_Members (grp w), js_pc = pc\<rparr>"
  let ?s1 = "\<lparr>js_members = grp_Members (grp w), js_pc = pc(i := Writing (ud_Sub u) ms)\<rparr>"
  let ?s2 = "\<lparr>js_members = ms, js_pc = pc(i := Replied ''Joined group successfully'')\<rparr>"
  have "join_step ?s0 ?s1" using join_read[of ?s0 i "ud_Sub u" ms] assms(4) Inr by simp
  moreover have "join_step ?s1 ?s2" using join_write[of ?s1 i "ud_Sub u" ms] by simp
  ultimately have "rtranclp join_step ?s0 ?s2" by (meson rtranclp.rtrancl_into_rtrancl rtranclp.rtrancl_refl)
  then show ?thesis using assms(1-3) Inr
    by (intro exI[of _ "''Joined group successfully''"] exI[of _ "store ms w"])
      (simp add: JoinRunnerGroup_def Let_def status_defs)
qed

text \<open>
  A database of one group that answers to the code, for examples.
\<close>

definition one_group :: "runner_group group_ops" where
  "one_group = \<lparr>db_FindOne = (\<lambda>_ _ _ w. (Found w, w)), db_InsertOne = (\<lambda>_ _ g w. (None, g)),
     db_SetMembers = (\<lambda>_ _ _ ms w. (None, w\<lparr>grp_Members := ms\<rparr>)),
     rand_Intn = (\<lambda>n w. (0, w)), now_UnixMilli = (\<lambda>w. (0, w)), bind_JSON = Inr\<rparr>"

definition some_group :: runner_group where
  "some_group = \<lparr>grp_GroupName = ''g'', grp_GroupCode = ''c'', grp_CreatedAt = 0, grp_Members = [''owner''],
     grp_Owner = ''owner''\<rparr>"

definition sub_only :: "string \<Rightarrow> string option \<times> user_data" where
  "sub_only s = (None, zero_user_data\<lparr>ud_Sub := s\<rparr>)"

theorem JoinRunnerGroup_refines_steps_witness:
  "\<exists>msg w'. JoinRunnerGroup one_group sub_only (request_with [(''Userdata'', ''a'')]) some_group =
    (Done (ctx_JSON 200 (Message msg) (request_with [(''Userdata'', ''a'')])), w')"
proof -
  let ?c = "request_with [(''Userdata'', ''a'')]"
  have "\<exists>msg w'. JoinRunnerGroup one_group sub_only ?c some_group = (Done (ctx_JSON 200 (Message msg) ?c), w') \<and>
    rtranclp join_step \<lparr>js_members = grp_Members some_group, js_pc = \<lambda>_. Reading ''a''\<rparr>
      \<lparr>js_members = grp_Members w', js_pc = (\<lambda>_. Reading ''a'')(0 := Replied msg)\<rparr>"
    by (rule JoinRunnerGroup_refines_steps[where grp = "\<lambda>w. w" and store = "\<lambda>ms w. w\<lparr>grp_Members := ms\<rparr>"
          and u = "zero_user_data\<lparr>ud_Sub := ''a''\<rparr>"])
      (simp_all add: one_group_def sub_only_def GetHeader_def header_Get_def request_with_def canonical_keys)
  then show ?thesis by blast
qed

text \<open>C32: \<open>CreateCode\<close> returns exactly if one of its attempts finds no group, with the code of the first
  such attempt, and else loops for ever; a code has ten letters.\<close>

theorem CreateCode_correct:
  assumes "\<And>w. fst (rand_Intn ops (length letterBytes) w) < length letterBytes"
  shows "(CreateCode ops w = Some (code, w') \<longleftrightarrow>
      (\<exists>k. try_code ops ((next_try ops ^^ k) w) = (code, NoDocuments, w') \<and>
        (\<forall>j<k. fst (snd (try_code ops ((next_try ops ^^ j) w))) \<noteq> NoDocuments))) \<and>
    (CreateCode ops w = Some (code, w') \<longrightarrow> length code = 10 \<and> set code \<subseteq> set letterBytes)"
  using CreateCode_iff[of ops w code w'] try_code_ok[OF assms] unfolding found_after_def by blast

text \<open>A world that counts attempts; the third finds an unused code.\<close>

definition third_free :: "nat group_ops" where
  "third_free = \<lparr>db_FindOne = (\<lambda>_ _ _ w. (if w < 2 then Found some_group else NoDocuments, w + 1)),
     db_InsertOne = (\<lambda>_ _ _ w. (None, w)), db_SetMembers = (\<lambda>_ _ _ _ w. (None, w)),
     rand_Intn = (\<lambda>n w. (w mod n, w)), now_UnixMilli = (\<lambda>w. (0, w)), bind_JSON = Inr\<rparr>"

lemma third_free_try:
  "try_code third_free w = (replicate 10 (letterBytes ! (w mod 52)), if w < 2 then Found some_group else NoDocuments, w + 1)"
proof -
  have "random_letters third_free n w = (replicate n (letterBytes ! (w mod 52)), w)" for n
    by (induction n) (simp_all add: third_free_def letterBytes_def)
  then show ?thesis by (simp add: try_code_def GenerateRandomString_def) (simp add: third_free_def)
qed

theorem CreateCode_correct_witness:
  "CreateCode third_free 0 = Some (replicate 10 CHR ''c'', 3)"
proof -
  have "fst (rand_Intn third_free (length letterBytes) w) < length letterBytes" for w
    by (simp add: third_free_def letterBytes_def)
  note * = CreateCode_correct[of third_free, OF this, of 0 "replicate 10 CHR ''c''" 3]
  have "next_try third_free w = w + 1" for w by (simp add: next_try_def third_free_try)
  then have "(next_try third_free ^^ k) 0 = k" for k by (induction k) simp_all
  then have "\<exists>k. try_code third_free ((next_try third_free ^^ k) 0) = (replicate 10 CHR ''c'', NoDocuments, 3) \<and>
      (\<forall>j<k. fst (snd (try_code third_free ((next_try third_free ^^ j) 0))) \<noteq> NoDocuments)"
    by (intro exI[of _ 2]) (auto simp: third_free_try letterBytes_def)
  then show ?thesis using * by blast
qed

text \<open>C33: No group can be joined. The fields of the struct have no \<open>bson\<close> tags, so the stored documents
  have no field \<open>code\<close>, under which the handlers look for a group: whatever requests were served before,
  every join is answered with error 500 and writes nothing, and no attempt of \<open>CreateCode\<close> ever finds its
  code in use.\<close>

theorem join_never_succeeds:
  assumes "finds_by_document ops" "group_requests ops unmarshal reqs w = (Done cs, w')"
  shows "list_all2 (\<lambda>r c'. case r of CreateReq c \<Rightarrow> True | JoinReq c \<Rightarrow> \<exists>err. c' = AbortWithError 500 err c) reqs cs \<and>
    (\<forall>c v. snd (JoinRunnerGroup ops unmarshal c v) \<in>
      {v, snd (db_FindOne ops RUNNER_DATABASE RUNNER_GROUP_COLLECTION [(''code'', ctx_Param ''groupCode'' c)] v)}) \<and>
    (\<forall>v g. fst (snd (try_code ops v)) \<noteq> Found g)"
proof (intro conjI allI)
  show "list_all2 (\<lambda>r c'. case r of CreateReq c \<Rightarrow> True | JoinReq c \<Rightarrow> \<exists>err. c' = AbortWithError 500 err c) reqs cs"
    using assms(2)
  proof (induction reqs arbitrary: w cs)
    case (Cons r reqs)
    obtain c1 w1 cs1 where step: "group_handler ops unmarshal r w = (Done c1, w1)"
        "group_requests ops unmarshal reqs w1 = (Done cs1, w')" "cs = c1 # cs1"
      using Cons.prems by (auto simp: io_bind_Done_iff)
    have "\<exists>err. c1 = AbortWithError 500 err c" if "r = JoinReq c" for c
      using step(1) that join_not_found[OF assms(1), of unmarshal c w] by auto
    then show ?case using Cons.IH step by (auto split: group_request.split)
  qed simp
  show "snd (JoinRunnerGroup ops unmarshal c v) \<in>
      {v, snd (db_FindOne ops RUNNER_DATABASE RUNNER_GROUP_COLLECTION [(''code'', ctx_Param ''groupCode'' c)] v)}" for c v
    using join_not_found[OF assms(1), of unmarshal c v] by auto
  show "fst (snd (try_code ops v)) \<noteq> Found g" for v g
    using finds_no_code[OF assms(1)] by (simp add: try_code_def split_beta)
qed

text \<open>A database that keeps the groups and compares the fields of their documents.\<close>

definition doc_db :: "runner_group list group_ops" where
  "doc_db = \<lparr>db_FindOne = (\<lambda>_ _ f w.
       (case find (\<lambda>g. list_all (\<lambda>(k, v). map_of (RunnerGroupSchema_document g) k = Some (BString v)) f) w of
          None \<Rightarrow> NoDocuments | Some g \<Rightarrow> Found g, w)),
     db_InsertOne = (\<lambda>_ _ g w. (None, w @ [g])), db_SetMembers = (\<lambda>_ _ _ _ w. (None, w)),
     rand_Intn = (\<lambda>n w. (0, w)), now_UnixMilli = (\<lambda>w. (0, w)), bind_JSON = Inr\<rparr>"

lemma doc_db_finds: "finds_by_document doc_db"
  by (auto simp: finds_by_document_def doc_db_def field_matches_def find_Some_iff list_all_iff
      split: option.splits)

text \<open>The group can be found by a field that its document has, but not joined by its code.\<close>

theorem join_never_succeeds_witness:
  "fst (db_FindOne doc_db RUNNER_DATABASE RUNNER_GROUP_COLLECTION [(''groupcode'', ''c'')] [some_group]) = Found some_group \<and>
   (\<exists>err w'. group_requests doc_db sub_only [JoinReq (request_with [(''Userdata'', ''a'')])] [some_group] =
      (Done [AbortWithError 500 err (request_with [(''Userdata'', ''a'')])], w'))"
proof
  show "fst (db_FindOne doc_db RUNNER_DATABASE RUNNER_GROUP_COLLECTION [(''groupcode'', ''c'')] [some_group]) = Found some_group"
    by (simp add: doc_db_def RunnerGroupSchema_document_def document_keys some_group_def)
  let ?c = "request_with [(''Userdata'', ''a'')]"
  obtain err w' where "JoinRunnerGroup doc_db sub_only ?c [some_group] = (Done (AbortWithError 500 err ?c), w')"
    using join_not_found[OF doc_db_finds, where unmarshal = sub_only and c = ?c and w = "[some_group]"] by auto
  then have run: "group_requests doc_db sub_only [JoinReq ?c] [some_group] = (Done [AbortWithError 500 err ?c], w')"
    by (simp add: io_bind_def)
  from join_never_succeeds[OF doc_db_finds run] run
  show "\<exists>err w'. group_requests doc_db sub_only [JoinReq ?c] [some_group] = (Done [AbortWithError 500 err ?c], w')" by blast
qed

text \<open>C34: A client can create a group in the name of another user: behind \<open>UserInfoMiddleware\<close>, the owner
  and only member of the created group is the user named in the client's own \<open>userData\<close> header,
  whoever holds the token.\<close>

theorem group_owner_from_client_header:
  assumes "map_of (ctx_Header c) ''Userdata'' = Some v"
    and "user_info_handler net conf (CreateRunnerGroup ops (dec_UserData net)) c w = (Done c', w')"
    and "\<exists>c1. ctx_replies c' = ctx_replies c1 @ [Json 201 body] \<and> ctx_replies c1 = ctx_replies c"
  shows "\<exists>victim g w2. dec_UserData net v = (None, victim) \<and> grp_Owner g = ud_Sub victim \<and>
    grp_Members g = [ud_Sub victim] \<and>
    db_InsertOne ops RUNNER_DATABASE RUNNER_GROUP_COLLECTION g w2 = (None, w')"
proof -
  obtain u p w3 where
    "CreateRunnerGroup ops (dec_UserData net)
      (c\<lparr>ctx_Header := header_Add ''userPermissions'' p (header_Add ''userData'' u (ctx_Header c))\<rparr>) w3 = (Done c', w')"
    using assms(2) by (rule user_info_cases)
  from create_success[OF this, of body] assms(1,3) show ?thesis
    by (auto simp: GetHeader_def header_Get_def map_of_header_Add canonical_keys)
qed

text \<open>A database over the world of the example network.\<close>

definition log_db :: "string option group_ops" where
  "log_db = \<lparr>db_FindOne = (\<lambda>_ _ _ w. (NoDocuments, w)), db_InsertOne = (\<lambda>_ _ g w. (None, Some (grp_Owner g))),
     db_SetMembers = (\<lambda>_ _ _ _ w. (None, w)),
     rand_Intn = (\<lambda>n w. (0, w)), now_UnixMilli = (\<lambda>w. (0, w)), bind_JSON = Inr\<rparr>"

theorem group_owner_from_client_header_witness:
  "\<exists>c' victim. fst (user_info_handler example_net example_conf (CreateRunnerGroup log_db (dec_UserData example_net))
      (request_with [(''Authorization'', ''good''), (''Userdata'', ''victim'')]) None) = Done c' \<and>
    dec_UserData example_net ''victim'' = (None, victim) \<and> ud_Sub victim = ''victim''"
proof -
  let ?h = "[(''Authorization'', ''good''), (''Userdata'', ''victim'')]"
  let ?create = "CreateRunnerGroup log_db (dec_UserData example_net)"
  let ?c1 = "request_with (header_Add ''userPermissions'' ''[]'' (header_Add ''userData'' ''runner'' ?h))"
  have "snd (random_letters log_db n w) = w" for n w
    by (induction n) (auto simp: log_db_def split: prod.splits)
  then have "try_code log_db w = (fst (random_letters log_db 10 w), NoDocuments, w)" for w
    by (simp add: try_code_def GenerateRandomString_def split_beta) (simp add: log_db_def)
  then have "CreateCode log_db w = Some (fst (random_letters log_db 10 w), w)" for w
    by (subst CreateCode.simps) simp
  moreover obtain w1 where "user_info_handler example_net example_conf ?create (request_with ?h) None = ?create ?c1 w1"
    using example_user_info[of ?h ?create None] by auto
  ultimately obtain w' where run: "user_info_handler example_net example_conf ?create (request_with ?h) None =
      (Done (ctx_JSON 201 (Message ''Group created successfully'') ?c1), w')"
    by (auto simp: CreateRunnerGroup_def log_db_def example_net_def status_defs Let_def GetHeader_def header_Get_def
        request_with_def map_of_header_Add canonical_keys)
  from group_owner_from_client_header[OF _ run] run show ?thesis
    by (force simp: request_with_def example_net_def)
qed

end
