(* ===== verification/GroupStore.thy ===== *)
theory GroupStore
  imports RunnerGroups
begin

section \<open>The stored groups\<close>

text \<open>
  What every document of the collection of groups satisfies (\<open>group_wf\<close>), whatever requests the two
  handlers answer: the code has ten letters, the owner is a member, no member is listed twice and
  there are at most 16. \<open>store_laws\<close> is what this needs of MongoDB and of \<open>math/rand\<close>, for a view \<open>docs\<close> of
  the world as the stored groups: a lookup changes nothing and finds a stored group, an insertion
  that fails may have stored its document, an update changes nothing but the members of the group that
  the same filter finds, and a random number is within its bound.
\<close>

definition group_wf :: "runner_group \<Rightarrow> bool" where
  "group_wf g \<longleftrightarrow> length (grp_GroupCode g) = 10 \<and> set (grp_GroupCode g) \<subseteq> set letterBytes \<and>
     grp_Owner g \<in> set (grp_Members g) \<and> distinct (grp_Members g) \<and> length (grp_Members g) \<le> MAX_GROUP_MEMBERS"

definition store_laws :: "'w group_ops \<Rightarrow> ('w \<Rightarrow> runner_group set) \<Rightarrow> bool" where
  "store_laws ops docs \<longleftrightarrow>
     (\<forall>d coll f w. docs (snd (db_FindOne ops d coll f w)) = docs w) \<and>
     (\<forall>d coll f w g. fst (db_FindOne ops d coll f w) = Found g \<longrightarrow> g \<in> docs w) \<and>
     (\<forall>d coll g w. docs (snd (db_InsertOne ops d coll g w)) \<subseteq> insert g (docs w)) \<and>
     (\<forall>d coll f ms w g w1. db_FindOne ops d coll f w = (Found g, w1) \<longrightarrow>
        docs (snd (db_SetMembers ops d coll f ms w1)) \<subseteq> insert (g\<lparr>grp_Members := ms\<rparr>) (docs w)) \<and>
     (\<forall>n w. docs (snd (rand_Intn ops n w)) = docs w \<and> (0 < n \<longrightarrow> fst (rand_Intn ops n w) < n)) \<and>
     (\<forall>w. docs (snd (now_UnixMilli ops w)) = docs w)"

lemma store_lawsD:
  assumes "store_laws ops docs"
  shows find_docs: "docs (snd (db_FindOne ops d coll f w)) = docs w"
    and found_doc: "fst (db_FindOne ops d coll f w) = Found g \<Longrightarrow> g \<in> docs w"
    and insert_docs: "docs (snd (db_InsertOne ops d coll g w)) \<subseteq> insert g (docs w)"
    and set_docs: "db_FindOne ops d coll f w = (Found g, w1) \<Longrightarrow>
      docs (snd (db_SetMembers ops d coll f ms w1)) \<subseteq> insert (g\<lparr>grp_Members := ms\<rparr>) (docs w)"
    and rand_docs: "docs (snd (rand_Intn ops n w)) = docs w"
    and rand_bound: "0 < n \<Longrightarrow> fst (rand_Intn ops n w) < n"
    and now_docs: "docs (snd (now_UnixMilli ops w)) = docs w"
proof -
  note laws = assms[unfolded store_laws_def]
  show "docs (snd (db_FindOne ops d coll f w)) = docs w" using laws by simp
  show "fst (db_FindOne ops d coll f w) = Found g \<Longrightarrow> g \<in> docs w" using laws[THEN conjunct2, THEN conjunct1] by iprover
  show "docs (snd (db_InsertOne ops d coll g w)) \<subseteq> insert g (docs w)"
    using laws[THEN conjunct2, THEN conjunct2, THEN conjunct1] by iprover
  show "db_FindOne ops d coll f w = (Found g, w1) \<Longrightarrow>
      docs (snd (db_SetMembers ops d coll f ms w1)) \<subseteq> insert (g\<lparr>grp_Members := ms\<rparr>) (docs w)"
    using laws[THEN conjunct2, THEN conjunct2, THEN conjunct2, THEN conjunct1] by iprover
  show "docs (snd (rand_Intn ops n w)) = docs w" "0 < n \<Longrightarrow> fst (rand_Intn ops n w) < n"
    "docs (snd (now_UnixMilli ops w)) = docs w" using laws by simp_all
qed

lemma search_keeps_docs: "store_laws ops docs \<Longrightarrow> search_keeps ops (\<lambda>w'. docs w' = D)"
  by (simp add: search_keeps_def find_docs rand_docs)

lemma CreateCode_store:
  assumes "store_laws ops docs" "CreateCode ops w = Some (code, w')"
  shows "docs w' = docs w" "length code = 10" "set code \<subseteq> set letterBytes"
proof -
  show "docs w' = docs w" using CreateCode_keeps[OF search_keeps_docs[OF assms(1)] assms(2)] by blast
  have "fst (rand_Intn ops (length letterBytes) w) < length letterBytes" for w
    by (rule rand_bound[OF assms(1)]) (simp add: letterBytes_def)
  moreover obtain k where "found_after ops w k code w'" using assms(2) CreateCode_iff[of ops w code w'] by blast
  ultimately show "length code = 10" "set code \<subseteq> set letterBytes"
    using try_code_ok[of ops] unfolding found_after_def by blast+
qed

subsection \<open>The two handlers\<close>

lemma create_wf:
  assumes "store_laws ops docs" "\<forall>g\<in>docs w. group_wf g"
  shows "\<forall>g\<in>docs (snd (CreateRunnerGroup ops unmarshal c w)). group_wf g"
proof -
  have now: "docs w1 = docs w" if "now_UnixMilli ops w = (t, w1)" for t w1
    using now_docs[OF assms(1), of w] that by simp
  have new: "\<forall>g\<in>docs w3. group_wf g"
    if "now_UnixMilli ops w = (t, w1)" "CreateCode ops w1 = Some (code, w2)"
      and "db_InsertOne ops d coll \<lparr>grp_GroupName = name, grp_GroupCode = code, grp_CreatedAt = t,
        grp_Members = [u], grp_Owner = u\<rparr> w2 = (err, w3)" for t w1 code w2 d coll name u err w3
  proof -
    let ?g = "\<lparr>grp_GroupName = name, grp_GroupCode = code, grp_CreatedAt = t, grp_Members = [u], grp_Owner = u\<rparr>"
    have "docs w3 \<subseteq> insert ?g (docs w)"
      using insert_docs[OF assms(1), of d coll ?g w2] that now CreateCode_store(1)[OF assms(1) that(2)] by simp
    moreover have "group_wf ?g"
      using CreateCode_store(2,3)[OF assms(1) that(2)] by (simp add: group_wf_def MAX_GROUP_MEMBERS_def)
    ultimately show ?thesis using assms(2) by blast
  qed
  show ?thesis
    using assms(2) now
    by (auto simp: CreateRunnerGroup_def Let_def split: prod.splits option.splits sum.splits dest: new[rule_format])
qed

lemma join_wf:
  assumes "store_laws ops docs" "\<forall>g\<in>docs w. group_wf g"
  shows "\<forall>g\<in>docs (snd (JoinRunnerGroup ops unmarshal c w)). group_wf g"
proof -
  let ?f = "[(''code'', ctx_Param ''groupCode'' c)]"
  have find: "docs w1 = docs w" if "db_FindOne ops d coll f w = (r, w1)" for d coll f r w1
    using find_docs[OF assms(1), of d coll f w] that by simp
  have set: "\<forall>g\<in>docs w2. group_wf g"
    if "db_FindOne ops d coll f w = (Found g, w1)" "join_decision sub (grp_Members g) = Inr ms"
      and "db_SetMembers ops d coll f ms w1 = (err, w2)" for d coll f g w1 sub ms err w2
  proof -
    have "group_wf g" using found_doc[OF assms(1), of d coll f w g] that(1) assms(2) by simp
    then have "group_wf (g\<lparr>grp_Members := ms\<rparr>)"
      using that(2) by (auto simp: group_wf_def join_decision_def split: if_splits)
    moreover have "docs w2 \<subseteq> insert (g\<lparr>grp_Members := ms\<rparr>) (docs w)"
      using set_docs[OF assms(1) that(1), of ms] that(3) by simp
    ultimately show ?thesis using assms(2) by blast
  qed
  show ?thesis
    using assms(2) find
    by (auto simp: JoinRunnerGroup_def Let_def split: prod.splits option.splits sum.splits find_result.splits
        dest: set[rule_format])
qed

lemma requests_wf:
  assumes "store_laws ops docs"
  shows "\<forall>g\<in>docs w. group_wf g \<Longrightarrow> \<forall>g\<in>docs (snd (group_requests ops unmarshal rs w)). group_wf g"
proof (induction rs arbitrary: w)
  case (Cons r rs)
  have "\<forall>g\<in>docs (snd (group_handler ops unmarshal r w)). group_wf g"
    using create_wf[OF assms Cons.prems] join_wf[OF assms Cons.prems] by (cases r) auto
  then show ?case using Cons.IH
    by (auto simp: io_bind_def split: prod.splits outcome.splits)
qed (simp add: io_return_def)

subsection \<open>Property\<close>

text \<open>C17: Every stored group keeps its type, whatever requests to create and to join groups are answered, in
  any order and with any outcome: a code of ten letters, an owner who is a member, at most 16
  members and none twice.\<close>

theorem stored_groups_well_formed:
  assumes "store_laws ops docs" "\<forall>g\<in>docs w. group_wf g"
  shows "\<forall>g\<in>docs (snd (group_requests ops unmarshal reqs w)). length (grp_GroupCode g) = 10 \<and>
    set (grp_GroupCode g) \<subseteq> set letterBytes \<and> grp_Owner g \<in> set (grp_Members g) \<and> distinct (grp_Members g) \<and>
    length (grp_Members g) \<le> 16"
  using requests_wf[OF assms] by (simp add: group_wf_def MAX_GROUP_MEMBERS_def)

text \<open>A database that is a list of groups, updates the first that a query finds and knows the codes.\<close>

definition found_index :: "filter_doc \<Rightarrow> runner_group list \<Rightarrow> nat" where
  "found_index f gs = length (takeWhile (\<lambda>g. \<not> set f \<subseteq> {(''code'', grp_GroupCode g)}) gs)"

definition list_db :: "runner_group list group_ops" where
  "list_db = \<lparr>db_FindOne = (\<lambda>_ _ f w. (if found_index f w < length w then Found (w ! found_index f w) else NoDocuments, w)),
     db_InsertOne = (\<lambda>_ _ g w. (None, w @ [g])),
     db_SetMembers = (\<lambda>_ _ f ms w. (None,
       if found_index f w < length w then w[found_index f w := (w ! found_index f w)\<lparr>grp_Members := ms\<rparr>] else w)),
     rand_Intn = (\<lambda>n w. (0, w)), now_UnixMilli = (\<lambda>w. (0, w)), bind_JSON = Inr\<rparr>"

lemma list_db_simps:
  "db_FindOne list_db d coll f w = (if found_index f w < length w then Found (w ! found_index f w) else NoDocuments, w)"
  "db_InsertOne list_db d coll g w = (None, w @ [g])"
  "db_SetMembers list_db d coll f ms w = (None,
     if found_index f w < length w then w[found_index f w := (w ! found_index f w)\<lparr>grp_Members := ms\<rparr>] else w)"
  "rand_Intn list_db n w = (0, w)" "now_UnixMilli list_db w = (0, w)" "bind_JSON list_db t = Inr t"
  by (simp_all add: list_db_def)

lemma list_db_laws: "store_laws list_db set"
  by (auto simp: store_laws_def list_db_def dest: subsetD[OF set_update_subset_insert] split: if_splits)

definition example_requests :: "group_request list" where
  "example_requests = [CreateReq (request_with [(''Userdata'', ''ann'')]),
     JoinReq ((request_with [(''Userdata'', ''bob'')])\<lparr>ctx_Params := [(''groupCode'', ''aaaaaaaaaa'')]\<rparr>)]"

lemma example_requests_run:
  "snd (group_requests list_db sub_only example_requests []) =
    [\<lparr>grp_GroupName = [], grp_GroupCode = ''aaaaaaaaaa'', grp_CreatedAt = 0, grp_Members = [''ann'', ''bob''],
      grp_Owner = ''ann''\<rparr>]"
proof -
  have "random_letters list_db n w = (replicate n (letterBytes ! 0), w)" for n w
    by (induction n) (simp_all add: list_db_simps)
  then have "try_code list_db [] = (''aaaaaaaaaa'', NoDocuments, [])"
    by (simp add: try_code_def GenerateRandomString_def letterBytes_def eval_nat_numeral list_db_simps found_index_def)
  then have "CreateCode list_db [] = Some (''aaaaaaaaaa'', [])" by (simp add: CreateCode.simps)
  then show ?thesis
    by (simp add: example_requests_def CreateRunnerGroup_def JoinRunnerGroup_def sub_only_def request_with_def
        GetHeader_def header_Get_def canonical_keys io_bind_def ctx_Param_def join_decision_def MAX_GROUP_MEMBERS_def
        AbortWithError_def ctx_JSON_def Let_def io_return_def list_db_simps found_index_def)
qed

theorem stored_groups_well_formed_witness:
  "set (snd (group_requests list_db sub_only example_requests [])) \<noteq> {} \<and>
    list_all (\<lambda>g. distinct (grp_Members g) \<and> grp_Owner g \<in> set (grp_Members g))
      (snd (group_requests list_db sub_only example_requests []))"
  using stored_groups_well_formed[OF list_db_laws, of "[]" sub_only example_requests]
  by (simp add: list_all_iff) (simp add: example_requests_run)

end
