(* ===== verification/Amqp.thy ===== *)
theory Amqp
  imports Env
begin

section \<open>The message queue: package amqpconfig\<close>

text \<open>
  RabbitMQ and its client library are a parameter: \<open>amqp_ops\<close> holds the calls the code makes, each
  from the state of the broker to an error (or none) and the next state. The code composes them;
  \<open>and_err\<close> is the early return on an error. \<open>traced\<close> adds a log of the calls to any broker, so that
  the order and the arguments of the calls can be stated.
\<close>

definition EXCHANGE_NAME :: string where
  "EXCHANGE_NAME = ''runner''"

definition LIVE_LINES_QUEUE_NAME :: string where
  "LIVE_LINES_QUEUE_NAME = ''live_lines''"

type_synonym 'b call = "'b \<Rightarrow> string option \<times> 'b"

definition and_err :: "'b call \<Rightarrow> 'b call \<Rightarrow> 'b call" where
  "and_err f g b = (case f b of (Some err, b') \<Rightarrow> (Some err, b') | (None, b') \<Rightarrow> g b')"

text \<open>The flags of a declaration, in the order of the arguments.\<close>

record declare_flags =
  dcl_durable :: bool
  dcl_autoDelete :: bool
  dcl_exclusive :: bool
  dcl_noWait :: bool

record publish_flags =
  pub_mandatory :: bool
  pub_immediate :: bool
  pub_ContentType :: string

text \<open>
  The arguments of \<open>ExchangeDeclare\<close> are the exchange, its kind and the flags (the third is
  \<open>internal\<close> there), those of \<open>QueueBind\<close> the queue, the routing key, the exchange and \<open>noWait\<close>, those
  of \<open>Publish\<close> the exchange, the routing key, the flags and the body.
\<close>

record ('b, 'bytes) amqp_ops =
  amqp_Dial :: "string \<Rightarrow> 'b call"
  amqp_Channel :: "'b call"
  ExchangeDeclare :: "string \<Rightarrow> string \<Rightarrow> declare_flags \<Rightarrow> 'b call"
  QueueDeclare :: "string \<Rightarrow> declare_flags \<Rightarrow> 'b call"
  QueueBind :: "string \<Rightarrow> string \<Rightarrow> string \<Rightarrow> bool \<Rightarrow> 'b call"
  Publish :: "string \<Rightarrow> string \<Rightarrow> publish_flags \<Rightarrow> 'bytes \<Rightarrow> 'b call"

definition exchange_flags :: declare_flags where
  "exchange_flags = \<lparr>dcl_durable = True, dcl_autoDelete = False, dcl_exclusive = False, dcl_noWait = False\<rparr>"

definition queue_flags :: declare_flags where
  "queue_flags = \<lparr>dcl_durable = True, dcl_autoDelete = False, dcl_exclusive = False, dcl_noWait = True\<rparr>"

definition message_flags :: publish_flags where
  "message_flags = \<lparr>pub_mandatory = True, pub_immediate = False, pub_ContentType = ''application/json''\<rparr>"

record amqp_config =
  amqp_Host :: string

definition NewAmqpConfig ::
  "('b, 'bytes) amqp_ops \<Rightarrow> string \<Rightarrow> 'b \<Rightarrow> (string + amqp_config) outcome \<times> 'b" where
  "NewAmqpConfig ops host b =
     (case amqp_Dial ops host b of
        (Some err, b) \<Rightarrow> (Panic (''Failed to connect to RabbitMQ: '' @ err), b)
      | (None, b) \<Rightarrow>
     (case amqp_Channel ops b of
        (Some err, b) \<Rightarrow> (Done (Inl (''Failed to open channel: '' @ err)), b)
      | (None, b) \<Rightarrow>
     (case ExchangeDeclare ops EXCHANGE_NAME ''direct'' exchange_flags b of
        (Some err, b) \<Rightarrow> (Done (Inl (''Failed to declare exchange: '' @ err)), b)
      | (None, b) \<Rightarrow>
     (case QueueDeclare ops LIVE_LINES_QUEUE_NAME queue_flags b of
        (Some err, b) \<Rightarrow> (Done (Inl (''Failed to declare queue: '' @ err)), b)
      | (None, b) \<Rightarrow>
     (case QueueBind ops LIVE_LINES_QUEUE_NAME LIVE_LINES_QUEUE_NAME EXCHANGE_NAME True b of
        (Some err, b) \<Rightarrow> (Done (Inl (''failed to bind a queue: '' @ err)), b)
      | (None, b) \<Rightarrow> (Done (Inr \<lparr>amqp_Host = host\<rparr>), b))))))"

definition DefaultAmqpConfig ::
  "('b, 'bytes) amqp_ops \<Rightarrow> env \<Rightarrow> 'b \<Rightarrow> amqp_config outcome \<times> 'b" where
  "DefaultAmqpConfig ops e b =
     (case GetDotEnvVariable e RABBITMQ_HOST of
        Panic msg \<Rightarrow> (Panic msg, b)
      | Exit \<Rightarrow> (Exit, b)
      | Diverges \<Rightarrow> (Diverges, b)
      | Done host \<Rightarrow>
          (case NewAmqpConfig ops host b of
             (r, b) \<Rightarrow> (and_then r (\<lambda>r. case r of
                 Inl err \<Rightarrow> Panic (''Failed to get amqp config: '' @ err)
               | Inr config \<Rightarrow> Done config), b)))"

text \<open>The queue that is bound is named by the routing key.\<close>

definition DeclareAndBindQueue :: "('b, 'bytes) amqp_ops \<Rightarrow> string \<Rightarrow> string \<Rightarrow> 'b call" where
  "DeclareAndBindQueue ops queueName routingKey =
     and_err (QueueDeclare ops queueName queue_flags) (QueueBind ops routingKey routingKey EXCHANGE_NAME True)"

definition PublishWithContext :: "('b, 'bytes) amqp_ops \<Rightarrow> 'bytes \<Rightarrow> string \<Rightarrow> bool \<Rightarrow> 'b call" where
  "PublishWithContext ops data routingKey declareQueue =
     (if declareQueue
      then and_err (DeclareAndBindQueue ops routingKey routingKey)
        (Publish ops EXCHANGE_NAME routingKey message_flags data)
      else Publish ops EXCHANGE_NAME routingKey message_flags data)"

subsection \<open>Traces of calls\<close>

datatype 'bytes amqp_event =
    Dialed string | ChannelOpened | ExchangeDeclared string | QueueDeclared string
  | QueueBound string string string | Published string string 'bytes

definition logged :: "'e \<Rightarrow> 'b call \<Rightarrow> ('b \<times> 'e list) call" where
  "logged e f s = (case f (fst s) of (err, b) \<Rightarrow> (err, (b, snd s @ [e])))"

definition traced :: "('b, 'bytes) amqp_ops \<Rightarrow> ('b \<times> 'bytes amqp_event list, 'bytes) amqp_ops" where
  "traced ops = \<lparr>
     amqp_Dial = (\<lambda>host. logged (Dialed host) (amqp_Dial ops host)),
     amqp_Channel = logged ChannelOpened (amqp_Channel ops),
     ExchangeDeclare = (\<lambda>x kind f. logged (ExchangeDeclared x) (ExchangeDeclare ops x kind f)),
     QueueDeclare = (\<lambda>q f. logged (QueueDeclared q) (QueueDeclare ops q f)),
     QueueBind = (\<lambda>q k x noWait. logged (QueueBound q k x) (QueueBind ops q k x noWait)),
     Publish = (\<lambda>x k f d. logged (Published x k d) (Publish ops x k f d))\<rparr>"

text \<open>The calls of a publication, one after the other; a failing call is the last.\<close>

definition publish_calls :: "'bytes \<Rightarrow> string \<Rightarrow> 'bytes amqp_event list" where
  "publish_calls data key =
     [QueueDeclared key, QueueBound key key EXCHANGE_NAME, Published EXCHANGE_NAME key data]"

lemma traced_same_error:
  "fst (PublishWithContext (traced ops) m key True (b, evs)) = fst (PublishWithContext ops m key True b)"
  by (simp add: PublishWithContext_def DeclareAndBindQueue_def and_err_def traced_def logged_def split: prod.split option.split)

lemma publish_traced:
  "\<exists>n b'. 0 < n \<and> n \<le> 3 \<and>
     snd (PublishWithContext (traced ops) data key True (b, evs)) = (b', evs @ take n (publish_calls data key)) \<and>
     (fst (PublishWithContext (traced ops) data key True (b, evs)) = None \<longrightarrow> n = 3)"
proof -
  obtain e1 b1 where 1: "QueueDeclare ops key queue_flags b = (e1, b1)" by (cases "QueueDeclare ops key queue_flags b")
  obtain e2 b2 where 2: "QueueBind ops key key EXCHANGE_NAME True b1 = (e2, b2)"
    by (cases "QueueBind ops key key EXCHANGE_NAME True b1")
  obtain e3 b3 where 3: "Publish ops EXCHANGE_NAME key message_flags data b2 = (e3, b3)"
    by (cases "Publish ops EXCHANGE_NAME key message_flags data b2")
  note defs = PublishWithContext_def DeclareAndBindQueue_def and_err_def traced_def logged_def
    publish_calls_def 1 2 3
  show ?thesis
  proof (cases e1)
    case (Some err)
    then show ?thesis by (intro exI[of _ 1] exI[of _ b1]) (simp add: defs)
  next
    case None
    note e1 = None
    show ?thesis
    proof (cases e2)
      case (Some err)
      then show ?thesis using e1 by (intro exI[of _ 2] exI[of _ b2]) (simp add: defs numeral_2_eq_2)
    next
      case None
      then show ?thesis using e1 by (intro exI[of _ 3] exI[of _ b3]) (simp add: defs numeral_3_eq_3)
    qed
  qed
qed

subsection \<open>Properties\<close>

text \<open>A publication declares the queue named by the routing key, binds it to the exchange under
  that key and then publishes, in this order; it stops at the first call that fails, and succeeds
  only if all three were made.\<close>

lemma PublishWithContext_order:
  "\<exists>n b'. 0 < n \<and> n \<le> 3 \<and>
     snd (PublishWithContext (traced ops) data key True (b, evs)) =
       (b', evs @ take n [QueueDeclared key, QueueBound key key EXCHANGE_NAME,
         Published EXCHANGE_NAME key data]) \<and>
     (fst (PublishWithContext (traced ops) data key True (b, evs)) \<noteq> None \<or> n = 3)"
  using publish_traced[of ops data key b evs] unfolding publish_calls_def by blast

definition quiet_broker :: "(nat, string) amqp_ops" where
  "quiet_broker = \<lparr>amqp_Dial = (\<lambda>_ b. (None, b)), amqp_Channel = (\<lambda>b. (None, b)),
     ExchangeDeclare = (\<lambda>_ _ _ b. (None, b)), QueueDeclare = (\<lambda>_ _ b. (None, b)),
     QueueBind = (\<lambda>_ _ _ _ b. (None, b)), Publish = (\<lambda>_ _ _ _ b. (None, b + 1))\<rparr>"

lemma PublishWithContext_order_witness:
  "\<exists>n b'. snd (PublishWithContext (traced quiet_broker) ''data'' ''g'' True (0, [])) =
     (b', take n [QueueDeclared ''g'', QueueBound ''g'' ''g'' EXCHANGE_NAME,
       Published EXCHANGE_NAME ''g'' ''data''])"
  using PublishWithContext_order[of quiet_broker "''data''" "''g''" 0 "[]"] by auto

end
