(* ===== verification/Engine.thy ===== *)
theory Engine
  imports Processor Mongo Amqp
begin

section \<open>The engine: RunProcessorOnGroup and PersistAuditData\<close>

text \<open>
  \<open>RunProcessorOnGroup\<close> reads a group's points and polygons, processes them and publishes the
  result. \<open>PersistAuditData\<close> consumes the queue of live points: each message is decoded into one
  variable that the loop reuses, then two goroutines run, one storing the point and one
  processing its group, and the message is acknowledged when both are done. How the insertion
  falls among the two reads of the processor is the \<open>schedule\<close> of the message.

  \<open>consume\<close> takes a message as a whole. \<open>engine_take\<close> and \<open>engine_do\<close> are the single steps of the loop and
  its goroutines, with the publication before the acknowledgement; \<open>engine_runs_are_consumes\<close> relates the two.
\<close>

subsection \<open>JSON of the result\<close>

text \<open>
  \<open>json.Marshal\<close> fails on a NaN or an infinity and on an instant whose year is not within 0 to
  9999; \<open>encode\<close> is its text otherwise.
\<close>

definition json_float :: "float64 \<Rightarrow> bool" where
  "json_float x \<longleftrightarrow> ffinite x"

definition json_time :: "gotime \<Rightarrow> bool" where
  "json_time t \<longleftrightarrow> - (366 * 86400 * 1000000000) \<le> nanos t \<and> nanos t < 3652059 * 86400 * 1000000000"

definition json_coordinate :: "coordinate \<Rightarrow> bool" where
  "json_coordinate c \<longleftrightarrow> json_float (coord_X c) \<and> json_float (coord_Y c) \<and> json_time (coord_Time c)"

definition json_response :: "runner_response \<Rightarrow> bool" where
  "json_response r \<longleftrightarrow>
     (\<forall>p\<in>set (rr_Polygons r). json_time (poly_Time p) \<and> (\<forall>c\<in>set (poly_Coords p). json_coordinate c)) \<and>
     (\<forall>l\<in>set (rr_LiveLines r). json_float (ll_X l) \<and> json_float (ll_Y l) \<and> json_time (ll_Time l))"

definition json_Marshal :: "(runner_response \<Rightarrow> 'bytes) \<Rightarrow> runner_response \<Rightarrow> string + 'bytes" where
  "json_Marshal encode r = (if json_response r then Inr (encode r) else Inl ''json: unsupported value'')"

subsection \<open>RunProcessorOnGroup\<close>

definition production_config :: "go_rt \<Rightarrow> run_processor_config" where
  "production_config rt = \<lparr>cfg_DistanceFunc = distance rt, cfg_DoSecondsForCycleCheck = True,
     cfg_NumSecondsForCycle = 10, cfg_MetersThresholdForCycle = Fin 1\<rparr>"

text \<open>
  The body after the two reads, whose results are arguments so that the reads can be made at
  different times. The result: no value if the processing panics; else the error and the
  broker's state.
\<close>

definition run_processor ::
  "go_rt \<Rightarrow> (runner_response \<Rightarrow> 'bytes) \<Rightarrow> ('b, 'bytes) amqp_ops \<Rightarrow> string \<Rightarrow>
   string + live_line list \<Rightarrow> string + polygon_data list \<Rightarrow> 'b \<Rightarrow> (string option \<times> 'b) option" where
  "run_processor rt encode ops groupCode liveLines polygons b =
     (case liveLines of
        Inl err \<Rightarrow> Some (Some (''Failed to get live lines data from mongo: '' @ err), b)
      | Inr liveLinesData \<Rightarrow>
     (case polygons of
        Inl err \<Rightarrow> Some (Some (''Failed to get polygon data from mongo: '' @ err), b)
      | Inr polygonData \<Rightarrow> do {
          processed \<leftarrow> processData rt liveLinesData polygonData (production_config rt);
          case processed of
            Inl err \<Rightarrow> Some (Some (''Failed to process data: '' @ err), b)
          | Inr (finalLiveLinesData, finalPolygonData) \<Rightarrow>
              (case json_Marshal encode \<lparr>rr_Polygons = finalPolygonData, rr_LiveLines = finalLiveLinesData\<rparr> of
                 Inl err \<Rightarrow> Some (Some (''Failed to marshal data: '' @ err), b)
               | Inr processedDataByte \<Rightarrow>
                   Some (None, snd (PublishWithContext ops processedDataByte groupCode True b)))
        }))"

definition RunProcessorOnGroup ::
  "go_rt \<Rightarrow> (runner_response \<Rightarrow> 'bytes) \<Rightarrow> ('b, 'bytes) amqp_ops \<Rightarrow> string \<Rightarrow>
   ('doc, 'bson, 'text) group_store \<Rightarrow> 'b \<Rightarrow> (string option \<times> 'b) option" where
  "RunProcessorOnGroup rt encode ops groupCode store b =
     run_processor rt encode ops groupCode (getLiveLinesDataFromMongo store groupCode)
       (getPolygonDataFromMongo store groupCode) b"

subsection \<open>PersistAuditData\<close>

text \<open>
  \<open>unmarshal\<close> decodes a message into the variable \<open>data\<close>: an error or none, and the variable's
  next value (field_names that the message lacks keep theirs). \<open>insert\<close> is \<open>InsertOne\<close> on the live
  lines, \<open>store_of\<close> the view of the database that the reads get.
\<close>

record ('bytes, 'db, 'b, 'doc, 'bson, 'text) engine =
  en_rt :: go_rt
  en_encode :: "runner_response \<Rightarrow> 'bytes"
  en_ops :: "('b, 'bytes) amqp_ops"
  en_unmarshal :: "'bytes \<Rightarrow> live_line \<Rightarrow> string option \<times> live_line"
  en_insert :: "live_line \<Rightarrow> 'db call"
  en_store :: "'db \<Rightarrow> ('doc, 'bson, 'text) group_store"

record ('bytes, 'db, 'b) engine_state =
  es_data :: live_line
  es_db :: 'db
  es_broker :: 'b
  es_acked :: "'bytes list"

datatype schedule = InsertFirst | InsertBetween | InsertLast

definition consume ::
  "('bytes, 'db, 'b, 'doc, 'bson, 'text) engine \<Rightarrow> schedule \<times> 'bytes \<Rightarrow>
   ('bytes, 'db, 'b) engine_state \<Rightarrow> ('bytes, 'db, 'b) engine_state option" where
  "consume en d s =
     (let (sched, body) = d;
          (err, data) = en_unmarshal en body (es_data s);
          s = s\<lparr>es_data := data\<rparr>
      in if err \<noteq> None then Some s
         else do {
           let db = es_db s;
           let db' = snd (en_insert en data db);
           let atLines = (if sched = InsertFirst then db' else db);
           let atPolygons = (if sched = InsertLast then db else db');
           (_, b) \<leftarrow> run_processor (en_rt en) (en_encode en) (en_ops en) (ll_GroupCode data)
             (getLiveLinesDataFromMongo (en_store en atLines) (ll_GroupCode data))
             (getPolygonDataFromMongo (en_store en atPolygons) (ll_GroupCode data)) (es_broker s);
           Some (s\<lparr>es_db := db', es_broker := b, es_acked := es_acked s @ [body]\<rparr>)
         })"

text \<open>
  \<open>delivered\<close> is the result of \<open>Consume\<close>: an error, or the messages of the channel. \<open>Done\<close> is the state
  after these messages; the function itself then waits for ever. \<open>Panic\<close> stands for a step of a
  goroutine that does not come to an end; \<open>consume_all\<close> shows that there is none.
\<close>

definition PersistAuditData ::
  "('bytes, 'db, 'b, 'doc, 'bson, 'text) engine \<Rightarrow> string + (schedule \<times> 'bytes) list \<Rightarrow> 'db \<Rightarrow> 'b \<Rightarrow>
   ('bytes, 'db, 'b) engine_state outcome" where
  "PersistAuditData en delivered db b =
     (case delivered of
        Inl err \<Rightarrow> Exit
      | Inr msgs \<Rightarrow>
          (case fold_opt (consume en) msgs
              \<lparr>es_data = zero_live_line, es_db = db, es_broker = b, es_acked = []\<rparr> of
             None \<Rightarrow> Panic ''goroutine''
           | Some s \<Rightarrow> Done s))"

subsection \<open>The same, step by step\<close>

text \<open>
  \<open>consume\<close> treats a message as a whole. Here its two goroutines take their calls one at a time, so that
  what happens between them can be seen: most of all that the result is published before the message is
  acknowledged. A task is a message that has been decoded and is not acknowledged yet; a read that fails
  ends the processing.
\<close>

record 'bytes task =
  tk_Body :: 'bytes
  tk_Stored :: bool
  tk_Lines :: "(string + live_line list) option"
  tk_Polygons :: "(string + polygon_data list) option"
  tk_Processed :: bool

record ('bytes, 'db, 'b) engine_run =
  er_State :: "('bytes, 'db, 'b) engine_state"
  er_Task :: "'bytes task option"
  er_Received :: "'bytes list"

definition engine_take ::
  "('bytes, 'db, 'b, 'doc, 'bson, 'text) engine \<Rightarrow> 'bytes \<Rightarrow> ('bytes, 'db, 'b) engine_run \<Rightarrow>
   ('bytes, 'db, 'b) engine_run option" where
  "engine_take en body r =
     (if er_Task r \<noteq> None then None
      else
        let (err, data) = en_unmarshal en body (es_data (er_State r));
            r = r\<lparr>er_State := (er_State r)\<lparr>es_data := data\<rparr>, er_Received := er_Received r @ [body]\<rparr>
        in Some (if err \<noteq> None then r
                 else r\<lparr>er_Task := Some \<lparr>tk_Body = body, tk_Stored = False, tk_Lines = None, tk_Polygons = None,
                   tk_Processed = False\<rparr>\<rparr>))"

datatype engine_step = Stores | ReadsLines | ReadsPolygons | Processes | Acks

text \<open>The reads that the processing works on; a failure of the first makes the second superfluous.\<close>

fun task_reads ::
  "'bytes task \<Rightarrow> ((string + live_line list) \<times> (string + polygon_data list)) option" where
  "task_reads t =
     (case (tk_Lines t, tk_Polygons t) of
        (Some (Inl err), _) \<Rightarrow> Some (Inl err, Inr [])
      | (Some lls, Some ps) \<Rightarrow> Some (lls, ps)
      | _ \<Rightarrow> None)"

fun task_do ::
  "('bytes, 'db, 'b, 'doc, 'bson, 'text) engine \<Rightarrow> engine_step \<Rightarrow> 'bytes task \<Rightarrow>
   ('bytes, 'db, 'b) engine_state \<Rightarrow> ('bytes task option \<times> ('bytes, 'db, 'b) engine_state) option" where
  "task_do en Stores t s =
     (if tk_Stored t then None
      else Some (Some (t\<lparr>tk_Stored := True\<rparr>), s\<lparr>es_db := snd (en_insert en (es_data s) (es_db s))\<rparr>))"
| "task_do en ReadsLines t s =
     (if tk_Lines t \<noteq> None then None
      else Some (Some (t\<lparr>tk_Lines := Some (getLiveLinesDataFromMongo (en_store en (es_db s)) (ll_GroupCode (es_data s)))\<rparr>), s))"
| "task_do en ReadsPolygons t s =
     (case tk_Lines t of
        Some (Inr _) \<Rightarrow>
          (if tk_Polygons t \<noteq> None then None
           else Some (Some (t\<lparr>tk_Polygons := Some (getPolygonDataFromMongo (en_store en (es_db s)) (ll_GroupCode (es_data s)))\<rparr>), s))
      | _ \<Rightarrow> None)"
| "task_do en Processes t s =
     (if tk_Processed t then None
      else do {
        (lls, ps) \<leftarrow> task_reads t;
        (_, b) \<leftarrow> run_processor (en_rt en) (en_encode en) (en_ops en) (ll_GroupCode (es_data s)) lls ps (es_broker s);
        Some (Some (t\<lparr>tk_Processed := True\<rparr>), s\<lparr>es_broker := b\<rparr>)
      })"
| "task_do en Acks t s =
     (if tk_Stored t \<and> tk_Processed t then Some (None, s\<lparr>es_acked := es_acked s @ [tk_Body t]\<rparr>) else None)"

definition engine_do ::
  "('bytes, 'db, 'b, 'doc, 'bson, 'text) engine \<Rightarrow> engine_step \<Rightarrow> ('bytes, 'db, 'b) engine_run \<Rightarrow>
   ('bytes, 'db, 'b) engine_run option" where
  "engine_do en step r = do {
     t \<leftarrow> er_Task r;
     (t, s) \<leftarrow> task_do en step t (er_State r);
     Some (r\<lparr>er_State := s, er_Task := t\<rparr>)
   }"

subsection \<open>Facts\<close>

lemma run_processor_returns:
  assumes "runtime_ok rt"
  shows "\<exists>r. run_processor rt encode ops code lls ps b = Some r"
proof (cases "\<exists>l p. lls = Inr l \<and> ps = Inr p")
  case True
  then obtain l p where lp: "lls = Inr l" "ps = Inr p" by blast
  obtain l' rs where "processData rt l p (production_config rt) = Some (Inr (l', rs))"
    using processData_outcome[OF assms, of l p "production_config rt"] by (elim exE conjE) (rule that)
  then show ?thesis by (simp add: run_processor_def lp split: sum.splits)
next
  case False
  then show ?thesis by (cases lls; cases ps) (auto simp: run_processor_def)
qed

text \<open>What the messages alone determine: the values of the variable, and the insertions.\<close>

fun decode_all ::
  "('bytes \<Rightarrow> live_line \<Rightarrow> string option \<times> live_line) \<Rightarrow> live_line \<Rightarrow> 'bytes list \<Rightarrow> ('bytes \<times> live_line) list" where
  "decode_all unmarshal data [] = []"
| "decode_all unmarshal data (body # bodies) =
     (case unmarshal body data of (err, data') \<Rightarrow>
        (if err = None then [(body, data')] else []) @ decode_all unmarshal data' bodies)"

definition insert_all :: "(live_line \<Rightarrow> 'db call) \<Rightarrow> live_line list \<Rightarrow> 'db \<Rightarrow> 'db" where
  "insert_all ins ls db = fold (\<lambda>l db. snd (ins l db)) ls db"

lemma consume_step:
  assumes "runtime_ok (en_rt en)"
  shows "\<exists>s'. consume en (sched, body) s = Some s' \<and>
    (case en_unmarshal en body (es_data s) of (err, data) \<Rightarrow>
       es_data s' = data \<and>
       (if err = None then es_db s' = snd (en_insert en data (es_db s)) \<and> es_acked s' = es_acked s @ [body]
        else es_db s' = es_db s \<and> es_acked s' = es_acked s \<and> es_broker s' = es_broker s))"
proof -
  obtain err data where u: "en_unmarshal en body (es_data s) = (err, data)"
    by (cases "en_unmarshal en body (es_data s)")
  show ?thesis
  proof (cases err)
    case (Some e)
    then show ?thesis using u by (simp add: consume_def)
  next
    case None
    let ?code = "ll_GroupCode data" and ?db' = "snd (en_insert en data (es_db s))"
    let ?lls = "getLiveLinesDataFromMongo (en_store en (if sched = InsertFirst then ?db' else es_db s)) ?code"
    let ?ps = "getPolygonDataFromMongo (en_store en (if sched = InsertLast then es_db s else ?db')) ?code"
    have "\<exists>r. run_processor (en_rt en) (en_encode en) (en_ops en) ?code ?lls ?ps (es_broker s) = Some r"
      by (rule run_processor_returns[OF assms])
    then obtain r b where
      "run_processor (en_rt en) (en_encode en) (en_ops en) ?code ?lls ?ps (es_broker s) = Some (r, b)"
      by auto
    then show ?thesis using u None by (simp add: consume_def)
  qed
qed

lemma consume_all:
  assumes "runtime_ok (en_rt en)"
  shows "\<exists>s'. fold_opt (consume en) msgs s = Some s' \<and>
    es_db s' = insert_all (en_insert en) (map snd (decode_all (en_unmarshal en) (es_data s) (map snd msgs))) (es_db s) \<and>
    es_acked s' = es_acked s @ map fst (decode_all (en_unmarshal en) (es_data s) (map snd msgs))"
proof (induction msgs arbitrary: s)
  case Nil
  then show ?case by (simp add: insert_all_def)
next
  case (Cons m msgs)
  obtain sched body where m: "m = (sched, body)" by (cases m)
  obtain err data where u: "en_unmarshal en body (es_data s) = (err, data)"
    by (cases "en_unmarshal en body (es_data s)")
  obtain s1 where s1: "consume en m s = Some s1" "es_data s1 = data"
      "if err = None then es_db s1 = snd (en_insert en data (es_db s)) \<and> es_acked s1 = es_acked s @ [body]
       else es_db s1 = es_db s \<and> es_acked s1 = es_acked s \<and> es_broker s1 = es_broker s"
    using consume_step[OF assms, of sched body s] u m by auto
  then show ?case using Cons.IH[of s1] u m by (auto simp: insert_all_def split: if_splits)
qed

lemma run_processor_cases:
  assumes "runtime_ok rt" "run_processor rt encode ops code lls ps b = Some (r, b')"
  shows "(r \<noteq> None \<longrightarrow> b' = b) \<and> (r = None \<longleftrightarrow> (\<exists>l p l' rs. lls = Inr l \<and> ps = Inr p \<and>
      processData rt l p (production_config rt) = Some (Inr (l', rs)) \<and>
      json_response \<lparr>rr_Polygons = rs, rr_LiveLines = l'\<rparr> \<and>
      b' = snd (PublishWithContext ops (encode \<lparr>rr_Polygons = rs, rr_LiveLines = l'\<rparr>) code True b)))"
proof (cases "\<exists>l p. lls = Inr l \<and> ps = Inr p")
  case True
  then obtain l p where lp: "lls = Inr l" "ps = Inr p" by blast
  obtain l' rs where "processData rt l p (production_config rt) = Some (Inr (l', rs))"
    using processData_outcome[OF assms(1), of l p "production_config rt"] by (elim exE conjE) (rule that)
  then show ?thesis using assms(2)
    by (auto simp: run_processor_def lp json_Marshal_def split: if_splits)
next
  case False
  then show ?thesis using assms(2) by (cases lls; cases ps) (auto simp: run_processor_def)
qed

subsection \<open>The steps of a message\<close>

text \<open>
  What a task has done so far, against the schedule that it will turn out to follow. \<open>s0\<close> is the state when
  the message had been decoded.
\<close>

definition task_follows ::
  "('bytes, 'db, 'b, 'doc, 'bson, 'text) engine \<Rightarrow> ('bytes, 'db, 'b) engine_state \<Rightarrow> schedule \<Rightarrow> 'bytes task \<Rightarrow>
   ('bytes, 'db, 'b) engine_state \<Rightarrow> bool" where
  "task_follows en s0 sched t s \<longleftrightarrow>
     (let code = ll_GroupCode (es_data s0); db = es_db s0; db' = snd (en_insert en (es_data s0) db);
          lls = getLiveLinesDataFromMongo (en_store en (if sched = InsertFirst then db' else db)) code;
          ps = getPolygonDataFromMongo (en_store en (if sched = InsertLast then db else db')) code
      in (tk_Lines t = None \<or> tk_Lines t = Some lls) \<and> (tk_Polygons t = None \<or> tk_Polygons t = Some ps) \<and>
         (tk_Lines t = None \<longrightarrow> tk_Polygons t = None) \<and>
         (tk_Lines t \<noteq> None \<longrightarrow> tk_Stored t \<or> sched \<noteq> InsertFirst) \<and>
         (tk_Polygons t \<noteq> None \<longrightarrow> tk_Stored t \<or> sched = InsertLast) \<and>
         (tk_Stored t \<and> tk_Lines t = None \<longrightarrow> sched = InsertFirst) \<and>
         (tk_Stored t \<and> tk_Polygons t = None \<longrightarrow> sched \<noteq> InsertLast) \<and>
         (if tk_Processed t
          then \<exists>lls' ps' r b. task_reads t = Some (lls', ps') \<and>
            run_processor (en_rt en) (en_encode en) (en_ops en) code lls' ps' (es_broker s0) = Some (r, b) \<and>
            s = s0\<lparr>es_db := (if tk_Stored t then db' else db), es_broker := b\<rparr>
          else s = s0\<lparr>es_db := (if tk_Stored t then db' else db)\<rparr>))"

lemmas task_cases = option.splits sum.splits if_splits prod.splits Option.bind_splits

lemma task_reads_upd [simp]:
  "task_reads (t\<lparr>tk_Stored := x\<rparr>) = task_reads t" "task_reads (t\<lparr>tk_Processed := x\<rparr>) = task_reads t"
  by simp_all

lemma task_reads_None:
  "tk_Lines t = None \<Longrightarrow> task_reads t = None"
  "tk_Lines t = Some (Inr ls) \<Longrightarrow> tk_Polygons t = None \<Longrightarrow> task_reads t = None"
  by simp_all

declare task_reads.simps [simp del]

lemma task_follows_stores:
  assumes "task_follows en s0 sched t s" "task_do en Stores t s = Some (Some t', s')"
  shows "task_follows en s0
    (if tk_Lines t = None then InsertFirst else if tk_Polygons t = None then InsertBetween else sched) t' s'"
proof -
  have upd: "\<not> tk_Stored t" "t' = t\<lparr>tk_Stored := True\<rparr>" "s' = s\<lparr>es_db := snd (en_insert en (es_data s) (es_db s))\<rparr>"
    using assms(2) by (simp_all split: if_splits)
  show ?thesis using assms(1) upd(1) unfolding upd(2,3) task_follows_def Let_def
    by (cases "tk_Lines t = None"; cases "tk_Polygons t = None"; cases "tk_Processed t") (auto simp: task_reads_None)
qed

lemma task_follows_lines:
  assumes "task_follows en s0 sched t s" "task_do en ReadsLines t s = Some (Some t', s')"
  shows "task_follows en s0 (if tk_Stored t then sched else InsertLast) t' s'"
proof -
  have upd: "tk_Lines t = None" "s' = s"
      "t' = t\<lparr>tk_Lines := Some (getLiveLinesDataFromMongo (en_store en (es_db s)) (ll_GroupCode (es_data s)))\<rparr>"
    using assms(2) by (auto split: if_splits)
  moreover have "\<not> tk_Processed t"
    using assms(1) task_reads_None(1)[OF upd(1)] by (auto simp: task_follows_def Let_def)
  ultimately show ?thesis using assms(1) unfolding task_follows_def Let_def
    by (cases "tk_Stored t") simp_all
qed

lemma task_follows_polygons:
  assumes "task_follows en s0 sched t s" "task_do en ReadsPolygons t s = Some (Some t', s')"
  shows "task_follows en s0 (if tk_Stored t then sched else InsertLast) t' s'"
proof -
  obtain ls where upd: "tk_Lines t = Some (Inr ls)" "tk_Polygons t = None" "s' = s"
      "t' = t\<lparr>tk_Polygons := Some (getPolygonDataFromMongo (en_store en (es_db s)) (ll_GroupCode (es_data s)))\<rparr>"
    using assms(2) by (auto split: option.splits sum.splits if_splits)
  moreover have "\<not> tk_Processed t"
    using assms(1) task_reads_None(2)[OF upd(1,2)] by (auto simp: task_follows_def Let_def)
  ultimately show ?thesis using assms(1) unfolding task_follows_def Let_def
    by (cases "tk_Stored t") simp_all
qed

lemma task_follows_processes:
  assumes "task_follows en s0 sched t s" "task_do en Processes t s = Some (Some t', s')"
  shows "task_follows en s0 sched t' s'"
proof -
  obtain lls ps r b where upd: "\<not> tk_Processed t" "task_reads t = Some (lls, ps)"
      "run_processor (en_rt en) (en_encode en) (en_ops en) (ll_GroupCode (es_data s)) lls ps (es_broker s) = Some (r, b)"
      "t' = t\<lparr>tk_Processed := True\<rparr>" "s' = s\<lparr>es_broker := b\<rparr>"
    using assms(2) by (auto split: if_splits Option.bind_splits prod.splits)
  then show ?thesis using assms(1) unfolding task_follows_def Let_def by simp
qed

lemma task_follows_step:
  assumes "task_follows en s0 sched t s" "task_do en step t s = Some (Some t', s')"
  shows "\<exists>sched'. task_follows en s0 sched' t' s'"
proof (cases step)
  case Stores
  then show ?thesis using task_follows_stores[OF assms(1)] assms(2) by blast
next
  case ReadsLines
  then show ?thesis using task_follows_lines[OF assms(1)] assms(2) by blast
next
  case ReadsPolygons
  then show ?thesis using task_follows_polygons[OF assms(1)] assms(2) by blast
next
  case Processes
  then show ?thesis using task_follows_processes[OF assms(1)] assms(2) by blast
next
  case Acks
  then show ?thesis using assms(2) by (simp split: if_splits)
qed

lemma task_follows_start:
  "task_follows en s InsertFirst \<lparr>tk_Body = body, tk_Stored = False, tk_Lines = None, tk_Polygons = None,
     tk_Processed = False\<rparr> s"
  by (simp add: task_follows_def Let_def)

lemma task_body: "task_do en step t s = Some (Some t', s') \<Longrightarrow> tk_Body t' = tk_Body t"
  by (cases step) (auto split: task_cases)

lemma run_processor_reads:
  assumes "task_reads t = Some (lls', ps')" "tk_Lines t = None \<or> tk_Lines t = Some lls" "tk_Polygons t = None \<or> tk_Polygons t = Some ps"
  shows "run_processor rt encode ops code lls ps b = run_processor rt encode ops code lls' ps' b"
  using assms by (auto simp: run_processor_def task_reads.simps split: option.splits sum.splits)

lemma task_ends:
  assumes "task_follows en s0 sched t s" "task_do en Acks t s = Some (None, s')"
    and "en_unmarshal en (tk_Body t) (es_data s00) = (None, es_data s0)" "s0 = s00\<lparr>es_data := es_data s0\<rparr>"
  shows "consume en (sched, tk_Body t) s00 = Some s'"
proof -
  let ?code = "ll_GroupCode (es_data s0)" and ?db' = "snd (en_insert en (es_data s0) (es_db s0))"
  let ?lls = "getLiveLinesDataFromMongo (en_store en (if sched = InsertFirst then ?db' else es_db s0)) ?code"
  let ?ps = "getPolygonDataFromMongo (en_store en (if sched = InsertLast then es_db s0 else ?db')) ?code"
  have finished: "tk_Stored t" "tk_Processed t" "s' = s\<lparr>es_acked := es_acked s @ [tk_Body t]\<rparr>"
    using assms(2) by (auto split: if_splits)
  obtain lls' ps' r b where run: "task_reads t = Some (lls', ps')"
      "run_processor (en_rt en) (en_encode en) (en_ops en) ?code lls' ps' (es_broker s0) = Some (r, b)"
      "s = s0\<lparr>es_db := ?db', es_broker := b\<rparr>"
      "tk_Lines t = None \<or> tk_Lines t = Some ?lls" "tk_Polygons t = None \<or> tk_Polygons t = Some ?ps"
    using assms(1) finished(1,2) by (simp add: task_follows_def Let_def) (elim conjE exE, rule that)
  have "run_processor (en_rt en) (en_encode en) (en_ops en) ?code ?lls ?ps (es_broker s0) = Some (r, b)"
    using run(2) unfolding run_processor_reads[OF run(1,4,5)] .
  moreover have "es_db s0 = es_db s00" "es_broker s0 = es_broker s00" "es_acked s0 = es_acked s00"
    using arg_cong[OF assms(4), of es_db] arg_cong[OF assms(4), of es_broker] arg_cong[OF assms(4), of es_acked] by simp_all
  moreover have "s0\<lparr>es_db := x, es_broker := b, es_acked := y\<rparr> =
      s00\<lparr>es_data := es_data s0, es_db := x, es_broker := b, es_acked := y\<rparr>" for x y
    using assms(4) by (cases s0; cases s00) simp
  ultimately show ?thesis using assms(3) finished(3) run(3)
    by (cases sched) (simp_all add: consume_def)
qed

lemma engine_do_cases:
  assumes "engine_do en step r = Some r'"
  obtains t t' s' where "er_Task r = Some t" "task_do en step t (er_State r) = Some (t', s')"
    "r' = r\<lparr>er_State := s', er_Task := t'\<rparr>"
  using assms by (auto simp: engine_do_def split: Option.bind_splits prod.splits)

lemma task_do_None: "task_do en step t s = Some (None, s') \<Longrightarrow> step = Acks"
  by (cases step) (auto split: task_cases)

lemma engine_run_ends:
  assumes "fold_opt (engine_do en) steps r = Some r1" "er_Task r = Some t" "task_follows en s0 sched t (er_State r)"
    and "er_Task r1 = None"
  shows "\<exists>sched t' s1. task_follows en s0 sched t' s1 \<and> task_do en Acks t' s1 = Some (None, er_State r1) \<and>
    tk_Body t' = tk_Body t"
  using assms
proof (induction steps arbitrary: r t sched)
  case (Cons step steps)
  obtain r2 where r2: "engine_do en step r = Some r2" "fold_opt (engine_do en) steps r2 = Some r1"
    using Cons.prems(1) by (auto split: Option.bind_splits)
  obtain t' s' where step: "task_do en step t (er_State r) = Some (t', s')" "r2 = r\<lparr>er_State := s', er_Task := t'\<rparr>"
    using r2(1) Cons.prems(2) by (auto elim: engine_do_cases)
  show ?case
  proof (cases t')
    case None
    have "r1 = r2"
    proof (cases steps)
      case (Cons x xs)
      then show ?thesis using r2(2) step(2) None by (simp add: engine_do_def)
    qed (use r2(2) in simp)
    then show ?thesis using task_do_None[of en step t "er_State r" s'] step None Cons.prems(3)
      by (intro exI[of _ sched] exI[of _ t] exI[of _ "er_State r"]) simp
  next
    case (Some t2)
    obtain sched' where "task_follows en s0 sched' t2 s'"
      using task_follows_step[OF Cons.prems(3)] step(1) Some by blast
    moreover have "tk_Body t2 = tk_Body t" by (rule task_body) (use step(1) Some in simp)
    ultimately show ?thesis using Cons.IH[OF r2(2), of t2 sched'] step(2) Some Cons.prems(4) by simp
  qed
qed simp

text \<open>The steps of a schedule, with or without the second read.\<close>

definition schedule_steps :: "schedule \<Rightarrow> bool \<Rightarrow> engine_step list" where
  "schedule_steps sched second = (let reads = (if second then [ReadsPolygons] else [])
     in (case sched of
           InsertFirst \<Rightarrow> [Stores, ReadsLines] @ reads
         | InsertBetween \<Rightarrow> [ReadsLines, Stores] @ reads
         | InsertLast \<Rightarrow> [ReadsLines] @ reads @ [Stores]) @ [Processes, Acks])"

lemma schedule_run:
  assumes "en_unmarshal en body (es_data (er_State r)) = (None, data)" "er_Task r = None"
    and "consume en (sched, body) (er_State r) = Some s'"
  shows "\<exists>r0. engine_take en body r = Some r0 \<and> er_Received r0 = er_Received r @ [body] \<and>
    fold_opt (engine_do en) (schedule_steps sched (\<exists>ls. getLiveLinesDataFromMongo
      (en_store en (if sched = InsertFirst then snd (en_insert en data (es_db (er_State r))) else es_db (er_State r)))
      (ll_GroupCode data) = Inr ls)) r0 = Some \<lparr>er_State = s', er_Task = None, er_Received = er_Received r @ [body]\<rparr>"
proof -
  let ?db = "es_db (er_State r)" and ?db' = "snd (en_insert en data (es_db (er_State r)))" and ?code = "ll_GroupCode data"
  obtain lls where lls: "getLiveLinesDataFromMongo (en_store en (if sched = InsertFirst then ?db' else ?db)) ?code = lls" by blast
  obtain ps where ps: "getPolygonDataFromMongo (en_store en (if sched = InsertLast then ?db else ?db')) ?code = ps" by blast
  obtain x b where run: "run_processor (en_rt en) (en_encode en) (en_ops en) ?code lls ps (es_broker (er_State r)) = Some (x, b)"
      "s' = (er_State r)\<lparr>es_data := data, es_db := ?db', es_broker := b, es_acked := es_acked (er_State r) @ [body]\<rparr>"
    using assms(1,3) lls ps by (auto simp: consume_def Let_def split: Option.bind_splits)
  show ?thesis
  proof (cases lls)
    case (Inl err)
    then have "run_processor (en_rt en) (en_encode en) (en_ops en) ?code (Inl err) (Inr []) (es_broker (er_State r)) = Some (x, b)"
      using run(1) by (simp add: run_processor_def)
    then show ?thesis using assms(1,2) lls Inl run(2)
      by (cases sched; cases r) (auto simp: engine_take_def engine_do_def schedule_steps_def task_reads.simps)
  next
    case (Inr ls)
    then show ?thesis using assms(1,2) lls ps run
      by (cases sched; cases r) (auto simp: engine_take_def engine_do_def schedule_steps_def task_reads.simps)
  qed
qed

subsection \<open>Properties\<close>

text \<open>C8: Running the processor on a group always returns. It reports an error exactly if a read fails
  or the result has no JSON text (a NaN, an infinity or a year outside 0 to 9999), and then nothing
  was sent; without an error the JSON of the processed data was handed to the queue of the group,
  whether or not the queue accepted it.\<close>

theorem RunProcessorOnGroup_correct:
  assumes "runtime_ok rt"
  shows "\<exists>r b'. RunProcessorOnGroup rt encode ops code store b = Some (r, b') \<and> (r = None \<or> b' = b) \<and>
    (r = None \<longleftrightarrow> (\<exists>l p l' rs. getLiveLinesDataFromMongo store code = Inr l \<and>
      getPolygonDataFromMongo store code = Inr p \<and>
      processData rt l p (production_config rt) = Some (Inr (l', rs)) \<and>
      json_response \<lparr>rr_Polygons = rs, rr_LiveLines = l'\<rparr> \<and>
      b' = snd (PublishWithContext ops (encode \<lparr>rr_Polygons = rs, rr_LiveLines = l'\<rparr>) code True b)))"
proof -
  obtain r b' where run: "run_processor rt encode ops code (getLiveLinesDataFromMongo store code)
      (getPolygonDataFromMongo store code) b = Some (r, b')"
    using run_processor_returns[OF assms] by (metis surj_pair)
  show ?thesis
    using run_processor_cases[OF assms run] run unfolding RunProcessorOnGroup_def by blast
qed

text \<open>A database that fails to answer.\<close>

definition down_store :: "(nat, nat, nat) group_store" where
  "down_store = \<lparr>gs_read = \<lparr>mongo_Find = (\<lambda>_ _ _. Inl ''down''), cursor_Decode = Inr, bson_MarshalExtJSON = Inr,
       extJSON_fields = (\<lambda>_. Inr [])\<rparr>,
     decode_LiveLines = (\<lambda>_ _. Inl ''none''), decode_Polygon = (\<lambda>_ _. Inl ''none'')\<rparr>"

theorem RunProcessorOnGroup_correct_witness:
  "\<exists>err. RunProcessorOnGroup plain_rt (\<lambda>_. ''json'') quiet_broker ''g'' down_store 5 = Some (Some err, 5)"
proof -
  have "getLiveLinesDataFromMongo down_store ''g'' = Inl ''down''"
    by (simp add: getLiveLinesDataFromMongo_def getData_def down_store_def)
  then show ?thesis
    using RunProcessorOnGroup_correct[OF runtime_ok_plain_rt, of "\<lambda>_. ''json''" quiet_broker "''g''" down_store 5]
    by auto
qed

text \<open>C7: The consumer never gets stuck, and what it stores and acknowledges does not depend on how the
  two goroutines of a message interleave: it inserts, in order, the points of exactly those messages
  that decode, and acknowledges exactly these; a message that does not decode is neither stored nor
  acknowledged.\<close>

theorem PersistAuditData_correct:
  assumes "runtime_ok (en_rt en)"
  shows "\<exists>s. PersistAuditData en (Inr msgs) db b = Done s \<and>
    es_acked s = map fst (decode_all (en_unmarshal en) zero_live_line (map snd msgs)) \<and>
    es_db s = fold (\<lambda>l db. snd (en_insert en l db))
      (map snd (decode_all (en_unmarshal en) zero_live_line (map snd msgs))) db"
  using consume_all[OF assms, of msgs
      "\<lparr>es_data = zero_live_line, es_db = db, es_broker = b, es_acked = []\<rparr>"]
  by (auto simp: PersistAuditData_def insert_all_def)

definition list_engine :: "(nat, live_line list, nat, nat, nat, nat) engine" where
  "list_engine = \<lparr>en_rt = plain_rt, en_encode = (\<lambda>_. 0),
     en_ops = \<lparr>amqp_Dial = (\<lambda>_ b. (None, b)), amqp_Channel = (\<lambda>b. (None, b)),
       ExchangeDeclare = (\<lambda>_ _ _ b. (None, b)), QueueDeclare = (\<lambda>_ _ b. (None, b)),
       QueueBind = (\<lambda>_ _ _ _ b. (None, b)), Publish = (\<lambda>_ _ _ _ b. (None, b + 1))\<rparr>,
     en_unmarshal = (\<lambda>body data. if body = 0 then (Some ''syntax'', data)
       else (None, data\<lparr>ll_GroupCode := ''g''\<rparr>)),
     en_insert = (\<lambda>l db. (None, db @ [l])), en_store = (\<lambda>_. down_store)\<rparr>"

theorem PersistAuditData_correct_witness:
  "\<exists>s. PersistAuditData list_engine (Inr [(InsertFirst, 1), (InsertLast, 0), (InsertBetween, 2)]) [] 0 = Done s \<and>
    es_acked s = [1, 2] \<and> length (es_db s) = 2"
proof -
  have "runtime_ok (en_rt list_engine)" by (simp add: list_engine_def runtime_ok_plain_rt)
  from PersistAuditData_correct[OF this, of "[(InsertFirst, 1), (InsertLast, 0), (InsertBetween, 2)]" "[]" 0]
  show ?thesis by (auto simp: list_engine_def)
qed

text \<open>C28: Taking a message as a whole loses nothing. Whenever the steps of its two goroutines, in any
  order that the code allows, have led to the acknowledgement, the outcome is that of \<open>consume\<close> under one of
  three schedules, the insertion before, between or after the two reads; and each of the three is the outcome
  of such an order.\<close>

theorem engine_runs_are_consumes:
  assumes "runtime_ok (en_rt en)" "er_Task r = None" "en_unmarshal en body (es_data (er_State r)) = (None, data)"
  shows "(\<forall>steps r0 r1. engine_take en body r = Some r0 \<and> fold_opt (engine_do en) steps r0 = Some r1 \<and> er_Task r1 = None \<longrightarrow>
      (\<exists>sched. consume en (sched, body) (er_State r) = Some (er_State r1))) \<and>
    (\<forall>sched. \<exists>r0 steps r1. engine_take en body r = Some r0 \<and> fold_opt (engine_do en) steps r0 = Some r1 \<and> er_Task r1 = None \<and>
      consume en (sched, body) (er_State r) = Some (er_State r1))"
proof (intro conjI allI impI)
  fix steps r0 r1
  assume run: "engine_take en body r = Some r0 \<and> fold_opt (engine_do en) steps r0 = Some r1 \<and> er_Task r1 = None"
  let ?t = "\<lparr>tk_Body = body, tk_Stored = False, tk_Lines = None, tk_Polygons = None, tk_Processed = False\<rparr>"
  let ?s0 = "(er_State r)\<lparr>es_data := data\<rparr>"
  have r0: "er_Task r0 = Some ?t" "er_State r0 = ?s0" using run assms(2,3) by (auto simp: engine_take_def)
  have "task_follows en ?s0 InsertFirst ?t (er_State r0)" unfolding r0(2) by (rule task_follows_start)
  from engine_run_ends[OF _ r0(1) this, of steps r1] run
  obtain sched t' s1 where fin: "task_follows en ?s0 sched t' s1" "task_do en Acks t' s1 = Some (None, er_State r1)" "tk_Body t' = body"
    by (auto simp del: task_do.simps)
  then show "\<exists>sched. consume en (sched, body) (er_State r) = Some (er_State r1)"
    using task_ends[OF fin(1,2), of "er_State r"] assms(3) by auto
next
  fix sched
  obtain s' where s': "consume en (sched, body) (er_State r) = Some s'" using consume_step[OF assms(1), of sched body "er_State r"] by blast
  from schedule_run[OF assms(3,2) s'] s'
  show "\<exists>r0 steps r1. engine_take en body r = Some r0 \<and> fold_opt (engine_do en) steps r0 = Some r1 \<and> er_Task r1 = None \<and>
      consume en (sched, body) (er_State r) = Some (er_State r1)"
    by (elim exE conjE) (intro exI conjI, assumption, assumption, simp_all)
qed

theorem engine_runs_are_consumes_witness:
  "\<exists>r0 steps r1. engine_take list_engine 1 \<lparr>er_State = \<lparr>es_data = zero_live_line, es_db = [], es_broker = 0, es_acked = []\<rparr>,
      er_Task = None, er_Received = []\<rparr> = Some r0 \<and>
    fold_opt (engine_do list_engine) steps r0 = Some r1 \<and> er_Task r1 = None"
proof -
  let ?r = "\<lparr>er_State = \<lparr>es_data = zero_live_line, es_db = [], es_broker = 0, es_acked = []\<rparr>, er_Task = None, er_Received = []\<rparr>"
  have "runtime_ok (en_rt list_engine)" by (simp add: list_engine_def runtime_ok_plain_rt)
  from engine_runs_are_consumes[OF this, of ?r 1, THEN conjunct2, THEN spec[of _ InsertBetween]]
  show ?thesis by (fastforce simp: list_engine_def)
qed

text \<open>C29: The processor cannot see the points that the engine stores. A stored point is a document of the
  fields of its struct and the identifier, while \<open>getData\<close> decodes a document into a struct with the one field
  \<open>data\<close>; none of the stored fields is decoded into it. So whatever was stored, all points that the processor
  gets, and all live points it publishes, are zero values: no position, no sender, no group.\<close>

theorem stored_points_read_back_as_zero:
  assumes "runtime_ok rt" "getLiveLinesDataFromMongo store code = Inr ls"
    and "\<forall>docs doc d t. mongo_Find (gs_read store) RUNNER_DATABASE RUNNER_LIVE_LINES_COLLECTION [(''group_code'', code)] = Inr docs \<longrightarrow>
      doc \<in> set docs \<longrightarrow> cursor_Decode (gs_read store) doc = Inr d \<longrightarrow> bson_MarshalExtJSON (gs_read store) d = Inr t \<longrightarrow>
      (\<exists>elements l. extJSON_fields (gs_read store) t = Inr elements \<and>
        set (map fst elements) = insert ''_id'' (set (map fst (LiveLinesData_document l))))"
  shows "(\<forall>l\<in>set ls. l = zero_live_line) \<and>
    (\<exists>lls rs. processData rt ls ps (production_config rt) = Some (Inr (lls, rs)) \<and>
      (\<forall>l\<in>set lls. l = zero_live_line))"
proof -
  let ?find = "mongo_Find (gs_read store) RUNNER_DATABASE RUNNER_LIVE_LINES_COLLECTION [(''group_code'', code)]"
  obtain docs where docs: "?find = Inr docs"
    using assms(2) by (cases ?find) (simp_all add: getLiveLinesDataFromMongo_def getData_eq)
  have one: "l = zero_live_line"
    if doc: "doc \<in> set docs" "read_doc (gs_read store) (decode_LiveLines store) zero_live_line doc = Some l" for doc l
  proof -
    obtain d t where t: "cursor_Decode (gs_read store) doc = Inr d" "bson_MarshalExtJSON (gs_read store) d = Inr t"
        "dataStruct_Unmarshal (gs_read store) (decode_LiveLines store) zero_live_line t = Inr l"
      using doc(2) by (auto simp: read_doc_def split: sum.splits)
    obtain elements p where e: "extJSON_fields (gs_read store) t = Inr elements"
        "set (map fst elements) = insert ''_id'' (set (map fst (LiveLinesData_document p)))"
      using assms(3) docs doc(1) t(1,2) by blast
    then have "\<forall>key\<in>set (map fst elements). \<not> names_field dataStruct_field key"
      using stored_point_has_no_data by simp
    then show ?thesis using t(3) dataStruct_Unmarshal_skips[OF e(1), of "decode_LiveLines store" zero_live_line] by simp
  qed
  have "ls = List.map_filter (read_doc (gs_read store) (decode_LiveLines store) zero_live_line) docs"
    using assms(2) docs by (simp add: getLiveLinesDataFromMongo_def getData_eq)
  then have zero: "l = zero_live_line" if "l \<in> set ls" for l using that one by (auto simp: map_filter_def)
  obtain lls rs where r: "processData rt ls ps (production_config rt) = Some (Inr (lls, rs))" "subseq lls ls"
    using processData_outcome[OF assms(1), of ls ps "production_config rt"] by (elim exE conjE) (rule that)
  have "set lls \<subseteq> set ls" using r(2) by (auto elim: list_emb_set)
  then show ?thesis using zero r(1) by blast
qed

text \<open>A database with one stored point; the decoding of a value would not give zero.\<close>

definition one_point_store :: "(nat, nat, nat) group_store" where
  "one_point_store = \<lparr>gs_read = \<lparr>mongo_Find = (\<lambda>_ _ _. Inr [7]), cursor_Decode = Inr, bson_MarshalExtJSON = Inr,
       extJSON_fields = (\<lambda>_. Inr [(''group_code'', 0), (''x'', 1), (''_id'', 2), (''y'', 3), (''time'', 4), (''sender'', 5)])\<rparr>,
     decode_LiveLines = (\<lambda>v l. Inr (l\<lparr>ll_X := Fin (of_nat v)\<rparr>)), decode_Polygon = (\<lambda>_ _. Inl ''none'')\<rparr>"

theorem stored_points_read_back_as_zero_witness:
  "\<exists>lls rs. getLiveLinesDataFromMongo one_point_store ''g'' = Inr [zero_live_line] \<and>
    processData plain_rt [zero_live_line] [] (production_config plain_rt) = Some (Inr (lls, rs)) \<and>
    (\<forall>l\<in>set lls. l = zero_live_line)"
proof -
  have keys: "set (map fst [(''group_code'', 0 :: nat), (''x'', 1), (''_id'', 2), (''y'', 3), (''time'', 4), (''sender'', 5)]) =
      insert ''_id'' (set (map fst (LiveLinesData_document zero_live_line)))"
    by auto
  then have skip: "\<forall>key\<in>set (map fst [(''group_code'', 0 :: nat), (''x'', 1), (''_id'', 2), (''y'', 3), (''time'', 4), (''sender'', 5)]).
      \<not> names_field dataStruct_field key"
    using stored_point_has_no_data[of zero_live_line] by simp
  have read: "getLiveLinesDataFromMongo one_point_store ''g'' = Inr [zero_live_line]"
    using dataStruct_Unmarshal_skips[OF _ skip, of "gs_read one_point_store" 7 "decode_LiveLines one_point_store" zero_live_line]
    by (simp add: getLiveLinesDataFromMongo_def getData_def one_point_store_def)
  from stored_points_read_back_as_zero[OF runtime_ok_plain_rt read, of "[]"] keys read
  show ?thesis by (fastforce simp: one_point_store_def simp del: set_map list.map)
qed

end
