(* ===== verification/EatWs.thy ===== *)
theory EatWs
  imports Http Amqp Clients
begin

section \<open>Receiving results: the websocket handler EatProcessorQueueHandler\<close>

text \<open>
  A session registers its client under the group, declares the group's queue and starts a consumer.
  For each message of the queue, the consumer of one session writes to all clients of the group: it
  gets the slice of clients, starts a goroutine for each element, waits for all and acknowledges.
  A goroutine whose write fails removes its client from the registry while the loop over the same
  slice may still run. \<open>bcast_do\<close> is one atomic step of all this, named by a \<open>bcast_label\<close>; a run is
  a list of labels, so the statements hold for every interleaving.
\<close>

subsection \<open>A broadcast\<close>

datatype bcast_label = Spawn | Wrote ptr | Failed ptr | Other registry_event | Ack

record bcast =
  bc_Map :: group_map
  bc_Slice :: slice
  bc_Next :: nat
  bc_Pending :: "ptr list"
  bc_Written :: "ptr list"
  bc_Failed :: "ptr list"
  bc_Acked :: bool

definition bcast_start :: "group_map \<Rightarrow> slice \<Rightarrow> bcast" where
  "bcast_start m s = \<lparr>bc_Map = m, bc_Slice = s, bc_Next = 0, bc_Pending = [], bc_Written = [], bc_Failed = [],
     bc_Acked = False\<rparr>"

text \<open>
  \<open>range\<close> fixes the length of the slice and reads each element when its turn comes. The wait ends
  when as many goroutines have finished as the slice had elements.
\<close>

fun bcast_do :: "(nat \<Rightarrow> nat) \<Rightarrow> string \<Rightarrow> bcast_label \<Rightarrow> bcast \<Rightarrow> bcast option" where
  "bcast_do grow key Spawn b =
     (if bc_Next b < sl_len (bc_Slice b)
      then Some (b\<lparr>bc_Next := bc_Next b + 1,
        bc_Pending := bc_Pending b @ [slice_elems (grp_heap (bc_Map b)) (bc_Slice b) ! bc_Next b]\<rparr>)
      else None)"
| "bcast_do grow key (Wrote c) b =
     (if c \<in> set (bc_Pending b)
      then Some (b\<lparr>bc_Pending := remove1 c (bc_Pending b), bc_Written := bc_Written b @ [c]\<rparr>)
      else None)"
| "bcast_do grow key (Failed c) b =
     (if c \<in> set (bc_Pending b)
      then Some (b\<lparr>bc_Pending := remove1 c (bc_Pending b), bc_Failed := bc_Failed b @ [c],
        bc_Map := group_RemoveClient key c (bc_Map b)\<rparr>)
      else None)"
| "bcast_do grow key (Other e) b = Some (b\<lparr>bc_Map := group_event grow e (bc_Map b)\<rparr>)"
| "bcast_do grow key Ack b =
     (if bc_Next b = sl_len (bc_Slice b) \<and> bc_Pending b = [] \<and> \<not> bc_Acked b
      then Some (b\<lparr>bc_Acked := True\<rparr>) else None)"

definition bcast_run :: "(nat \<Rightarrow> nat) \<Rightarrow> string \<Rightarrow> bcast_label list \<Rightarrow> bcast \<Rightarrow> bcast option" where
  "bcast_run grow key labels b = fold_opt (bcast_do grow key) labels b"

subsection \<open>The consumer\<close>

text \<open>
  The messages that one subscription delivers, each with the changes of the registry before it and
  the schedule of its broadcast. The result: how many messages were acknowledged, the registry, and
  whether the consumer has returned because the group had no clients. No value is a schedule that
  the code cannot follow to its end.
\<close>

fun eat_deliveries ::
  "(nat \<Rightarrow> nat) \<Rightarrow> string \<Rightarrow> (registry_event list \<times> bcast_label list) list \<Rightarrow> nat \<Rightarrow> group_map \<Rightarrow>
   (nat \<times> group_map \<times> bool) option" where
  "eat_deliveries grow key [] acked m = Some (acked, m, False)"
| "eat_deliveries grow key ((es, labels) # ds) acked m =
     (let m = fold (group_event grow) es m; (clients, ok) = group_Get key m in
      if \<not> ok then Some (acked, m, True)
      else do {
        b \<leftarrow> bcast_run grow key labels (bcast_start m clients);
        (if bc_Acked b then eat_deliveries grow key ds (acked + 1) (bc_Map b) else None)
      })"

text \<open>The outer loop subscribes again when a subscription ends; a failure to subscribe ends it.\<close>

fun eat_consumer ::
  "(nat \<Rightarrow> nat) \<Rightarrow> string \<Rightarrow> (string + (registry_event list \<times> bcast_label list) list) list \<Rightarrow> nat \<Rightarrow> group_map \<Rightarrow>
   (nat \<times> group_map \<times> bool) option" where
  "eat_consumer grow key [] acked m = Some (acked, m, False)"
| "eat_consumer grow key (Inl err # ss) acked m = Some (acked, m, True)"
| "eat_consumer grow key (Inr ds # ss) acked m = do {
     (acked, m, returned) \<leftarrow> eat_deliveries grow key ds acked m;
     (if returned then Some (acked, m, True) else eat_consumer grow key ss acked m)
   }"

subsection \<open>A session\<close>

text \<open>
  The part of the handler before the consumer starts; errors are recorded and do not stop it. The
  result is the context, the registry, the user and the broker.
\<close>

definition eat_connect ::
  "(nat \<Rightarrow> nat) \<Rightarrow> ('b, 'bytes) amqp_ops \<Rightarrow> (string \<Rightarrow> string option \<times> user_data) \<Rightarrow> ptr \<Rightarrow> string + nat \<Rightarrow>
   gin_ctx \<Rightarrow> group_map \<Rightarrow> 'b \<Rightarrow> gin_ctx \<times> group_map \<times> group_client \<times> 'b" where
  "eat_connect grow ops unmarshal client upgrade c m b =
     (let groupCode = ctx_Param ''groupCode'' c;
          (ws, err) = (case upgrade of Inl err \<Rightarrow> (0, Some err) | Inr ws \<Rightarrow> (ws, None));
          c = FailIfError err StatusInternalServerError c;
          (err, userData) = unmarshal (GetHeader ''userData'' c);
          c = FailIfError err StatusInternalServerError c;
          m = group_Add grow groupCode client m;
          (err, b) = DeclareAndBindQueue ops groupCode groupCode b;
          c = FailIfError err StatusInternalServerError c
      in (c, m, \<lparr>gc_Conn = ws, gc_Sub = ud_Sub userData\<rparr>, b))"

text \<open>The deferred function, when a read from the connection has failed.\<close>

definition eat_disconnect :: "string \<Rightarrow> ptr \<Rightarrow> group_map \<Rightarrow> group_map" where
  "eat_disconnect groupCode client m = group_RemoveClient groupCode client m"

text \<open>
  The handler then reads and drops messages until a read fails; \<open>reads\<close> are the results so far, and
  \<open>meanwhile\<close> what other sessions and the consumers do to the registry. The first component says
  that the session has ended.
\<close>

fun eat_read_loop :: "string option list \<Rightarrow> bool" where
  "eat_read_loop [] = False"
| "eat_read_loop (None # reads) = eat_read_loop reads"
| "eat_read_loop (Some err # reads) = True"

definition EatProcessorQueueHandler ::
  "(nat \<Rightarrow> nat) \<Rightarrow> ('b, 'bytes) amqp_ops \<Rightarrow> (string \<Rightarrow> string option \<times> user_data) \<Rightarrow> ptr \<Rightarrow> string + nat \<Rightarrow>
   string option list \<Rightarrow> (group_map \<Rightarrow> group_map) \<Rightarrow> gin_ctx \<Rightarrow> group_map \<Rightarrow> 'b \<Rightarrow> bool \<times> gin_ctx \<times> group_map \<times> 'b" where
  "EatProcessorQueueHandler grow ops unmarshal client upgrade reads meanwhile c m b =
     (let (c, m, data, b) = eat_connect grow ops unmarshal client upgrade c m b;
          m = meanwhile m;
          ended = eat_read_loop reads
      in (ended, c, if ended then eat_disconnect (ctx_Param ''groupCode'' c) client m else m, b))"

text \<open>To the registry, a session is its client's join and, at its end, the client's leave.\<close>

lemma ctx_Param_FailIfError [simp]: "ctx_Param key (FailIfError err code c) = ctx_Param key c"
  by (simp add: FailIfError_def ctx_Param_def AbortWithError_def split: option.split)

lemma session_events:
  assumes "EatProcessorQueueHandler grow ops unmarshal client upgrade reads (fold (group_event grow) es) c m b =
      (ended, c', m', b')"
  shows "m' = fold (group_event grow) (Joins (ctx_Param ''groupCode'' c) client # es @
      (if ended then [Leaves (ctx_Param ''groupCode'' c) client] else [])) m"
  using assms
  by (auto simp: EatProcessorQueueHandler_def eat_connect_def eat_disconnect_def Let_def split: prod.splits if_splits)

subsection \<open>Invariants of a broadcast\<close>

text \<open>Every element of the slice whose turn has come has one goroutine, waiting or done.\<close>

definition bcast_inv :: "slice \<Rightarrow> bcast \<Rightarrow> bool" where
  "bcast_inv s b \<longleftrightarrow> bc_Slice b = s \<and> bc_Next b \<le> sl_len s \<and>
     length (bc_Pending b) + length (bc_Written b) + length (bc_Failed b) = bc_Next b \<and>
     (bc_Acked b \<longrightarrow> bc_Next b = sl_len s \<and> bc_Pending b = [])"

lemma bcast_inv_start: "bcast_inv s (bcast_start m s)"
  by (simp add: bcast_inv_def bcast_start_def)

lemma length_remove1_Suc: "c \<in> set xs \<Longrightarrow> Suc (length (remove1 c xs)) = length xs"
  by (induction xs) auto

lemma bcast_inv_step:
  assumes "bcast_do grow key l b = Some b'" "bcast_inv s b"
  shows "bcast_inv s b'"
proof (cases l)
  case (Wrote c)
  then show ?thesis using assms length_remove1_Suc[of c "bc_Pending b"]
    by (cases "c \<in> set (bc_Pending b)") (auto simp: bcast_inv_def)
next
  case (Failed c)
  then show ?thesis using assms length_remove1_Suc[of c "bc_Pending b"]
    by (cases "c \<in> set (bc_Pending b)") (auto simp: bcast_inv_def)
next
  case Ack
  then have "b' = b\<lparr>bc_Acked := True\<rparr>" "bc_Next b = sl_len (bc_Slice b)" "bc_Pending b = []"
    using assms(1) by (simp_all split: if_splits)
  then show ?thesis using assms(2) by (simp add: bcast_inv_def)
qed (use assms in \<open>auto simp: bcast_inv_def split: if_splits\<close>)

lemma bcast_inv_run: "bcast_run grow key ls b = Some b' \<Longrightarrow> bcast_inv s b \<Longrightarrow> bcast_inv s b'"
  unfolding bcast_run_def by (rule fold_opt_invariant) (auto intro: bcast_inv_step)

text \<open>Without failing writes and changes of the group, the slice stays what it was.\<close>

fun quiet_label :: "string \<Rightarrow> bcast_label \<Rightarrow> bool" where
  "quiet_label key (Failed c) = False"
| "quiet_label key (Other (Joins k c)) = (k \<noteq> key)"
| "quiet_label key (Other (Leaves k c)) = (k \<noteq> key)"
| "quiet_label key (Other (Closes k)) = (k \<noteq> key)"
| "quiet_label key l = True"

definition quiet_inv :: "string \<Rightarrow> slice \<Rightarrow> ptr list \<Rightarrow> bcast \<Rightarrow> bool" where
  "quiet_inv key s ms b \<longleftrightarrow> bc_Slice b = s \<and> group_ok (bc_Map b) \<and> gomap_get (grp_Map (bc_Map b)) key = Some s \<and>
     group_members (bc_Map b) key = ms \<and> bc_Failed b = [] \<and> bc_Next b \<le> length ms \<and>
     mset (bc_Pending b) + mset (bc_Written b) = mset (take (bc_Next b) ms)"

lemma event_other_key:
  assumes "quiet_label key (Other e)" "group_ok m" "gomap_get (grp_Map m) key = Some s"
  shows "group_ok (group_event grow e m) \<and> gomap_get (grp_Map (group_event grow e m)) key = Some s \<and>
    group_members (group_event grow e m) key = group_members m key"
proof (cases e)
  case (Joins k c)
  then show ?thesis using assms group_add_spec[OF assms(2), of grow k c]
    by (auto simp: group_Add_def split: prod.splits)
next
  case (Leaves k c)
  have "gomap_get (grp_Map (group_RemoveClient k c m)) key = Some s"
    using assms Leaves
    by (auto simp: group_RemoveClient_def Let_def split: option.splits prod.splits)
  then show ?thesis using assms Leaves group_drop_spec[OF assms(2), of k c] by auto
next
  case (Closes k)
  then show ?thesis using assms group_remove_spec[OF assms(2), of k] by (auto simp: group_Remove_def)
qed

lemma quiet_step:
  assumes "bcast_do grow key l b = Some b'" "quiet_label key l" "quiet_inv key s ms b"
  shows "quiet_inv key s ms b'"
proof (cases l)
  case Spawn
  have ms: "slice_elems (grp_heap (bc_Map b)) s = ms" "bc_Slice b = s"
    using assms(3) members_Some[of "bc_Map b" key s] by (auto simp: quiet_inv_def)
  have wf: "slice_wf (grp_heap (bc_Map b)) s" using assms(3) by (auto simp: quiet_inv_def group_ok_def)
  then have "length ms = sl_len s" using ms(1) by (auto simp: slice_elems_def slice_wf_def)
  then have "bc_Next b < length ms" using assms(1) Spawn ms(2) by (auto split: if_splits)
  then show ?thesis using assms Spawn ms
    by (auto simp: quiet_inv_def take_Suc_conv_app_nth split: if_splits)
next
  case (Wrote c)
  then have c: "c \<in> set (bc_Pending b)"
    and b': "b' = b\<lparr>bc_Pending := remove1 c (bc_Pending b), bc_Written := bc_Written b @ [c]\<rparr>"
    using assms(1) by (simp_all split: if_splits)
  have "mset (remove1 c (bc_Pending b)) + add_mset c (mset (bc_Written b)) = mset (bc_Pending b) + mset (bc_Written b)"
    using c by simp
  then show ?thesis using assms(3) unfolding b' quiet_inv_def by (simp del: mset_remove1)
next
  case (Other e)
  then show ?thesis using assms event_other_key[of key e "bc_Map b" s grow]
    by (auto simp: quiet_inv_def)
qed (use assms in \<open>auto simp: quiet_inv_def split: if_splits\<close>)

lemma quiet_run:
  assumes "bcast_run grow key ls b = Some b'" "list_all (quiet_label key) ls" "quiet_inv key s ms b"
  shows "quiet_inv key s ms b'"
  using assms(1,3) unfolding bcast_run_def
  by (rule fold_opt_invariant) (use assms(2) quiet_step in \<open>auto simp: list_all_iff\<close>)

lemma group_ok_events: "group_ok (fold (group_event grow) es NewGroupCodeDataClientManagerMap)"
  unfolding group_event_run by (rule group_reg.ok_run[OF group_reg.ok_new])

lemma group_Get_members:
  assumes "group_ok m"
  shows "snd (group_Get key m) \<longleftrightarrow> group_members m key \<noteq> []"
proof (cases "gomap_get (grp_Map m) key")
  case None
  then show ?thesis by (simp add: group_Get_def members_None)
next
  case (Some s)
  then have "slice_wf (grp_heap m) s" "0 < sl_len s" using assms by (auto simp: group_ok_def)
  then show ?thesis using Some by (auto simp: group_Get_def members_Some slice_elems_def slice_wf_def)
qed

subsection \<open>Properties\<close>

text \<open>A message is acknowledged only after one write has been tried for each element of the slice that
  was read at its arrival, and each ended in a success or a failure, whatever the schedule.\<close>

lemma broadcast_acks_after_writes:
  assumes "bcast_run grow key labels (bcast_start m s) = Some b" "bc_Acked b"
  shows "length (bc_Written b) + length (bc_Failed b) = sl_len s \<and> bc_Pending b = []"
  using bcast_inv_run[OF assms(1) bcast_inv_start] assms(2) by (auto simp: bcast_inv_def)

text \<open>The group \<open>g\<close> with clients 1, 2 and 3.\<close>

definition three_clients :: "(nat \<Rightarrow> nat) \<Rightarrow> group_map" where
  "three_clients grow = fold (group_event grow) [Joins ''g'' 1, Joins ''g'' 2, Joins ''g'' 3]
     NewGroupCodeDataClientManagerMap"

lemma three_clients_members: "group_members (three_clients grow) ''g'' = [1, 2, 3]"
  unfolding three_clients_def group_members_events by simp

lemma three_clients_Get:
  obtains s where "group_Get ''g'' (three_clients grow) = (s, True)" "sl_len s = 3"
    "slice_elems (grp_heap (three_clients grow)) s = [1, 2, 3]"
proof -
  obtain s where s: "gomap_get (grp_Map (three_clients grow)) ''g'' = Some s"
    using members_None[of "three_clients grow" "''g''"] three_clients_members[of grow]
    by (cases "gomap_get (grp_Map (three_clients grow)) ''g''") auto
  have "slice_wf (grp_heap (three_clients grow)) s"
    using group_ok_events[of grow] s unfolding three_clients_def group_ok_def by blast
  moreover have e: "slice_elems (grp_heap (three_clients grow)) s = [1, 2, 3]"
    using members_Some[OF s] three_clients_members[of grow] by simp
  ultimately have "sl_len s = 3"
    by (metis length_take list.size(3,4) min.absorb2 numeral_3_eq_3 slice_elems_def slice_wf_def add.right_neutral add_Suc_right One_nat_def)
  then show thesis using that[of s] s e by (simp add: group_Get_def map_slice_def)
qed

definition quiet_schedule :: "bcast_label list" where
  "quiet_schedule = [Spawn, Spawn, Wrote 2, Spawn, Wrote 1, Wrote 3, Ack]"

lemma quiet_schedule_run:
  obtains s b where "group_Get ''g'' (three_clients grow) = (s, True)"
    "bcast_run grow ''g'' quiet_schedule (bcast_start (three_clients grow) s) = Some b" "bc_Acked b"
proof -
  obtain s where s: "group_Get ''g'' (three_clients grow) = (s, True)" "sl_len s = 3"
      "slice_elems (grp_heap (three_clients grow)) s = [1, 2, 3]"
    by (rule three_clients_Get)
  then show thesis using that[of s] by (simp add: bcast_run_def quiet_schedule_def bcast_start_def)
qed

lemma broadcast_acks_after_writes_witness:
  "\<exists>s b. bcast_run (\<lambda>n. n) ''g'' quiet_schedule (bcast_start (three_clients (\<lambda>n. n)) s) = Some b \<and>
    length (bc_Written b) + length (bc_Failed b) = sl_len s"
proof -
  obtain s b where "bcast_run (\<lambda>n. n) ''g'' quiet_schedule (bcast_start (three_clients (\<lambda>n. n)) s) = Some b" "bc_Acked b"
    using quiet_schedule_run[of "\<lambda>n. n"] by metis
  then show ?thesis using broadcast_acks_after_writes by blast
qed

text \<open>C10: If no write fails and nobody joins or leaves the group during a broadcast, every client of the
  group gets the message exactly once, however the goroutines and the sessions of other groups
  interleave.\<close>

theorem broadcast_delivers_once:
  assumes "m = fold (group_event grow) es NewGroupCodeDataClientManagerMap" "group_Get key m = (s, True)"
    and "bcast_run grow key labels (bcast_start m s) = Some b" "bc_Acked b" "list_all (quiet_label key) labels"
  shows "mset (bc_Written b) = mset (group_members m key) \<and> bc_Failed b = []"
proof -
  have ok: "group_ok m" using assms(1) group_ok_events by simp
  have s: "gomap_get (grp_Map m) key = Some s" using assms(2) by (auto simp: group_Get_def map_slice_def)
  then have len: "length (group_members m key) = sl_len s"
    using ok by (auto simp: members_Some group_ok_def slice_elems_def slice_wf_def)
  have "quiet_inv key s (group_members m key) (bcast_start m s)"
    using ok s by (simp add: quiet_inv_def bcast_start_def)
  from quiet_run[OF assms(3,5) this] bcast_inv_run[OF assms(3) bcast_inv_start] assms(4) len
  show ?thesis by (auto simp: quiet_inv_def bcast_inv_def)
qed

theorem broadcast_delivers_once_witness:
  "\<exists>s b. bcast_run (\<lambda>n. n) ''g'' quiet_schedule (bcast_start (three_clients (\<lambda>n. n)) s) = Some b \<and>
    mset (bc_Written b) = {#1, 2, 3#}"
proof -
  obtain s b where "group_Get ''g'' (three_clients (\<lambda>n. n)) = (s, True)"
      "bcast_run (\<lambda>n. n) ''g'' quiet_schedule (bcast_start (three_clients (\<lambda>n. n)) s) = Some b" "bc_Acked b"
    by (rule quiet_schedule_run)
  then show ?thesis
    using broadcast_delivers_once[OF three_clients_def, of "''g''" "\<lambda>n. n" s quiet_schedule b]
    by (auto simp: three_clients_members quiet_schedule_def)
qed

text \<open>C36: A failing client can cost another client the message: when the write to the first of three
  clients fails before the loop goes on, its removal shifts the slice under the loop, and the
  message is acknowledged although the second client, still connected, never got it, while the third
  got it twice.\<close>

theorem broadcast_skips_client:
  "\<exists>s b. group_Get ''g'' (three_clients grow) = (s, True) \<and>
    bcast_run grow ''g'' [Spawn, Failed 1, Spawn, Wrote 3, Spawn, Wrote 3, Ack] (bcast_start (three_clients grow) s) = Some b \<and>
    bc_Acked b \<and> bc_Written b = [3, 3] \<and> group_members (bc_Map b) ''g'' = [2, 3]"
proof -
  obtain s where s: "group_Get ''g'' (three_clients grow) = (s, True)" "sl_len s = 3"
      "slice_elems (grp_heap (three_clients grow)) s = [1, 2, 3]"
    by (rule three_clients_Get)
  have ok: "group_ok (three_clients grow)" unfolding three_clients_def by (rule group_ok_events)
  have e: "slice_elems (grp_heap (group_RemoveClient ''g'' 1 (three_clients grow))) s = [2, 3, 3]"
    using snapshot_after_remove[OF ok s(1), of 1] by (simp add: three_clients_members)
  have "group_members (group_RemoveClient ''g'' 1 (three_clients grow)) ''g'' = [2, 3]"
    using group_drop_spec[OF ok, of "''g''" 1] by (simp add: three_clients_members)
  then show ?thesis using s e by (simp add: bcast_run_def bcast_start_def)
qed

text \<open>A consumer whose group has no clients left when a message arrives returns without
  acknowledging it, and it takes no further messages.\<close>

lemma consumer_gives_up_on_empty_group:
  assumes "m = fold (group_event grow) es0 NewGroupCodeDataClientManagerMap"
    and "group_members (fold (group_event grow) es m) key = []"
  shows "eat_consumer grow key (Inr ((es, labels) # ds) # ss) acked m = Some (acked, fold (group_event grow) es m, True)"
proof -
  have "group_ok (fold (group_event grow) es m)"
    using group_ok_events[of grow "es0 @ es"] assms(1) by simp
  then have "\<not> snd (group_Get key (fold (group_event grow) es m))" using group_Get_members assms(2) by blast
  then show ?thesis by (cases "group_Get key (fold (group_event grow) es m)") simp
qed

lemma consumer_gives_up_on_empty_group_witness:
  "\<exists>m. eat_consumer (\<lambda>n. n) ''g'' [Inr [([Leaves ''g'' 1], [])]] 0
    (fold (group_event (\<lambda>n. n)) [Joins ''g'' 1] NewGroupCodeDataClientManagerMap) = Some (0, m, True)"
proof -
  have "group_members (fold (group_event (\<lambda>n. n)) [Leaves ''g'' 1]
      (fold (group_event (\<lambda>n. n)) [Joins ''g'' 1] NewGroupCodeDataClientManagerMap)) ''g'' = []"
    using group_members_events[of "\<lambda>n. n" "[Joins ''g'' 1, Leaves ''g'' 1]"] by simp
  from consumer_gives_up_on_empty_group[OF refl this] show ?thesis by blast
qed

end
