(* ===== verification/GroupQueue.thy ===== *)
theory GroupQueue
  imports EatWs
begin

section \<open>A group's queue with many sessions\<close>

text \<open>
  Every session of a group starts a consumer on the one queue of the group, and every consumer
  writes to all clients of the group. This theory composes the handlers of \<open>EatWs\<close>: the queue, the
  registry they share, and the consumers, each waiting for a message, busy with a broadcast, or
  returned. A consumer outlives the session that started it.

  Of RabbitMQ only this is used: a queue is first in, first out; its oldest message goes to one of the
  subscriptions, which one is left open; and a message that is not acknowledged is not delivered again
  while the connection of the server lasts. The library keeps the messages of a subscription in order
  until its consumer takes them, as many as come, since the code sets no prefetch limit. The
  subscription of a consumer that has returned is not cancelled, so messages still go there, and are
  stranded, with those that it had not taken.

  \<open>queue_conserved\<close>: no message is lost or duplicated among the queue, the consumers, those
  whose acknowledgement was made or failed and the stranded ones. \<open>acks_after_writes\<close>: no consumer
  acknowledges before its broadcast is done. \<open>busy_finishes\<close>: every broadcast can be completed.
\<close>

datatype 'm consumer = Off | Waiting | Busy 'm bcast | Returned | Unsubscribed

record 'm group_queue =
  gq_Queue :: "'m list"
  gq_Map :: group_map
  gq_Consumer :: "ptr \<Rightarrow> 'm consumer"
  gq_Buffer :: "ptr \<Rightarrow> 'm list"
  gq_Acked :: "'m list"
  gq_Unacked :: "'m list"
  gq_Stranded :: "'m list"
  gq_Written :: "(ptr \<times> 'm) list"
  gq_Published :: "'m list"

definition queue_init :: "'m group_queue" where
  "queue_init = \<lparr>gq_Queue = [], gq_Map = NewGroupCodeDataClientManagerMap, gq_Consumer = (\<lambda>_. Off),
     gq_Buffer = (\<lambda>_. []), gq_Acked = [],
     gq_Unacked = [], gq_Stranded = [], gq_Written = [], gq_Published = []\<rparr>"

text \<open>
  The steps: a publication to the queue; the begin of a session, whose client is a pointer of its own,
  with a subscription or without one, if \<open>Consume\<close> fails; the end of a session; the broker gives the oldest
  message to a subscription; a consumer takes the next message of its subscription; a step of a
  broadcast; its last one, if the acknowledgement fails, which is only logged; an event of another group.
\<close>

datatype 'm queue_label =
  Publishes 'm | Connects ptr | ConnectsOnly ptr | Disconnects ptr | Push ptr | Deliver ptr | Work ptr bcast_label | AckFails ptr | Elsewhere registry_event

definition broker_push :: "ptr \<Rightarrow> 'm \<Rightarrow> 'm group_queue \<Rightarrow> 'm group_queue option" where
  "broker_push c m s =
     (case gq_Consumer s c of
        Off \<Rightarrow> None
      | Unsubscribed \<Rightarrow> None
      | Returned \<Rightarrow> Some (s\<lparr>gq_Stranded := gq_Stranded s @ [m]\<rparr>)
      | _ \<Rightarrow> Some (s\<lparr>gq_Buffer := (gq_Buffer s)(c := gq_Buffer s c @ [m])\<rparr>))"

definition consumer_receive :: "string \<Rightarrow> ptr \<Rightarrow> 'm group_queue \<Rightarrow> 'm group_queue option" where
  "consumer_receive key c s =
     (case (gq_Consumer s c, gq_Buffer s c) of
        (Waiting, m # ms) \<Rightarrow>
          let (clients, ok) = group_Get key (gq_Map s) in
          Some (if ok
                then s\<lparr>gq_Buffer := (gq_Buffer s)(c := ms),
                  gq_Consumer := (gq_Consumer s)(c := Busy m (bcast_start (gq_Map s) clients))\<rparr>
                else s\<lparr>gq_Buffer := (gq_Buffer s)(c := []), gq_Consumer := (gq_Consumer s)(c := Returned),
                  gq_Stranded := gq_Stranded s @ m # ms\<rparr>)
      | _ \<Rightarrow> None)"

definition consumer_work ::
  "(nat \<Rightarrow> nat) \<Rightarrow> string \<Rightarrow> ptr \<Rightarrow> bcast_label \<Rightarrow> bool \<Rightarrow> 'm group_queue \<Rightarrow> 'm group_queue option" where
  "consumer_work grow key c l ackErr s =
     (case gq_Consumer s c of
        Busy m b \<Rightarrow> do {
          b \<leftarrow> bcast_do grow key l (b\<lparr>bc_Map := gq_Map s\<rparr>);
          let written = (case l of Wrote d \<Rightarrow> gq_Written s @ [(d, m)] | _ \<Rightarrow> gq_Written s);
          let s = s\<lparr>gq_Map := bc_Map b, gq_Written := written\<rparr>;
          Some (if bc_Acked b
                then s\<lparr>gq_Consumer := (gq_Consumer s)(c := Waiting),
                  gq_Acked := gq_Acked s @ (if ackErr then [] else [m]),
                  gq_Unacked := gq_Unacked s @ (if ackErr then [m] else [])\<rparr>
                else s\<lparr>gq_Consumer := (gq_Consumer s)(c := Busy m b)\<rparr>)
        }
      | _ \<Rightarrow> None)"

fun queue_do :: "(nat \<Rightarrow> nat) \<Rightarrow> string \<Rightarrow> 'm queue_label \<Rightarrow> 'm group_queue \<Rightarrow> 'm group_queue option" where
  "queue_do grow key (Publishes m) s = Some (s\<lparr>gq_Queue := gq_Queue s @ [m], gq_Published := gq_Published s @ [m]\<rparr>)"
| "queue_do grow key (Connects c) s =
     (if gq_Consumer s c = Off
      then Some (s\<lparr>gq_Map := group_Add grow key c (gq_Map s), gq_Consumer := (gq_Consumer s)(c := Waiting)\<rparr>)
      else None)"
| "queue_do grow key (ConnectsOnly c) s =
     (if gq_Consumer s c = Off
      then Some (s\<lparr>gq_Map := group_Add grow key c (gq_Map s), gq_Consumer := (gq_Consumer s)(c := Unsubscribed)\<rparr>)
      else None)"
| "queue_do grow key (Disconnects c) s =
     (if gq_Consumer s c = Off then None else Some (s\<lparr>gq_Map := eat_disconnect key c (gq_Map s)\<rparr>))"
| "queue_do grow key (Push c) s =
     (case gq_Queue s of [] \<Rightarrow> None | m # ms \<Rightarrow> broker_push c m (s\<lparr>gq_Queue := ms\<rparr>))"
| "queue_do grow key (Deliver c) s = consumer_receive key c s"
| "queue_do grow key (Work c l) s = (case l of Other e \<Rightarrow> None | _ \<Rightarrow> consumer_work grow key c l False s)"
| "queue_do grow key (AckFails c) s = consumer_work grow key c Ack True s"
| "queue_do grow key (Elsewhere e) s =
     (if quiet_label key (Other e) then Some (s\<lparr>gq_Map := group_event grow e (gq_Map s)\<rparr>) else None)"

inductive queue_reachable :: "(nat \<Rightarrow> nat) \<Rightarrow> string \<Rightarrow> 'm group_queue \<Rightarrow> bool" for grow key where
  reach_init: "queue_reachable grow key queue_init"
| reach_step: "queue_reachable grow key s \<Longrightarrow> queue_do grow key l s = Some s' \<Longrightarrow> queue_reachable grow key s'"

lemma reach_run:
  assumes "queue_reachable grow key s" "fold_opt (queue_do grow key) ls s = Some s'"
  shows "queue_reachable grow key s'"
  using assms(2,1) by (rule fold_opt_invariant) (auto intro: reach_step)

subsection \<open>Conservation\<close>

fun held :: "'m consumer \<Rightarrow> 'm multiset" where
  "held (Busy m b) = {#m#}"
| "held _ = {#}"

definition spread :: "(ptr \<Rightarrow> 'm multiset) \<Rightarrow> 'm multiset" where
  "spread g = (\<Sum>c\<in>{c. g c \<noteq> {#}}. g c)"

lemma spread_superset:
  assumes "finite A" "{c. g c \<noteq> {#}} \<subseteq> A"
  shows "spread g = (\<Sum>c\<in>A. g c)"
  unfolding spread_def by (rule sum.mono_neutral_left[OF assms]) auto

lemma spread_upd:
  assumes "finite {c. g c \<noteq> {#}}"
  shows "spread (g(c := x)) + g c = spread g + x"
proof -
  let ?A = "insert c {c. g c \<noteq> {#}}"
  have A: "finite ?A" "c \<in> ?A" and sub: "{d. (g(c := x)) d \<noteq> {#}} \<subseteq> ?A" "{d. g d \<noteq> {#}} \<subseteq> ?A" using assms by auto
  have 1: "spread g = g c + (\<Sum>d\<in>?A - {c}. g d)"
    unfolding spread_superset[OF A(1) sub(2)] by (rule sum.remove[OF A])
  have "spread (g(c := x)) = x + (\<Sum>d\<in>?A - {c}. (g(c := x)) d)"
    unfolding spread_superset[OF A(1) sub(1)] using sum.remove[OF A, of "g(c := x)"] by (simp only: fun_upd_same)
  also have "(\<Sum>d\<in>?A - {c}. (g(c := x)) d) = (\<Sum>d\<in>?A - {c}. g d)" by (rule sum.cong) auto
  finally show ?thesis using 1 by (simp only: ac_simps)
qed

lemma finite_support_upd: "finite {c. g c \<noteq> {#}} \<Longrightarrow> finite {d. (g(c := x)) d \<noteq> {#}}"
  by (rule finite_subset[of _ "insert c {c. g c \<noteq> {#}}"]) auto

text \<open>The messages that a consumer has: of its subscription, and of its broadcast.\<close>

definition held_by :: "'m group_queue \<Rightarrow> ptr \<Rightarrow> 'm multiset" where
  "held_by s c = held (gq_Consumer s c) + mset (gq_Buffer s c)"

definition in_flight :: "'m group_queue \<Rightarrow> 'm multiset" where
  "in_flight s = spread (held_by s)"

definition queue_conserved :: "'m group_queue \<Rightarrow> bool" where
  "queue_conserved s \<longleftrightarrow> finite {c. held_by s c \<noteq> {#}} \<and>
     mset (gq_Published s) = mset (gq_Queue s) + mset (gq_Acked s) + mset (gq_Unacked s) + mset (gq_Stranded s) + in_flight s"

text \<open>A step changes what one consumer has.\<close>

lemma conserved_change:
  assumes "queue_conserved s" "held_by s' = (held_by s)(c := x)" "gq_Published s' = gq_Published s"
    and "mset (gq_Queue s') + mset (gq_Acked s') + mset (gq_Unacked s') + mset (gq_Stranded s') + x =
      mset (gq_Queue s) + mset (gq_Acked s) + mset (gq_Unacked s) + mset (gq_Stranded s) + held_by s c"
  shows "queue_conserved s'"
proof -
  have fin: "finite {c. held_by s c \<noteq> {#}}" using assms(1) by (simp add: queue_conserved_def)
  have "mset (gq_Published s') + held_by s c =
      (mset (gq_Queue s) + mset (gq_Acked s) + mset (gq_Unacked s) + mset (gq_Stranded s) + held_by s c) + spread (held_by s)"
    using assms(1,3) by (simp add: queue_conserved_def in_flight_def)
  also have "\<dots> = (mset (gq_Queue s') + mset (gq_Acked s') + mset (gq_Unacked s') + mset (gq_Stranded s')) + (spread (held_by s) + x)"
    unfolding assms(4)[symmetric] by (simp only: ac_simps)
  also have "\<dots> = (mset (gq_Queue s') + mset (gq_Acked s') + mset (gq_Unacked s') + mset (gq_Stranded s') + spread (held_by s')) + held_by s c"
    unfolding spread_upd[OF fin, of c x, symmetric] assms(2)[symmetric] by (simp only: ac_simps)
  finally have "mset (gq_Published s') =
      mset (gq_Queue s') + mset (gq_Acked s') + mset (gq_Unacked s') + mset (gq_Stranded s') + spread (held_by s')"
    by (rule add_right_imp_eq)
  then show ?thesis using finite_support_upd[OF fin] assms(2) by (simp add: queue_conserved_def in_flight_def)
qed

lemma held_by_upd:
  "gq_Consumer s' = (gq_Consumer s)(c := x) \<Longrightarrow> gq_Buffer s' = (gq_Buffer s)(c := ms) \<Longrightarrow>
   held_by s' = (held_by s)(c := held x + mset ms)"
  by (auto simp: held_by_def)

lemma held_by_same:
  "gq_Consumer s' = gq_Consumer s \<Longrightarrow> gq_Buffer s' = gq_Buffer s \<Longrightarrow> held_by s' = (held_by s)(c := held_by s c)"
  by (auto simp: held_by_def)

lemma push_conserved:
  assumes "gq_Queue s = m # ms" "broker_push c m (s\<lparr>gq_Queue := ms\<rparr>) = Some s'" "queue_conserved s"
  shows "queue_conserved s'"
proof (cases "gq_Consumer s c = Returned")
  case True
  then have "s' = s\<lparr>gq_Queue := ms, gq_Stranded := gq_Stranded s @ [m]\<rparr>" using assms(2) by (simp add: broker_push_def)
  then show ?thesis using assms(1) by (intro conserved_change[OF assms(3) held_by_same[of _ _ c]]) simp_all
next
  case False
  then have s': "s' = s\<lparr>gq_Queue := ms, gq_Buffer := (gq_Buffer s)(c := gq_Buffer s c @ [m])\<rparr>"
    using assms(2) by (auto simp: broker_push_def split: consumer.splits)
  have "gq_Consumer s' = (gq_Consumer s)(c := gq_Consumer s c)" unfolding s' by simp
  then show ?thesis using assms(1) s' held_by_upd[of s' s c "gq_Consumer s c" "gq_Buffer s c @ [m]"]
    by (intro conserved_change[OF assms(3), of s' c]) (simp_all add: held_by_def)
qed

lemma receive_conserved:
  assumes "consumer_receive key c s = Some s'" "queue_conserved s"
  shows "queue_conserved s'"
proof -
  obtain m ms where w: "gq_Consumer s c = Waiting" "gq_Buffer s c = m # ms"
    using assms(1) by (auto simp: consumer_receive_def split: consumer.splits list.splits)
  obtain t ok where get: "group_Get key (gq_Map s) = (t, ok)" by (cases "group_Get key (gq_Map s)")
  show ?thesis
  proof (cases ok)
    case True
    then have "s' = s\<lparr>gq_Buffer := (gq_Buffer s)(c := ms), gq_Consumer := (gq_Consumer s)(c := Busy m (bcast_start (gq_Map s) t))\<rparr>"
      using assms(1) w get by (simp add: consumer_receive_def)
    then show ?thesis using w held_by_upd[of s' s c "Busy m (bcast_start (gq_Map s) t)" ms]
      by (intro conserved_change[OF assms(2), of s' c]) (simp_all add: held_by_def)
  next
    case False
    then have "s' = s\<lparr>gq_Buffer := (gq_Buffer s)(c := []), gq_Consumer := (gq_Consumer s)(c := Returned),
        gq_Stranded := gq_Stranded s @ m # ms\<rparr>"
      using assms(1) w get by (simp add: consumer_receive_def)
    then show ?thesis using w held_by_upd[of s' s c Returned "[]"]
      by (intro conserved_change[OF assms(2), of s' c]) (simp_all add: held_by_def)
  qed
qed

text \<open>What a step of a broadcast makes of the state.\<close>

lemma work_cases:
  assumes "consumer_work grow key c l ackErr s = Some s'"
  obtains m b b' where "gq_Consumer s c = Busy m b" "bcast_do grow key l (b\<lparr>bc_Map := gq_Map s\<rparr>) = Some b'"
    "gq_Map s' = bc_Map b'" "gq_Consumer s' = (gq_Consumer s)(c := (if bc_Acked b' then Waiting else Busy m b'))"
    "gq_Buffer s' = gq_Buffer s" "gq_Queue s' = gq_Queue s" "gq_Stranded s' = gq_Stranded s" "gq_Published s' = gq_Published s"
    "gq_Written s' = gq_Written s @ (case l of Wrote d \<Rightarrow> [(d, m)] | _ \<Rightarrow> [])"
    "gq_Acked s' = gq_Acked s @ (if bc_Acked b' \<and> \<not> ackErr then [m] else [])"
    "gq_Unacked s' = gq_Unacked s @ (if bc_Acked b' \<and> ackErr then [m] else [])"
proof -
  obtain m b where b: "gq_Consumer s c = Busy m b"
    using assms by (auto simp: consumer_work_def split: consumer.splits)
  obtain b' where b': "bcast_do grow key l (b\<lparr>bc_Map := gq_Map s\<rparr>) = Some b'"
    using assms b by (cases "bcast_do grow key l (b\<lparr>bc_Map := gq_Map s\<rparr>)") (simp_all add: consumer_work_def)
  show thesis
    by (rule that[OF b b']; use assms b b' in \<open>auto simp: consumer_work_def Let_def split: bcast_label.splits\<close>)
qed

lemma work_conserved:
  assumes "consumer_work grow key c l ackErr s = Some s'" "queue_conserved s"
  shows "queue_conserved s'"
  using assms(1)
proof (rule work_cases)
  fix m b b'
  assume w: "gq_Consumer s c = Busy m b" "gq_Consumer s' = (gq_Consumer s)(c := (if bc_Acked b' then Waiting else Busy m b'))"
    "gq_Buffer s' = gq_Buffer s" "gq_Queue s' = gq_Queue s" "gq_Stranded s' = gq_Stranded s" "gq_Published s' = gq_Published s"
    "gq_Acked s' = gq_Acked s @ (if bc_Acked b' \<and> \<not> ackErr then [m] else [])"
    "gq_Unacked s' = gq_Unacked s @ (if bc_Acked b' \<and> ackErr then [m] else [])"
  have "gq_Buffer s' = (gq_Buffer s)(c := gq_Buffer s c)" using w(3) by simp
  from held_by_upd[OF w(2) this] show ?thesis
    using w by (intro conserved_change[OF assms(2), of s' c]) (auto simp: held_by_def)
qed

lemma queue_conserved_step:
  assumes "queue_do grow key l s = Some s'" "queue_conserved s"
  shows "queue_conserved s'"
proof (cases l)
  case (Publishes m)
  then have "held_by s' = held_by s" using assms(1) by (auto simp: held_by_def)
  then show ?thesis using assms Publishes by (auto simp: queue_conserved_def in_flight_def)
next
  case (Connects c)
  then have s': "gq_Consumer s c = Off" "s' = s\<lparr>gq_Map := group_Add grow key c (gq_Map s), gq_Consumer := (gq_Consumer s)(c := Waiting)\<rparr>"
    using assms(1) by (auto split: if_splits)
  then have "held_by s' = held_by s" by (auto simp: held_by_def)
  then show ?thesis using assms(2) s'(2) by (simp add: queue_conserved_def in_flight_def)
next
  case (ConnectsOnly c)
  then have s': "gq_Consumer s c = Off" "s' = s\<lparr>gq_Map := group_Add grow key c (gq_Map s), gq_Consumer := (gq_Consumer s)(c := Unsubscribed)\<rparr>"
    using assms(1) by (auto split: if_splits)
  then have "held_by s' = held_by s" by (auto simp: held_by_def)
  then show ?thesis using assms(2) s'(2) by (simp add: queue_conserved_def in_flight_def)
next
  case (Disconnects c)
  then have "held_by s' = held_by s" using assms(1) by (auto simp: held_by_def split: if_splits)
  then show ?thesis using assms Disconnects by (auto simp: queue_conserved_def in_flight_def split: if_splits)
next
  case (Push c)
  then show ?thesis using assms push_conserved by (auto split: list.splits)
next
  case (Deliver c)
  then show ?thesis using assms receive_conserved by simp
next
  case (Work c l')
  then have "consumer_work grow key c l' False s = Some s'" using assms(1) by (auto split: bcast_label.splits)
  then show ?thesis using assms(2) by (rule work_conserved)
next
  case (AckFails c)
  then have "consumer_work grow key c Ack True s = Some s'" using assms(1) by simp
  then show ?thesis using assms(2) by (rule work_conserved)
next
  case (Elsewhere e)
  then have "held_by s' = held_by s" using assms(1) by (auto simp: held_by_def split: if_splits)
  then show ?thesis using assms Elsewhere by (auto simp: queue_conserved_def in_flight_def split: if_splits)
qed

lemma queue_conserved_reachable: "queue_reachable grow key s \<Longrightarrow> queue_conserved s"
proof (induction rule: queue_reachable.induct)
  case reach_init
  then show ?case by (simp add: queue_conserved_def queue_init_def in_flight_def spread_def held_by_def)
qed (rule queue_conserved_step)

subsection \<open>Broadcasts\<close>

lemma group_ok_event: "group_ok m \<Longrightarrow> group_ok (group_event grow e m)"
  by (cases e) (simp_all add: group_add_spec group_drop_spec group_remove_spec)

lemma bcast_do_ok: "bcast_do grow key l b = Some b' \<Longrightarrow> group_ok (bc_Map b) \<Longrightarrow> group_ok (bc_Map b')"
  by (cases l) (auto simp: group_drop_spec group_ok_event split: if_splits)

lemma group_ok_step:
  assumes "queue_do grow key l s = Some s'" "group_ok (gq_Map s)"
  shows "group_ok (gq_Map s')"
proof (cases l)
  case (Push c)
  then have "gq_Map s' = gq_Map s" using assms(1) by (auto simp: broker_push_def split: list.splits consumer.splits)
  then show ?thesis using assms(2) by simp
next
  case (Deliver c)
  then have "gq_Map s' = gq_Map s"
    using assms(1) by (auto simp: consumer_receive_def split: list.splits consumer.splits prod.splits if_splits)
  then show ?thesis using assms(2) by simp
next
  case (Work c l')
  then have "consumer_work grow key c l' False s = Some s'" using assms(1) by (auto split: bcast_label.splits)
  then show ?thesis by (rule work_cases) (use assms(2) bcast_do_ok in fastforce)
next
  case (AckFails c)
  then have "consumer_work grow key c Ack True s = Some s'" using assms(1) by simp
  then show ?thesis by (rule work_cases) (use assms(2) bcast_do_ok in fastforce)
qed (use assms in \<open>auto simp: group_add_spec group_drop_spec eat_disconnect_def group_ok_event split: if_splits\<close>)

lemma queue_group_ok: "queue_reachable grow key s \<Longrightarrow> group_ok (gq_Map s)"
proof (induction rule: queue_reachable.induct)
  case reach_init
  then show ?case by (simp add: queue_init_def group_ok_new)
qed (rule group_ok_step)

text \<open>A broadcast goes through a slice that is not empty, and what it has written is recorded.\<close>

definition busy_ok :: "'m group_queue \<Rightarrow> bool" where
  "busy_ok s \<longleftrightarrow> (\<forall>c m b. gq_Consumer s c = Busy m b \<longrightarrow> bcast_inv (bc_Slice b) b \<and> \<not> bc_Acked b \<and>
     0 < sl_len (bc_Slice b) \<and> (\<forall>d\<in>set (bc_Written b). (d, m) \<in> set (gq_Written s)))"

lemma busy_okD:
  assumes "busy_ok s" "gq_Consumer s c = Busy m b"
  shows "bcast_inv (bc_Slice b) b" "\<not> bc_Acked b" "0 < sl_len (bc_Slice b)"
    "\<forall>d\<in>set (bc_Written b). (d, m) \<in> set (gq_Written s)"
  using assms by (auto simp: busy_ok_def)

lemma bcast_inv_map [simp]: "bcast_inv t (b\<lparr>bc_Map := m\<rparr>) = bcast_inv t b"
  by (simp add: bcast_inv_def)

lemma bcast_do_slice: "bcast_do grow key l b = Some b' \<Longrightarrow> bc_Slice b' = bc_Slice b"
  by (cases l) (auto split: if_splits)

lemma bcast_do_written:
  "bcast_do grow key l b = Some b' \<Longrightarrow> bc_Written b' = bc_Written b @ (case l of Wrote d \<Rightarrow> [d] | _ \<Rightarrow> [])"
  by (cases l) (auto split: if_splits)

lemma receive_busy:
  assumes "consumer_receive key c s = Some s'" "gq_Consumer s' d = Busy m b"
  shows "gq_Consumer s d = Busy m b \<or> (d = c \<and> gq_Consumer s c = Waiting \<and> gq_Buffer s c = m # gq_Buffer s' c \<and>
    b = bcast_start (gq_Map s) (bc_Slice b) \<and> group_Get key (gq_Map s) = (bc_Slice b, True))"
  using assms
  by (auto simp: consumer_receive_def bcast_start_def split: consumer.splits list.splits prod.splits if_splits)

lemma busy_ok_receive:
  assumes "consumer_receive key c s = Some s'" "busy_ok s" "group_ok (gq_Map s)"
  shows "busy_ok s'"
  unfolding busy_ok_def
proof (intro allI impI)
  fix d m b assume d: "gq_Consumer s' d = Busy m b"
  have W: "gq_Written s' = gq_Written s"
    using assms(1) by (auto simp: consumer_receive_def split: consumer.splits list.splits prod.splits if_splits)
  show "bcast_inv (bc_Slice b) b \<and> \<not> bc_Acked b \<and> 0 < sl_len (bc_Slice b) \<and> (\<forall>d\<in>set (bc_Written b). (d, m) \<in> set (gq_Written s'))"
  proof (cases "gq_Consumer s d = Busy m b")
    case True
    then show ?thesis using assms(2) W by (auto simp: busy_ok_def)
  next
    case False
    then have new: "b = bcast_start (gq_Map s) (bc_Slice b)" "group_Get key (gq_Map s) = (bc_Slice b, True)"
      using receive_busy[OF assms(1) d] by simp_all
    then have "0 < sl_len (bc_Slice b)"
      using assms(3) by (auto simp: group_Get_def map_slice_def group_ok_def split: option.splits)
    moreover have "bcast_inv (bc_Slice b) b" using bcast_inv_start[of "bc_Slice b" "gq_Map s"] new(1) by simp
    moreover have "\<not> bc_Acked b" "bc_Written b = []"
      using new(1) by (metis bcast.select_convs(7) bcast_start_def, metis bcast.select_convs(5) bcast_start_def)
    ultimately show ?thesis by simp
  qed
qed

lemma busy_ok_work:
  assumes "consumer_work grow key c l err s = Some s'" "busy_ok s"
  shows "busy_ok s'"
  using assms(1)
proof (rule work_cases)
  fix m b b'
  assume w: "gq_Consumer s c = Busy m b" "bcast_do grow key l (b\<lparr>bc_Map := gq_Map s\<rparr>) = Some b'"
    "gq_Consumer s' = (gq_Consumer s)(c := (if bc_Acked b' then Waiting else Busy m b'))"
    "gq_Written s' = gq_Written s @ (case l of Wrote d \<Rightarrow> [(d, m)] | _ \<Rightarrow> [])"
  note D = busy_okD[OF assms(2) w(1)]
  have "bcast_inv (bc_Slice b') b'" "0 < sl_len (bc_Slice b')"
    using bcast_inv_step[OF w(2), of "bc_Slice b"] bcast_do_slice[OF w(2)] D(1,3) by simp_all
  moreover have "\<forall>d\<in>set (bc_Written b'). (d, m) \<in> set (gq_Written s')"
    using bcast_do_written[OF w(2)] D(4) w(4) by (auto split: bcast_label.splits)
  ultimately show ?thesis using assms(2) w(3,4) by (auto simp: busy_ok_def split: if_splits)
qed

lemma busy_ok_step:
  assumes "queue_do grow key l s = Some s'" "busy_ok s" "group_ok (gq_Map s)"
  shows "busy_ok s'"
proof (cases l)
  case (Push c)
  then have "gq_Consumer s' = gq_Consumer s" "gq_Written s' = gq_Written s"
    using assms(1) by (auto simp: broker_push_def split: list.splits consumer.splits)
  then show ?thesis using assms(2) by (simp add: busy_ok_def)
next
  case (Deliver c)
  then show ?thesis using assms busy_ok_receive by simp
next
  case (Work c l')
  then have "consumer_work grow key c l' False s = Some s'" using assms(1) by (auto split: bcast_label.splits)
  then show ?thesis using assms(2) by (rule busy_ok_work)
next
  case (AckFails c)
  then have "consumer_work grow key c Ack True s = Some s'" using assms(1) by simp
  then show ?thesis using assms(2) by (rule busy_ok_work)
qed (use assms in \<open>auto simp: busy_ok_def split: if_splits\<close>)

lemma busy_ok_reachable: "queue_reachable grow key s \<Longrightarrow> busy_ok s"
proof (induction rule: queue_reachable.induct)
  case reach_init
  then show ?case by (simp add: busy_ok_def queue_init_def)
next
  case (reach_step s l s')
  then show ?case using busy_ok_step queue_group_ok by blast
qed

text \<open>An acknowledgement, made or failed, ends a broadcast all of whose writes have been tried.\<close>

lemma acks_after_writes:
  assumes "consumer_work grow key c l err s = Some s'" "busy_ok s" "gq_Acked s' \<noteq> gq_Acked s \<or> gq_Unacked s' \<noteq> gq_Unacked s"
  obtains m b where "l = Ack" "gq_Consumer s c = Busy m b" "bc_Pending b = []" "0 < sl_len (bc_Slice b)"
    "length (bc_Written b) + length (bc_Failed b) = sl_len (bc_Slice b)" "\<forall>d\<in>set (bc_Written b). (d, m) \<in> set (gq_Written s)"
    "gq_Acked s' = gq_Acked s @ (if err then [] else [m])" "gq_Unacked s' = gq_Unacked s @ (if err then [m] else [])"
  using assms(1)
proof (rule work_cases)
  fix m b b'
  assume w: "gq_Consumer s c = Busy m b" "bcast_do grow key l (b\<lparr>bc_Map := gq_Map s\<rparr>) = Some b'"
    "gq_Acked s' = gq_Acked s @ (if bc_Acked b' \<and> \<not> err then [m] else [])"
    "gq_Unacked s' = gq_Unacked s @ (if bc_Acked b' \<and> err then [m] else [])"
  note D = busy_okD[OF assms(2) w(1)]
  have "bc_Acked b'" using assms(3) w(3,4) by (cases "bc_Acked b'") simp_all
  then have l: "l = Ack" using w(2) D(2) by (cases l) (auto split: if_splits)
  then have "bc_Next b = sl_len (bc_Slice b)" "bc_Pending b = []" using w(2) by (simp_all split: if_splits)
  then have "length (bc_Written b) + length (bc_Failed b) = sl_len (bc_Slice b)" using D(1) by (simp add: bcast_inv_def)
  then show thesis using that[OF l w(1) \<open>bc_Pending b = []\<close> D(3) _ D(4)] w(3,4) \<open>bc_Acked b'\<close> by simp
qed

definition bcast_todo :: "bcast \<Rightarrow> nat" where
  "bcast_todo b = 2 * (sl_len (bc_Slice b) - bc_Next b) + length (bc_Pending b)"

lemma busy_finishes:
  assumes "gq_Consumer s c = Busy m b" "bcast_inv (bc_Slice b) b" "\<not> bc_Acked b"
  shows "\<exists>ls s'. set ls \<subseteq> range (Work c) \<and> fold_opt (queue_do grow key) ls s = Some s' \<and>
    gq_Acked s' = gq_Acked s @ [m] \<and> gq_Consumer s' c = Waiting"
  using assms
proof (induction "bcast_todo b" arbitrary: s b rule: less_induct)
  case less
  let ?b = "b\<lparr>bc_Map := gq_Map s\<rparr>"
  have step: ?case if l: "bcast_do grow key l ?b = Some b'" "\<not> bc_Acked b'" "bcast_todo b' < bcast_todo b"
      "\<And>e. l \<noteq> Other e" for l b'
  proof -
    have "queue_do grow key (Work c l) s = consumer_work grow key c l False s" using l(4) by (cases l) auto
    then obtain s1 where s1: "queue_do grow key (Work c l) s = Some s1" "gq_Consumer s1 c = Busy m b'" "gq_Acked s1 = gq_Acked s"
      using l(1,2) less.prems(1) by (auto simp: consumer_work_def Let_def)
    have inv: "bcast_inv (bc_Slice b') b'"
      using bcast_inv_step[OF l(1), of "bc_Slice b"] bcast_do_slice[OF l(1)] less.prems(2) by simp
    obtain ls s' where "set ls \<subseteq> range (Work c)" "fold_opt (queue_do grow key) ls s1 = Some s'" "gq_Acked s' = gq_Acked s1 @ [m]"
        "gq_Consumer s' c = Waiting"
      using less.hyps[OF l(3) s1(2) inv l(2)] by blast
    then show ?thesis using s1 by (intro exI[of _ "Work c l # ls"] exI[of _ s']) simp
  qed
  show ?case
  proof (cases "bc_Pending b")
    case (Cons d ds)
    then show ?thesis using less.prems(3)
      by (intro step[of "Wrote d" "?b\<lparr>bc_Pending := ds, bc_Written := bc_Written b @ [d]\<rparr>"])
        (simp_all add: bcast_todo_def)
  next
    case Nil
    show ?thesis
    proof (cases "bc_Next b < sl_len (bc_Slice b)")
      case True
      then show ?thesis using less.prems(3) Nil
        by (intro step[of Spawn "?b\<lparr>bc_Next := bc_Next b + 1,
            bc_Pending := [slice_elems (grp_heap (gq_Map s)) (bc_Slice b) ! bc_Next b]\<rparr>"])
          (simp_all add: bcast_todo_def)
    next
      case False
      then have "bc_Next b = sl_len (bc_Slice b)" using less.prems(2) by (simp add: bcast_inv_def)
      then have "\<exists>s'. queue_do grow key (Work c Ack) s = Some s' \<and> gq_Acked s' = gq_Acked s @ [m] \<and>
          gq_Consumer s' c = Waiting"
        using less.prems Nil by (simp add: consumer_work_def Let_def)
      then obtain s' where "queue_do grow key (Work c Ack) s = Some s'" "gq_Acked s' = gq_Acked s @ [m]"
          "gq_Consumer s' c = Waiting" by blast
      then show ?thesis by (intro exI[of _ "[Work c Ack]"] exI[of _ s']) (simp del: queue_do.simps)
    qed
  qed
qed

subsection \<open>Single steps\<close>

lemma acked_step:
  assumes "queue_do grow key l s = Some s'" "busy_ok s"
  shows "gq_Acked s' = gq_Acked s \<and> gq_Unacked s' = gq_Unacked s \<or>
     (\<exists>c m b. (l = Work c Ack \<and> gq_Acked s' = gq_Acked s @ [m] \<and> gq_Unacked s' = gq_Unacked s \<or>
        l = AckFails c \<and> gq_Unacked s' = gq_Unacked s @ [m] \<and> gq_Acked s' = gq_Acked s) \<and>
      gq_Consumer s c = Busy m b \<and> bc_Pending b = [] \<and> 0 < sl_len (bc_Slice b) \<and>
      length (bc_Written b) + length (bc_Failed b) = sl_len (bc_Slice b) \<and>
      (\<forall>d\<in>set (bc_Written b). (d, m) \<in> set (gq_Written s)))"
proof (cases "gq_Acked s' = gq_Acked s \<and> gq_Unacked s' = gq_Unacked s")
  case False
  then have new: "gq_Acked s' \<noteq> gq_Acked s \<or> gq_Unacked s' \<noteq> gq_Unacked s" by blast
  show ?thesis
  proof (cases l)
    case (Work c l')
    then have "consumer_work grow key c l' False s = Some s'" using assms(1) by (auto split: bcast_label.splits)
    then show ?thesis by (rule acks_after_writes[OF _ assms(2) new]) (simp add: Work)
  next
    case (AckFails c)
    then have "consumer_work grow key c Ack True s = Some s'" using assms(1) by simp
    then show ?thesis by (rule acks_after_writes[OF _ assms(2) new]) (simp add: AckFails)
  qed (use assms(1) new in \<open>auto simp: broker_push_def consumer_receive_def
        split: if_splits list.splits consumer.splits prod.splits\<close>)
qed blast

lemma stranded_step:
  assumes "queue_do grow key l s = Some s'" "group_ok (gq_Map s)"
  shows "gq_Stranded s' = gq_Stranded s \<or>
     (\<exists>c m. l = Push c \<and> gq_Consumer s c = Returned \<and> gq_Queue s = m # gq_Queue s' \<and> gq_Stranded s' = gq_Stranded s @ [m]) \<or>
     (\<exists>c. l = Deliver c \<and> gq_Consumer s c = Waiting \<and> group_members (gq_Map s) key = [] \<and>
        gq_Consumer s' c = Returned \<and> gq_Stranded s' = gq_Stranded s @ gq_Buffer s c)"
proof (cases l)
  case (Push c)
  then show ?thesis using assms(1) by (auto simp: broker_push_def split: list.splits consumer.splits)
next
  case (Deliver c)
  then show ?thesis using assms(1) group_Get_members[OF assms(2), of key]
    by (auto simp: consumer_receive_def split: list.splits consumer.splits prod.splits if_splits)
next
  case (Work c l')
  then have "consumer_work grow key c l' False s = Some s'" using assms(1) by (auto split: bcast_label.splits)
  then show ?thesis by (rule work_cases) simp
next
  case (AckFails c)
  then have "consumer_work grow key c Ack True s = Some s'" using assms(1) by simp
  then show ?thesis by (rule work_cases) simp
qed (use assms(1) in \<open>auto split: if_splits\<close>)

lemma begins_step:
  assumes "queue_do grow key l s = Some s'" "gq_Consumer s' c = Busy m b \<and> gq_Consumer s c = Waiting"
  shows "l = Deliver c \<and> gq_Buffer s c = m # gq_Buffer s' c \<and> group_Get key (gq_Map s) = (bc_Slice b, True) \<and> bc_Next b = 0"
proof (cases l)
  case (Push d)
  then show ?thesis using assms by (auto simp: broker_push_def split: list.splits consumer.splits)
next
  case (Deliver d)
  then have "d = c \<and> gq_Buffer s c = m # gq_Buffer s' c \<and> b = bcast_start (gq_Map s) (bc_Slice b) \<and>
      group_Get key (gq_Map s) = (bc_Slice b, True)"
    using receive_busy[of key d s s' c m b] assms by auto
  moreover from this have "bc_Next b = 0" by (metis bcast.select_convs(3) bcast_start_def)
  ultimately show ?thesis using Deliver by simp
next
  case (Work d l')
  then have "consumer_work grow key d l' False s = Some s'" using assms(1) by (auto split: bcast_label.splits)
  then show ?thesis by (rule work_cases) (use assms(2) in \<open>auto split: if_splits\<close>)
next
  case (AckFails d)
  then have "consumer_work grow key d Ack True s = Some s'" using assms(1) by simp
  then show ?thesis by (rule work_cases) (use assms(2) in \<open>auto split: if_splits\<close>)
qed (use assms in \<open>auto split: if_splits\<close>)

subsection \<open>Properties\<close>

text \<open>C11: Whatever the sessions, the consumers and the broker do, and in whatever order, every published
  message is in exactly one place: in the queue, with one consumer, acknowledged, broadcast but not
  acknowledged because of an error, or stranded. A consumer begins a broadcast with the oldest message that
  it was given, for the clients that the group then has. A step acknowledges a message, or fails to, only
  if it is the end of its broadcast: a write was tried for each of these clients, at least one, and has
  ended, and those that succeeded are recorded. Messages are stranded only by a consumer that has
  returned, or that returns since its group is empty, with all it was given.\<close>

theorem queue_messages_conserved:
  assumes "queue_reachable grow key s" "queue_do grow key l s = Some s'"
  shows "mset (gq_Published s) =
      mset (gq_Queue s) + mset (gq_Acked s) + mset (gq_Unacked s) + mset (gq_Stranded s) + in_flight s \<and>
    (gq_Acked s' = gq_Acked s \<and> gq_Unacked s' = gq_Unacked s \<or>
     (\<exists>c m b. (l = Work c Ack \<and> gq_Acked s' = gq_Acked s @ [m] \<and> gq_Unacked s' = gq_Unacked s \<or>
        l = AckFails c \<and> gq_Unacked s' = gq_Unacked s @ [m] \<and> gq_Acked s' = gq_Acked s) \<and>
      gq_Consumer s c = Busy m b \<and> bc_Pending b = [] \<and> 0 < sl_len (bc_Slice b) \<and>
      length (bc_Written b) + length (bc_Failed b) = sl_len (bc_Slice b) \<and>
      (\<forall>d\<in>set (bc_Written b). (d, m) \<in> set (gq_Written s)))) \<and>
    (gq_Stranded s' = gq_Stranded s \<or>
     (\<exists>c m. l = Push c \<and> gq_Consumer s c = Returned \<and> gq_Queue s = m # gq_Queue s' \<and> gq_Stranded s' = gq_Stranded s @ [m]) \<or>
     (\<exists>c. l = Deliver c \<and> gq_Consumer s c = Waiting \<and> group_members (gq_Map s) key = [] \<and>
        gq_Consumer s' c = Returned \<and> gq_Stranded s' = gq_Stranded s @ gq_Buffer s c)) \<and>
    (\<forall>c m b. gq_Consumer s' c = Busy m b \<and> gq_Consumer s c = Waiting \<longrightarrow>
       l = Deliver c \<and> gq_Buffer s c = m # gq_Buffer s' c \<and> group_Get key (gq_Map s) = (bc_Slice b, True) \<and> bc_Next b = 0)"
    (is "?conserved \<and> ?acked \<and> ?stranded \<and> ?begins")
proof (intro conjI)
  show ?conserved using queue_conserved_reachable[OF assms(1)] by (simp add: queue_conserved_def)
  show ?acked using acked_step[OF assms(2) busy_ok_reachable[OF assms(1)]] .
  show ?stranded using stranded_step[OF assms(2) queue_group_ok[OF assms(1)]] .
  show ?begins using begins_step[OF assms(2)] by blast
qed

text \<open>C14: A broadcast that has begun can always be completed by the steps of its own consumer, whatever
  happened before: there is a schedule after which its message is acknowledged and the consumer waits
  for the next one.\<close>

theorem queue_broadcast_completes:
  assumes "queue_reachable grow key s" "gq_Consumer s c = Busy m b"
  shows "\<exists>ls s'. set ls \<subseteq> range (Work c) \<and> fold_opt (queue_do grow key) ls s = Some s' \<and>
    gq_Acked s' = gq_Acked s @ [m] \<and> gq_Consumer s' c = Waiting"
  using busy_ok_reachable[OF assms(1)] assms(2) by (intro busy_finishes[OF assms(2)]) (auto simp: busy_ok_def)

lemma events_Get:
  assumes "m = fold (group_event grow) es NewGroupCodeDataClientManagerMap" "group_members m key = ms" "ms \<noteq> []"
  obtains s where "group_Get key m = (s, True)" "sl_len s = length ms" "slice_elems (grp_heap m) s = ms"
proof -
  have ok: "group_ok m" using assms(1) group_ok_events by simp
  obtain s where s: "gomap_get (grp_Map m) key = Some s"
    using members_None[of m key] assms(2,3) by (cases "gomap_get (grp_Map m) key") auto
  then have "slice_wf (grp_heap m) s" "slice_elems (grp_heap m) s = ms"
    using ok members_Some[OF s] assms(2) by (auto simp: group_ok_def)
  then show thesis using that[of s] s by (auto simp: group_Get_def map_slice_def slice_elems_def slice_wf_def)
qed

text \<open>Two sessions of the group \<open>g\<close>, and two messages that go to one consumer each.\<close>

definition two_broadcasts :: "'m \<Rightarrow> 'm \<Rightarrow> 'm queue_label list" where
  "two_broadcasts a b = [Connects 1, Connects 2, Publishes a, Publishes b, Push 1, Push 2, Deliver 1,
     Deliver 2, Work 1 Spawn, Work 2 Spawn]"

lemma two_broadcasts_run:
  "\<exists>s b1 b2. fold_opt (queue_do grow ''g'') (two_broadcasts a b) queue_init = Some s \<and>
    gq_Consumer s 1 = Busy a b1 \<and> gq_Consumer s 2 = Busy b b2 \<and> bc_Pending b1 = [1] \<and> bc_Pending b2 = [1]"
proof -
  let ?m = "fold (group_event grow) [Joins ''g'' 1, Joins ''g'' 2] NewGroupCodeDataClientManagerMap"
  have "group_members ?m ''g'' = [1, 2]" unfolding group_members_events by simp
  then obtain s where
    "group_Get ''g'' ?m = (s, True)" "sl_len s = length [1, 2::ptr]" "slice_elems (grp_heap ?m) s = [1, 2]"
    by (rule events_Get[OF refl]) (rule list.distinct, rule that)
  then show ?thesis
    by (simp add: two_broadcasts_def queue_init_def broker_push_def consumer_receive_def consumer_work_def bcast_start_def Let_def)
qed

text \<open>The consumers of two sessions can write to the same connection at the same time: both have a
  goroutine for client 1 that has not ended. The websocket library allows one writer at a time.\<close>

lemma concurrent_writes_to_one_client:
  "\<exists>s b1 b2. queue_reachable grow ''g'' s \<and> gq_Consumer s 1 = Busy a b1 \<and> gq_Consumer s 2 = Busy b b2 \<and>
    bc_Pending b1 = [1] \<and> bc_Pending b2 = [1]"
  using two_broadcasts_run[of grow a b] reach_run[OF reach_init] by blast

text \<open>The only client of \<open>g\<close> leaves, a message comes, another client connects, and a second message
  goes to the subscription of the first session.\<close>

definition empty_group_schedule :: "'m \<Rightarrow> 'm \<Rightarrow> 'm queue_label list" where
  "empty_group_schedule a b = [Connects 1, Disconnects 1, Publishes a, Push 1, Deliver 1, Connects 2, Publishes b, Push 1]"

lemma empty_group_run:
  "\<exists>s. fold_opt (queue_do grow ''g'') (empty_group_schedule a b) queue_init = Some s \<and>
    group_members (gq_Map s) ''g'' = [2] \<and> gq_Consumer s 2 = Waiting \<and> gq_Published s = [a, b] \<and> gq_Queue s = [] \<and>
    gq_Stranded s = [a, b] \<and> gq_Acked s = [] \<and> gq_Unacked s = [] \<and> gq_Written s = []"
proof -
  let ?m = "fold (group_event grow) [Joins ''g'' 1, Leaves ''g'' 1] NewGroupCodeDataClientManagerMap"
  have "group_members ?m ''g'' = []" unfolding group_members_events by simp
  then have "\<not> snd (group_Get ''g'' ?m)" using group_Get_members[OF group_ok_events] by blast
  then obtain x where get: "group_Get ''g'' ?m = (x, False)" by (metis (full_types) prod.collapse)
  have "group_members (fold (group_event grow) [Joins ''g'' 1, Leaves ''g'' 1, Joins ''g'' 2]
    NewGroupCodeDataClientManagerMap) ''g'' = [2]" unfolding group_members_events by simp
  then show ?thesis using get
    by (simp add: empty_group_schedule_def queue_init_def broker_push_def consumer_receive_def eat_disconnect_def)
qed

text \<open>C39: A consumer that finds its group empty returns with the message and keeps its subscription:
  later a client is connected with a consumer that waits, the queue is empty, and neither message was
  written to anyone or acknowledged.\<close>

theorem empty_group_strands_messages:
  "\<exists>s. queue_reachable grow ''g'' s \<and> group_members (gq_Map s) ''g'' = [2] \<and> gq_Consumer s 2 = Waiting \<and>
    gq_Published s = [a, b] \<and> gq_Queue s = [] \<and> gq_Stranded s = [a, b] \<and> gq_Acked s = [] \<and> gq_Unacked s = [] \<and> gq_Written s = []"
  using empty_group_run[of grow a b] reach_run[OF reach_init] by blast

text \<open>A client of \<open>g\<close> gets a message; what is left is the acknowledgement.\<close>

definition one_broadcast :: "'m \<Rightarrow> 'm queue_label list" where
  "one_broadcast a = [Connects 1, Publishes a, Push 1, Deliver 1, Work 1 Spawn, Work 1 (Wrote 1)]"

lemma one_broadcast_run:
  "\<exists>s s'. fold_opt (queue_do (\<lambda>n. n) ''g'') (one_broadcast a) queue_init = Some s \<and>
    queue_do (\<lambda>n. n) ''g'' (Work 1 Ack) s = Some s' \<and> gq_Acked s = [] \<and> gq_Acked s' = [a] \<and> gq_Written s = [(1, a)]"
  by (simp add: one_broadcast_def queue_init_def broker_push_def consumer_receive_def consumer_work_def bcast_start_def Let_def
      group_Add_def group_Get_def map_slice_def slice_append_def slice_elems_def sl_nil_def heap_empty_def
      NewGroupCodeDataClientManagerMap_def)

theorem queue_messages_conserved_witness:
  "\<exists>s m b. fold_opt (queue_do (\<lambda>n. n) ''g'') (one_broadcast ''a'') queue_init = Some s \<and> gq_Consumer s 1 = Busy m b \<and>
    length (bc_Written b) + length (bc_Failed b) = sl_len (bc_Slice b) \<and> mset (gq_Published s) = in_flight s + mset (gq_Queue s) + mset (gq_Stranded s) + mset (gq_Unacked s)"
proof -
  obtain s s' where s: "fold_opt (queue_do (\<lambda>n. n) ''g'') (one_broadcast ''a'') queue_init = Some s"
      "queue_do (\<lambda>n. n) ''g'' (Work 1 Ack) s = Some s'" "gq_Acked s = []" "gq_Acked s' = [''a'']"
    using one_broadcast_run[of "''a''"] by (elim exE conjE) (rule that)
  note step = queue_messages_conserved[OF reach_run[OF reach_init s(1)] s(2)]
  have "mset (gq_Published s) = in_flight s + mset (gq_Queue s) + mset (gq_Stranded s) + mset (gq_Unacked s)"
    using step[THEN conjunct1] s(3) by (simp only: mset.simps ac_simps empty_neutral)
  moreover have "\<exists>m b. gq_Consumer s 1 = Busy m b \<and> length (bc_Written b) + length (bc_Failed b) = sl_len (bc_Slice b)"
    using step[THEN conjunct2, THEN conjunct1] s(3,4) by auto
  ultimately show ?thesis using s(1) by blast
qed

theorem queue_broadcast_completes_witness:
  "\<exists>s ls s'. fold_opt (queue_do (\<lambda>n. n) ''g'') (two_broadcasts ''a'' ''b'') queue_init = Some s \<and>
    fold_opt (queue_do (\<lambda>n. n) ''g'') ls s = Some s' \<and> gq_Acked s' = gq_Acked s @ [''a'']"
proof -
  obtain s b where s: "fold_opt (queue_do (\<lambda>n. n) ''g'') (two_broadcasts ''a'' ''b'') queue_init = Some s"
      "gq_Consumer s 1 = Busy ''a'' b"
    using two_broadcasts_run[of "\<lambda>n. n" "''a''" "''b''"] by (elim exE conjE) (rule that)
  show ?thesis using queue_broadcast_completes[OF reach_run[OF reach_init s(1)] s(2)] s(1) by blast
qed

end
