(* ===== verification/Isolation.thy ===== *)
theory Isolation
  imports GroupQueue
begin

section \<open>Isolation of groups\<close>

text \<open>
  A broadcast reads a slice that other sessions shift and extend in place, in arrays that live on after
  a group is emptied and filled again. This theory shows that it still reads only clients of its own
  group: \<open>keeps_to\<close> gives every array a mark below which it only ever holds clients that joined the
  group, for the arrays of the group, and zero for all others; each slice that is still in use ends at
  or below the mark of its array. \<open>keeps_to_add\<close> to \<open>keeps_to_remove\<close> show that every operation of the
  registry keeps this, and \<open>isolated_reachable\<close> that every step of the queue does.
\<close>

subsection \<open>Marked arrays\<close>

definition marked :: "string \<Rightarrow> ptr set \<Rightarrow> slice set \<Rightarrow> (nat \<Rightarrow> nat) \<Rightarrow> group_map \<Rightarrow> bool" where
  "marked key J S mark m \<longleftrightarrow>
     mark 0 = 0 \<and> (\<forall>a\<ge>next_arr (grp_heap m). mark a = 0) \<and>
     (\<forall>a. mark a \<le> length (arrays (grp_heap m) a) \<and> set (take (mark a) (arrays (grp_heap m) a)) \<subseteq> J) \<and>
     (\<forall>s\<in>S. sl_len s \<le> mark (sl_arr s)) \<and>
     (\<forall>s. gomap_get (grp_Map m) key = Some s \<longrightarrow> sl_len s \<le> mark (sl_arr s)) \<and>
     (\<forall>k s. k \<noteq> key \<longrightarrow> gomap_get (grp_Map m) k = Some s \<longrightarrow> mark (sl_arr s) = 0)"

definition keeps_to :: "string \<Rightarrow> ptr set \<Rightarrow> slice set \<Rightarrow> group_map \<Rightarrow> bool" where
  "keeps_to key J S m \<longleftrightarrow> group_ok m \<and> (\<exists>mark. marked key J S mark m)"

lemma markedD:
  assumes "marked key J S mark m"
  shows "mark 0 = 0" "next_arr (grp_heap m) \<le> a \<Longrightarrow> mark a = 0" "mark a \<le> length (arrays (grp_heap m) a)"
    "set (take (mark a) (arrays (grp_heap m) a)) \<subseteq> J" "s \<in> S \<Longrightarrow> sl_len s \<le> mark (sl_arr s)"
    "gomap_get (grp_Map m) key = Some t \<Longrightarrow> sl_len t \<le> mark (sl_arr t)"
    "k \<noteq> key \<Longrightarrow> gomap_get (grp_Map m) k = Some t \<Longrightarrow> mark (sl_arr t) = 0"
  using assms by (simp_all add: marked_def)

lemma marked_mono: "marked key J S mark m \<Longrightarrow> J \<subseteq> J' \<Longrightarrow> S' \<subseteq> S \<Longrightarrow> marked key J' S' mark m"
  unfolding marked_def by (simp add: subset_iff)

lemma keeps_to_mono: "keeps_to key J S m \<Longrightarrow> J \<subseteq> J' \<Longrightarrow> S' \<subseteq> S \<Longrightarrow> keeps_to key J' S' m"
  using marked_mono unfolding keeps_to_def by blast

text \<open>Every operation changes one array, whose mark may rise, and the entry of one group.\<close>

lemma marked_change:
  assumes "marked key J S mark m" "J \<subseteq> J'" "arrays h = (arrays (grp_heap m))(a := arr)" "next_arr (grp_heap m) \<le> next_arr h"
    and "0 < a" "a < next_arr h" "mark a \<le> x" "x \<le> length arr" "set (take x arr) \<subseteq> J'"
    and "\<And>s. gomap_get M key = Some s \<Longrightarrow> sl_len s \<le> (mark(a := x)) (sl_arr s)"
    and "\<And>k s. k \<noteq> key \<Longrightarrow> gomap_get M k = Some s \<Longrightarrow> (mark(a := x)) (sl_arr s) = 0"
  shows "marked key J' S (mark(a := x)) \<lparr>grp_Map = M, grp_heap = h\<rparr>"
proof -
  note D = markedD[OF assms(1)]
  have "(mark(a := x)) b = 0" if "next_arr h \<le> b" for b using that D(2)[of b] assms(4,6) by simp
  moreover have "(mark(a := x)) b \<le> length (arrays h b)" "set (take ((mark(a := x)) b) (arrays h b)) \<subseteq> J'" for b
    using D(3,4)[of b] assms(2,3,8,9) by auto
  moreover have "sl_len t \<le> (mark(a := x)) (sl_arr t)" if "t \<in> S" for t
    using D(5)[OF that] assms(7) by (cases "sl_arr t = a") auto
  ultimately show ?thesis using D(1) assms(5,10,11) unfolding marked_def by simp
qed

lemma keeps_to_new: "keeps_to key {} {} NewGroupCodeDataClientManagerMap"
proof -
  have "marked key {} {} (\<lambda>_. 0) NewGroupCodeDataClientManagerMap"
    by (simp add: marked_def NewGroupCodeDataClientManagerMap_def)
  then show ?thesis using group_ok_new by (auto simp: keeps_to_def)
qed

lemma keeps_to_elems:
  assumes "keeps_to key J S m" "s \<in> S"
  shows "set (slice_elems (grp_heap m) s) \<subseteq> J" "length (slice_elems (grp_heap m) s) = sl_len s"
proof -
  obtain mark where mark: "marked key J S mark m" using assms(1) by (auto simp: keeps_to_def)
  have "sl_len s \<le> mark (sl_arr s)" using markedD(5)[OF mark assms(2)] .
  then show "set (slice_elems (grp_heap m) s) \<subseteq> J" "length (slice_elems (grp_heap m) s) = sl_len s"
    using markedD(3,4)[OF mark, of "sl_arr s"] set_take_subset_set_take[of "sl_len s" "mark (sl_arr s)" "arrays (grp_heap m) (sl_arr s)"]
    by (auto simp: slice_elems_def)
qed

lemma keeps_to_get:
  assumes "keeps_to key J S m" "gomap_get (grp_Map m) key = Some s"
  shows "keeps_to key J (insert s S) m"
  using assms unfolding keeps_to_def marked_def by auto

subsection \<open>The operations of the registry\<close>

lemma take_update_marked:
  assumes "set (take h xs) \<subseteq> J" "n \<le> h" "h \<le> length xs" "n < length xs"
  shows "set (take (max h (Suc n)) (xs[n := c])) \<subseteq> insert c J"
proof (cases "n < h")
  case True
  then have "max h (Suc n) = h" by simp
  then have "take (max h (Suc n)) (xs[n := c]) = (take h xs)[n := c]" by (simp add: take_update_swap)
  then show ?thesis using assms(1) set_update_subset_insert[of "take h xs" n c] by auto
next
  case False
  then have "n = h" using assms(2) by simp
  then have "take (max h (Suc n)) (xs[n := c]) = take h xs @ [c]"
    using assms(4) by (simp add: take_Suc_conv_app_nth)
  then show ?thesis using assms(1) by auto
qed

lemma keeps_to_add:
  assumes "keeps_to key J S m"
  shows "keeps_to key (if k = key then insert c J else J) S (group_Add grow k c m)"
proof -
  obtain mark where mark: "marked key J S mark m" and ok: "group_ok m" using assms by (auto simp: keeps_to_def)
  note D = markedD[OF mark]
  let ?s = "map_slice (grp_Map m) k" and ?h = "grp_heap m" and ?J = "if k = key then insert c J else J"
  let ?arr = "arrays ?h (sl_arr ?s)" and ?n = "sl_len ?s"
  obtain h s' where app: "slice_append grow ?h ?s c = (h, s')" by (cases "slice_append grow ?h ?s c")
  then have add: "group_Add grow k c m = \<lparr>grp_Map = gomap_set k s' (grp_Map m), grp_heap = h\<rparr>"
    by (simp add: group_Add_def)
  have len: "k = key \<Longrightarrow> ?n \<le> mark (sl_arr ?s)" "k \<noteq> key \<Longrightarrow> mark (sl_arr ?s) = 0"
    using D(1) D(6) D(7)[of k] by (cases "gomap_get (grp_Map m) k"; simp add: map_slice_def sl_nil_def)+
  have wf: "?n \<le> length ?arr" "sl_arr ?s < next_arr ?h" using nil_wf[OF ok, of k] by (simp_all add: slice_wf_def)
  have other: "sl_arr t \<noteq> sl_arr ?s" "sl_arr t \<noteq> next_arr ?h"
    if "k' \<noteq> k" "gomap_get (grp_Map m) k' = Some t" for k' t
    using that(1) group_okD(5)[OF ok that(2), of k] group_ok_arr[OF ok that(2)] group_okD(3)[OF ok that(2)]
    by (cases "gomap_get (grp_Map m) k"; auto simp: map_slice_def sl_nil_def slice_wf_def)+
  have "\<exists>mark'. marked key ?J S mark' (group_Add grow k c m)"
  proof (cases "?n < length ?arr")
    case True
    then have h: "h = ?h\<lparr>arrays := (arrays ?h)(sl_arr ?s := ?arr[?n := c])\<rparr>" "s' = ?s\<lparr>sl_len := ?n + 1\<rparr>"
      using app by (simp_all add: slice_append_def Let_def)
    have a: "0 < sl_arr ?s" using True group_okD(1)[OF ok] by (cases "sl_arr ?s") auto
    let ?x = "if k = key then max (mark (sl_arr ?s)) (Suc ?n) else mark (sl_arr ?s)"
    have "set (take ?x (?arr[?n := c])) \<subseteq> ?J"
      using take_update_marked[OF D(4) len(1) D(3) True] len(2) by simp
    moreover have "?x \<le> length (?arr[?n := c])"
      using True D(3)[of "sl_arr ?s"] by (cases "k = key") (simp_all del: fun_upd_apply)
    ultimately have "marked key ?J S (mark(sl_arr ?s := ?x)) \<lparr>grp_Map = gomap_set k s' (grp_Map m), grp_heap = h\<rparr>"
      using a wf(2) h D(6,7) other len(2) by (intro marked_change[OF mark]) (auto split: if_splits)
    then show ?thesis unfolding add by blast
  next
    case False
    then have h: "h = ?h\<lparr>arrays := (arrays ?h)(next_arr ?h := take ?n ?arr @ c # replicate (grow ?n) 0),
        next_arr := next_arr ?h + 1\<rparr>" "s' = \<lparr>sl_arr = next_arr ?h, sl_len = ?n + 1\<rparr>"
      using app by (simp_all add: slice_append_def Let_def)
    let ?x = "if k = key then Suc ?n else 0"
    have "set (take ?n ?arr) \<subseteq> J" if "k = key"
      using D(4)[of "sl_arr ?s"] set_take_subset_set_take[OF len(1)[OF that], of ?arr] by blast
    then have "set (take ?x (take ?n ?arr @ c # replicate (grow ?n) 0)) \<subseteq> ?J" using wf(1) by auto
    moreover have "?x \<le> length (take ?n ?arr @ c # replicate (grow ?n) 0)" using wf(1) by simp
    ultimately have "marked key ?J S (mark(next_arr ?h := ?x)) \<lparr>grp_Map = gomap_set k s' (grp_Map m), grp_heap = h\<rparr>"
      using group_okD(2)[OF ok] h D(2) D(6,7) other by (intro marked_change[OF mark]) (auto split: if_splits)
    then show ?thesis unfolding add by blast
  qed
  then show ?thesis using group_add_spec(1)[OF ok] by (simp add: keeps_to_def)
qed

lemma take_delete_marked:
  assumes "i < n" "n \<le> h" "h \<le> length xs"
  shows "set (take h (take i xs @ drop (i + 1) (take n xs) @ drop (n - 1) xs)) \<subseteq> set (take h xs)"
proof -
  have "take h (take i xs @ drop (i + 1) (take n xs) @ drop (n - 1) xs) =
      take i xs @ drop (i + 1) (take n xs) @ drop (n - 1) (take h xs)"
    using assms by (simp add: take_drop)
  moreover have "set (take i xs) \<subseteq> set (take h xs)" "set (drop (i + 1) (take n xs)) \<subseteq> set (take h xs)"
    using set_take_subset_set_take[of i h xs] set_take_subset_set_take[of n h xs] set_drop_subset[of "i + 1" "take n xs"] assms
    by simp_all
  ultimately show ?thesis using set_drop_subset[of "n - 1" "take h xs"] by simp
qed

lemma keeps_to_drop:
  assumes "keeps_to key J S m"
  shows "keeps_to key J S (group_RemoveClient k c m)"
proof -
  obtain mark where mark: "marked key J S mark m" and ok: "group_ok m" using assms by (auto simp: keeps_to_def)
  note D = markedD[OF mark]
  have "marked key J S mark (group_RemoveClient k c m)"
  proof (rule removeClient_cases[of m k c])
    fix s i h' s'
    assume s: "gomap_get (grp_Map m) k = Some s" and i: "index_of c (slice_elems (grp_heap m) s) = Some i"
      and del: "slice_delete (grp_heap m) s i = (h', s')"
      and rem: "group_RemoveClient k c m =
        (if sl_len s' = 0 then \<lparr>grp_Map = gomap_del k (gomap_set k s' (grp_Map m)), grp_heap = h'\<rparr>
         else \<lparr>grp_Map = gomap_set k s' (grp_Map m), grp_heap = h'\<rparr>)"
    let ?arr = "arrays (grp_heap m) (sl_arr s)"
    have wf: "slice_wf (grp_heap m) s" by (rule group_okD(3)[OF ok s])
    have "i < sl_len s" using index_of_Some[OF i] by (simp add: slice_elems_def)
    have h': "arrays h' = (arrays (grp_heap m))(sl_arr s :=
          take i ?arr @ drop (i + 1) (take (sl_len s) ?arr) @ drop (sl_len s - 1) ?arr)"
        "next_arr h' = next_arr (grp_heap m)" "sl_arr s' = sl_arr s" "sl_len s' = sl_len s - 1"
      using del by (auto simp: slice_delete_def Let_def)
    have x: "set (take (mark (sl_arr s)) (take i ?arr @ drop (i + 1) (take (sl_len s) ?arr) @ drop (sl_len s - 1) ?arr)) \<subseteq> J"
    proof (cases "k = key")
      case True
      then have "sl_len s \<le> mark (sl_arr s)" using D(6) s by simp
      then show ?thesis using take_delete_marked[OF \<open>i < sl_len s\<close> _ D(3)] D(4)[of "sl_arr s"] by blast
    next
      case False
      then show ?thesis using D(7)[OF False s] by simp
    qed
    have differ: "sl_arr t \<noteq> sl_arr s" if "gomap_get (grp_Map m) k' = Some t" "k' \<noteq> k" for k' t
      using group_okD(5)[OF ok that(1) s] that(2) by auto
    have "marked key J S (mark(sl_arr s := mark (sl_arr s))) \<lparr>grp_Map = M, grp_heap = h'\<rparr>"
      if "\<And>k' t. gomap_get M k' = Some t \<Longrightarrow> gomap_get (grp_Map m) k' = Some t \<or> k' = k \<and> t = s'" for M
    proof (rule marked_change[OF mark _ h'(1)])
      show "mark (sl_arr s) \<le> length (take i ?arr @ drop (i + 1) (take (sl_len s) ?arr) @ drop (sl_len s - 1) ?arr)"
        using D(3)[of "sl_arr s"] slice_delete_array[OF wf \<open>i < sl_len s\<close>] by simp
      show "sl_len t \<le> (mark(sl_arr s := mark (sl_arr s))) (sl_arr t)" if "gomap_get M key = Some t" for t
        using \<open>\<And>k' t. gomap_get M k' = Some t \<Longrightarrow> _\<close>[OF that] D(6) s h'(3,4) by fastforce
      show "(mark(sl_arr s := mark (sl_arr s))) (sl_arr t) = 0" if "k' \<noteq> key" "gomap_get M k' = Some t" for k' t
        using \<open>\<And>k' t. gomap_get M k' = Some t \<Longrightarrow> _\<close>[OF that(2)] D(7)[OF that(1)] s h'(3) by auto
    qed (use x h'(2) group_ok_arr[OF ok s] wf in \<open>auto simp: slice_wf_def\<close>)
    note change = this[unfolded fun_upd_triv]
    have "marked key J S mark \<lparr>grp_Map = gomap_del k (gomap_set k s' (grp_Map m)), grp_heap = h'\<rparr>"
      by (rule change) (simp split: if_splits)
    moreover have "marked key J S mark \<lparr>grp_Map = gomap_set k s' (grp_Map m), grp_heap = h'\<rparr>"
      by (rule change) (simp split: if_splits)
    ultimately show ?thesis unfolding rem by simp
  qed (use mark in \<open>auto simp: marked_def\<close>)
  then show ?thesis using group_drop_spec[OF ok] by (auto simp: keeps_to_def)
qed

lemma keeps_to_remove:
  assumes "keeps_to key J S m"
  shows "keeps_to key J S (group_Remove k m)"
proof -
  obtain mark where mark: "marked key J S mark m" and ok: "group_ok m" using assms by (auto simp: keeps_to_def)
  then have "marked key J S mark (group_Remove k m)" by (auto simp: marked_def group_Remove_def)
  then show ?thesis using group_remove_spec(1)[OF ok] by (auto simp: keeps_to_def)
qed

subsection \<open>Every state of the queue\<close>

definition joiners :: "'m group_queue \<Rightarrow> ptr set" where
  "joiners s = {c. gq_Consumer s c \<noteq> Off}"

definition slices_in_use :: "'m group_queue \<Rightarrow> slice set" where
  "slices_in_use s = {t. \<exists>c m b. gq_Consumer s c = Busy m b \<and> t = bc_Slice b}"

definition isolated :: "string \<Rightarrow> 'm group_queue \<Rightarrow> bool" where
  "isolated key s \<longleftrightarrow> keeps_to key (joiners s) (slices_in_use s) (gq_Map s) \<and>
     (\<forall>c m b. gq_Consumer s c = Busy m b \<longrightarrow> set (bc_Pending b) \<subseteq> joiners s \<and> m \<in> set (gq_Published s)) \<and>
     set (gq_Queue s) \<subseteq> set (gq_Published s) \<and> (\<forall>c. set (gq_Buffer s c) \<subseteq> set (gq_Published s)) \<and>
     (\<forall>w\<in>set (gq_Written s). fst w \<in> joiners s \<and> snd w \<in> set (gq_Published s))"

lemma isolatedD:
  assumes "isolated key s"
  shows "keeps_to key (joiners s) (slices_in_use s) (gq_Map s)"
    "gq_Consumer s c = Busy m b \<Longrightarrow> set (bc_Pending b) \<subseteq> joiners s"
    "gq_Consumer s c = Busy m b \<Longrightarrow> m \<in> set (gq_Published s)"
    "set (gq_Queue s) \<subseteq> set (gq_Published s)"
    "w \<in> set (gq_Written s) \<Longrightarrow> fst w \<in> joiners s \<and> snd w \<in> set (gq_Published s)"
    "set (gq_Buffer s c) \<subseteq> set (gq_Published s)"
  using assms unfolding isolated_def by blast+

text \<open>A step changes one consumer.\<close>

lemma isolated_change:
  assumes "isolated key s" "gq_Consumer s' = (gq_Consumer s)(c := x)" "gq_Consumer s c = Off \<or> x \<noteq> Off"
    and "set (gq_Published s) \<subseteq> set (gq_Published s')" "set (gq_Queue s') \<subseteq> set (gq_Published s')"
    and "\<And>d. set (gq_Buffer s' d) \<subseteq> set (gq_Published s')"
    and "keeps_to key (joiners s') (slices_in_use s') (gq_Map s')"
    and "\<And>m b. x = Busy m b \<Longrightarrow> set (bc_Pending b) \<subseteq> joiners s \<and> m \<in> set (gq_Published s)"
    and "\<And>w. w \<in> set (gq_Written s') \<Longrightarrow> w \<in> set (gq_Written s) \<or> fst w \<in> joiners s \<and> snd w \<in> set (gq_Published s)"
  shows "isolated key s'"
proof -
  have J: "joiners s \<subseteq> joiners s'" using assms(2,3) by (auto simp: joiners_def)
  have "set (bc_Pending b) \<subseteq> joiners s' \<and> m \<in> set (gq_Published s')" if "gq_Consumer s' d = Busy m b" for d m b
  proof (cases "d = c")
    case True
    then show ?thesis using assms(2,4) assms(8)[of m b] that J by (auto dest: subsetD)
  next
    case False
    then have "gq_Consumer s d = Busy m b" using assms(2) that by simp
    then show ?thesis using isolatedD(2,3)[OF assms(1)] J assms(4) by blast
  qed
  moreover have "fst w \<in> joiners s' \<and> snd w \<in> set (gq_Published s')" if "w \<in> set (gq_Written s')" for w
    using assms(9)[OF that] isolatedD(5)[OF assms(1), of w] J assms(4) by blast
  ultimately show ?thesis using assms(5-7) unfolding isolated_def by blast
qed

lemma joiners_upd: "gq_Consumer s' = (gq_Consumer s)(c := x) \<Longrightarrow> x \<noteq> Off \<Longrightarrow> joiners s' = insert c (joiners s)"
  by (auto simp: joiners_def)

lemma joiners_mem: "gq_Consumer s c \<noteq> Off \<Longrightarrow> insert c (joiners s) = joiners s"
  by (auto simp: joiners_def)

lemma slices_upd:
  assumes "gq_Consumer s' = (gq_Consumer s)(c := x)"
  shows "\<lbrakk>\<And>m b. x \<noteq> Busy m b\<rbrakk> \<Longrightarrow> slices_in_use s' \<subseteq> slices_in_use s"
    "x = Busy m b \<Longrightarrow> slices_in_use s' \<subseteq> insert (bc_Slice b) (slices_in_use s)"
  unfolding slices_in_use_def using assms by (auto split: if_splits)

lemma keeps_to_event:
  assumes "keeps_to key J S m" "quiet_label key (Other e)"
  shows "keeps_to key J S (group_event grow e m)"
proof (cases e)
  case (Joins k c)
  then show ?thesis using assms(2) keeps_to_add[OF assms(1), of k c grow] by simp
qed (use keeps_to_drop[OF assms(1)] keeps_to_remove[OF assms(1)] in simp_all)

lemma bcast_keeps:
  assumes "bcast_do grow key l b = Some b'" "keeps_to key J S (bc_Map b)" "bc_Slice b \<in> S" "set (bc_Pending b) \<subseteq> J"
    and "\<And>e. l \<noteq> Other e"
  shows "keeps_to key J S (bc_Map b')" "set (bc_Pending b') \<subseteq> J" "\<And>d. l = Wrote d \<Longrightarrow> d \<in> J"
proof -
  note elems = keeps_to_elems[OF assms(2,3)]
  have nth: "slice_elems (grp_heap (bc_Map b)) (bc_Slice b) ! bc_Next b \<in> J" if "bc_Next b < sl_len (bc_Slice b)"
    using elems that nth_mem[of "bc_Next b" "slice_elems (grp_heap (bc_Map b)) (bc_Slice b)"] by auto
  show "keeps_to key J S (bc_Map b')"
    using assms(1,2,5) keeps_to_drop[OF assms(2)] by (cases l) (auto split: if_splits)
  have "x \<in> J" if "x \<in> set (remove1 d (bc_Pending b))" for d x using that assms(4) notin_set_remove1 by fast
  then show "set (bc_Pending b') \<subseteq> J"
    using assms(1,4,5) nth by (cases l) (auto split: if_splits)
  show "d \<in> J" if "l = Wrote d" for d
    using assms(1,4) that by (auto split: if_splits)
qed

lemma isolated_push:
  assumes "isolated key s" "gq_Queue s = m # ms" "broker_push c m (s\<lparr>gq_Queue := ms\<rparr>) = Some s'"
  shows "isolated key s'"
proof -
  have s': "s' = s\<lparr>gq_Queue := ms, gq_Stranded := gq_Stranded s @ [m]\<rparr> \<or>
      s' = s\<lparr>gq_Queue := ms, gq_Buffer := (gq_Buffer s)(c := gq_Buffer s c @ [m])\<rparr>"
    using assms(3) by (auto simp: broker_push_def split: consumer.splits)
  have "m \<in> set (gq_Published s)" "set ms \<subseteq> set (gq_Published s)" using isolatedD(4)[OF assms(1)] assms(2) by auto
  then show ?thesis using assms(1) s' by (elim disjE) (simp_all add: isolated_def joiners_def slices_in_use_def)
qed

lemma isolated_receive:
  assumes "isolated key s" "consumer_receive key c s = Some s'"
  shows "isolated key s'"
proof -
  note I = isolatedD[OF assms(1)]
  obtain m ms where w: "gq_Consumer s c = Waiting" "gq_Buffer s c = m # ms"
    using assms(2) by (auto simp: consumer_receive_def split: consumer.splits list.splits)
  have m: "m \<in> set (gq_Published s)" "set ms \<subseteq> set (gq_Published s)" using I(6)[of c] w(2) by auto
  obtain t ok where get: "group_Get key (gq_Map s) = (t, ok)" by (cases "group_Get key (gq_Map s)")
  let ?x = "if ok then Busy m (bcast_start (gq_Map s) t) else Returned"
  have s': "gq_Consumer s' = (gq_Consumer s)(c := ?x)" "gq_Map s' = gq_Map s" "gq_Queue s' = gq_Queue s"
    "gq_Published s' = gq_Published s" "gq_Written s' = gq_Written s"
    "gq_Buffer s' = (gq_Buffer s)(c := (if ok then ms else []))"
    using assms(2) w get by (auto simp: consumer_receive_def split: if_splits)
  have J: "joiners s' = joiners s" using joiners_upd[OF s'(1)] joiners_mem[of s c] w by simp
  have "keeps_to key (joiners s) (insert t (slices_in_use s)) (gq_Map s)" if ok
    using keeps_to_get[OF I(1), of t] get that
    by (auto simp: group_Get_def map_slice_def split: option.splits)
  then have K: "keeps_to key (joiners s') (slices_in_use s') (gq_Map s')"
    unfolding s'(2) J using keeps_to_mono[OF _ subset_refl] I(1) slices_upd[OF s'(1)]
    by (cases ok) (auto simp: bcast_start_def)
  have B: "set (gq_Buffer s' d) \<subseteq> set (gq_Published s')" for d
    using I(6)[of d] m(2) s'(4,6) by (auto split: if_splits)
  show ?thesis
    by (rule isolated_change[OF assms(1) s'(1) _ _ _ B K])
      (use s' I(4) m(1) in \<open>auto simp: bcast_start_def split: if_splits\<close>)
qed

lemma isolated_work:
  assumes "isolated key s" "consumer_work grow key c l err s = Some s'" "\<And>e. l \<noteq> Other e"
  shows "isolated key s'"
  using assms(2)
proof (rule work_cases)
  note I = isolatedD[OF assms(1)]
  fix m b b'
  assume Busy: "gq_Consumer s c = Busy m b" and b': "bcast_do grow key l (b\<lparr>bc_Map := gq_Map s\<rparr>) = Some b'"
    and s': "gq_Map s' = bc_Map b'" "gq_Consumer s' = (gq_Consumer s)(c := (if bc_Acked b' then Waiting else Busy m b'))" "gq_Buffer s' = gq_Buffer s"
      "gq_Queue s' = gq_Queue s" "gq_Published s' = gq_Published s"
      "gq_Written s' = gq_Written s @ (case l of Wrote d \<Rightarrow> [(d, m)] | _ \<Rightarrow> [])"
  have use: "bc_Slice b \<in> slices_in_use s" using Busy by (auto simp: slices_in_use_def)
  have pend: "set (bc_Pending b) \<subseteq> joiners s" "m \<in> set (gq_Published s)" using I(2,3)[OF Busy] by auto
  have B: "keeps_to key (joiners s) (slices_in_use s) (bc_Map b')" "set (bc_Pending b') \<subseteq> joiners s"
    "\<And>d. l = Wrote d \<Longrightarrow> d \<in> joiners s" "bc_Slice b' = bc_Slice b"
    using bcast_keeps[OF b', of "joiners s" "slices_in_use s"] I(1) use pend(1) assms(3) bcast_do_slice[OF b'] by auto
  have J: "joiners s' = joiners s" using joiners_upd[OF s'(2)] joiners_mem[of s c] Busy by simp
  have "slices_in_use s' \<subseteq> slices_in_use s"
    using slices_upd[OF s'(2)] use B(4) by (cases "bc_Acked b'") auto
  then have K: "keeps_to key (joiners s') (slices_in_use s') (gq_Map s')"
    unfolding s'(1) J by (rule keeps_to_mono[OF B(1) subset_refl])
  have W: "w \<in> set (gq_Written s) \<or> fst w \<in> joiners s \<and> snd w \<in> set (gq_Published s)" if "w \<in> set (gq_Written s')" for w
    using that B(3) pend(2) unfolding s'(6) by (cases l) auto
  show ?thesis
    by (rule isolated_change[OF assms(1) s'(2) _ _ _ _ K _ W])
      (use s'(3-5) I(4,6) pend(2) B(2) in \<open>auto split: if_splits\<close>)
qed

lemma isolated_connect:
  assumes "isolated key s" "gq_Consumer s c = Off" "x = Waiting \<or> x = Unsubscribed"
  shows "isolated key (s\<lparr>gq_Map := group_Add grow key c (gq_Map s), gq_Consumer := (gq_Consumer s)(c := x)\<rparr>)"
    (is "isolated key ?s'")
proof -
  note I = isolatedD[OF assms(1)]
  have J: "joiners ?s' = insert c (joiners s)" using assms(3) by (intro joiners_upd[of _ _ _ x]) auto
  have S: "slices_in_use ?s' \<subseteq> slices_in_use s" using assms(3) by (intro slices_upd(1)[of _ _ c x]) auto
  have "keeps_to key (insert c (joiners s)) (slices_in_use s) (group_Add grow key c (gq_Map s))"
    using keeps_to_add[OF I(1), of key] by simp
  then have K: "keeps_to key (joiners ?s') (slices_in_use ?s') (gq_Map ?s')"
    using keeps_to_mono[OF _ subset_refl S] unfolding J by simp
  show ?thesis by (rule isolated_change[OF assms(1) _ _ _ _ _ K]) (use assms(2,3) I(4,6) in auto)
qed

lemma isolated_map:
  assumes "isolated key s" "keeps_to key (joiners s) (slices_in_use s) m"
  shows "isolated key (s\<lparr>gq_Map := m\<rparr>)"
  using assms by (simp add: isolated_def joiners_def slices_in_use_def)

lemma isolated_publish:
  assumes "isolated key s"
  shows "isolated key (s\<lparr>gq_Queue := gq_Queue s @ [m], gq_Published := gq_Published s @ [m]\<rparr>)"
  using assms by (auto simp: isolated_def joiners_def slices_in_use_def)

lemma isolated_step:
  assumes "queue_do grow key l s = Some s'" "isolated key s"
  shows "isolated key s'"
proof (cases l)
  case (Publishes m)
  then show ?thesis using assms isolated_publish by auto
next
  case (Connects c)
  then show ?thesis using assms isolated_connect[OF assms(2), of c Waiting] by (auto split: if_splits)
next
  case (ConnectsOnly c)
  then show ?thesis using assms isolated_connect[OF assms(2), of c Unsubscribed] by (auto split: if_splits)
next
  case (Disconnects c)
  then show ?thesis using assms isolated_map[OF assms(2) keeps_to_drop[OF isolatedD(1)[OF assms(2)]]]
    by (auto simp: eat_disconnect_def split: if_splits)
next
  case (Push c)
  then show ?thesis using assms isolated_push by (auto split: list.splits)
next
  case (Deliver c)
  then show ?thesis using assms isolated_receive by simp
next
  case (Work c l')
  then have "consumer_work grow key c l' False s = Some s'" "\<And>e. l' \<noteq> Other e"
    using assms(1) by (cases l'; simp)+
  then show ?thesis by (rule isolated_work[OF assms(2)])
next
  case (AckFails c)
  then have "consumer_work grow key c Ack True s = Some s'" using assms(1) by simp
  then show ?thesis by (rule isolated_work[OF assms(2)]) simp
next
  case (Elsewhere e)
  then show ?thesis using assms isolated_map[OF assms(2) keeps_to_event[OF isolatedD(1)[OF assms(2)]]]
    by (auto simp del: quiet_label.simps split: if_splits)
qed

lemma isolated_reachable: "queue_reachable grow key s \<Longrightarrow> isolated key s"
proof (induction rule: queue_reachable.induct)
  case reach_init
  then show ?case using keeps_to_new by (simp add: isolated_def joiners_def slices_in_use_def queue_init_def)
qed (rule isolated_step)

subsection \<open>Property\<close>

text \<open>C15: Although a broadcast reads a slice that other sessions shift and extend meanwhile, in arrays that
  outlive an emptied group, every write goes to a client that has joined this group (never to a client
  of another group, and to nothing that is not a client) and carries a message that was published to
  this group, whatever the schedule.\<close>

theorem writes_stay_in_the_group:
  assumes "queue_reachable grow key s" "(d, m) \<in> set (gq_Written s)"
  shows "gq_Consumer s d \<noteq> Off \<and> m \<in> set (gq_Published s)"
  using isolatedD(5)[OF isolated_reachable[OF assms(1)] assms(2)] by (simp add: joiners_def)

text \<open>Client 1 leaves during a broadcast: client 2 gets the message twice, and nobody else does.\<close>

definition shifted_schedule :: "'m \<Rightarrow> 'm queue_label list" where
  "shifted_schedule a = [Connects 1, Connects 2, Elsewhere (Joins ''h'' 3), Publishes a, Push 2, Deliver 2, Disconnects 1,
     Work 2 Spawn, Work 2 Spawn, Work 2 (Wrote 2), Work 2 (Wrote 2), Work 2 Ack]"

lemma shifted_run:
  "\<exists>s. fold_opt (queue_do (\<lambda>n. n) ''g'') (shifted_schedule a) queue_init = Some s \<and>
    gq_Written s = [(2, a), (2, a)] \<and> gq_Acked s = [a]"
  by (simp add: shifted_schedule_def queue_init_def broker_push_def consumer_receive_def consumer_work_def bcast_start_def Let_def
      group_Add_def group_Get_def group_RemoveClient_def map_slice_def slice_append_def slice_delete_def slice_elems_def
      sl_nil_def heap_empty_def NewGroupCodeDataClientManagerMap_def eat_disconnect_def)

theorem writes_stay_in_the_group_witness:
  "\<exists>s. fold_opt (queue_do (\<lambda>n. n) ''g'') (shifted_schedule ''a'') queue_init = Some s \<and>
    (2, ''a'') \<in> set (gq_Written s) \<and> gq_Consumer s 2 \<noteq> Off \<and> ''a'' \<in> set (gq_Published s)"
proof -
  obtain s where s: "fold_opt (queue_do (\<lambda>n. n) ''g'') (shifted_schedule ''a'') queue_init = Some s"
      "gq_Written s = [(2, ''a''), (2, ''a'')]"
    using shifted_run[of "''a''"] by blast
  then have "(2, ''a'') \<in> set (gq_Written s)" by simp
  from writes_stay_in_the_group[OF reach_run[OF reach_init s(1)] this] this s(1) show ?thesis by blast
qed

end
