(* ===== verification/System.thy ===== *)
theory System
  imports Engine Isolation
begin

section \<open>From a sent point to the clients of a group\<close>

text \<open>
  This theory composes the two programs: sessions publish points to the queue of live points, the engine
  consumes that queue and publishes results, and the queue of one group takes the results for this
  group to the consumers of its sessions (\<open>GroupQueue\<close>). What the engine publishes is read from the
  trace of its calls and routed by its key, as a direct exchange does.

  \<open>clients_get_only_results\<close>: whatever is written to a client is a result of processing its own group.
  \<open>point_reaches_everyone\<close>: a sent point can always reach every client of its group.
  \<open>live_lines_group_feeds_back\<close>: a point for a group with the name of the engine's own queue keeps the
  engine busy with its own results for ever.
\<close>

subsection \<open>The composed system\<close>

definition traced_engine ::
  "('bytes, 'db, 'b, 'doc, 'bson, 'text) engine \<Rightarrow> ('bytes, 'db, 'b \<times> 'bytes amqp_event list, 'doc, 'bson, 'text) engine" where
  "traced_engine en = \<lparr>en_rt = en_rt en, en_encode = en_encode en, en_ops = traced (en_ops en),
     en_unmarshal = en_unmarshal en, en_insert = en_insert en, en_store = en_store en\<rparr>"

definition routed :: "string \<Rightarrow> 'bytes amqp_event list \<Rightarrow> 'bytes list" where
  "routed key evs = List.map_filter (\<lambda>e. case e of
     Published x k body \<Rightarrow> if x = EXCHANGE_NAME \<and> k = key then Some body else None | _ \<Rightarrow> None) evs"

record ('bytes, 'db, 'b) system =
  sy_Live :: "'bytes list"
  sy_Engine :: "('bytes, 'db, 'b \<times> 'bytes amqp_event list) engine_run"
  sy_Group :: "'bytes group_queue"

definition system_init :: "'db \<Rightarrow> 'b \<Rightarrow> ('bytes, 'db, 'b) system" where
  "system_init db b = \<lparr>sy_Live = [],
     sy_Engine = \<lparr>er_State = \<lparr>es_data = zero_live_line, es_db = db, es_broker = (b, []), es_acked = []\<rparr>,
       er_Task = None, er_Received = []\<rparr>,
     sy_Group = queue_init\<rparr>"

abbreviation sy_State :: "('bytes, 'db, 'b) system \<Rightarrow> ('bytes, 'db, 'b \<times> 'bytes amqp_event list) engine_state" where
  "sy_State s \<equiv> er_State (sy_Engine s)"

abbreviation engine_events :: "('bytes, 'db, 'b \<times> 'bytes amqp_event list) engine_run \<Rightarrow> 'bytes amqp_event list" where
  "engine_events e \<equiv> snd (es_broker (er_State e))"

text \<open>
  The steps: a session publishes a body to the queue of live points; the engine takes the next body of that
  queue; a step of one of its two goroutines, or the acknowledgement (if the step is a publication, the
  broker may lose it); a step of the group's queue that is not a publication.
\<close>

datatype 'bytes system_label = Sends 'bytes | Consumes | Works engine_step bool | Serves "'bytes queue_label"

fun system_do ::
  "(nat \<Rightarrow> nat) \<Rightarrow> ('bytes, 'db, 'b, 'doc, 'bson, 'text) engine \<Rightarrow> string \<Rightarrow> 'bytes system_label \<Rightarrow>
   ('bytes, 'db, 'b) system \<Rightarrow> ('bytes, 'db, 'b) system option" where
  "system_do grow en key (Sends body) s = Some (s\<lparr>sy_Live := sy_Live s @ [body]\<rparr>)"
| "system_do grow en key Consumes s =
     (case sy_Live s of
        [] \<Rightarrow> None
      | body # live \<Rightarrow> do {
          e \<leftarrow> engine_take (traced_engine en) body (sy_Engine s);
          Some (s\<lparr>sy_Live := live, sy_Engine := e\<rparr>)
        })"
| "system_do grow en key (Works step lost) s = do {
     e \<leftarrow> engine_do (traced_engine en) step (sy_Engine s);
     let evs = (if lost then [] else drop (length (engine_events (sy_Engine s))) (engine_events e));
     q \<leftarrow> fold_opt (queue_do grow key) (map Publishes (routed key evs)) (sy_Group s);
     Some \<lparr>sy_Live = sy_Live s @ routed LIVE_LINES_QUEUE_NAME evs, sy_Engine = e, sy_Group = q\<rparr>
   }"
| "system_do grow en key (Serves l) s =
     (case l of
        Publishes m \<Rightarrow> None
      | _ \<Rightarrow> map_option (\<lambda>q. s\<lparr>sy_Group := q\<rparr>) (queue_do grow key l (sy_Group s)))"

text \<open>The group has a queue of its own, so its code is not the name of the queue of live points.\<close>

inductive system_reachable ::
  "(nat \<Rightarrow> nat) \<Rightarrow> ('bytes, 'db, 'b, 'doc, 'bson, 'text) engine \<Rightarrow> string \<Rightarrow> ('bytes, 'db, 'b) system \<Rightarrow> bool"
  for grow en key where
  system_starts: "key \<noteq> LIVE_LINES_QUEUE_NAME \<Longrightarrow> system_reachable grow en key (system_init db b)"
| system_steps: "system_reachable grow en key s \<Longrightarrow> system_do grow en key l s = Some s' \<Longrightarrow> system_reachable grow en key s'"

lemma system_reach_run:
  assumes "system_reachable grow en key s" "fold_opt (system_do grow en key) ls s = Some s'"
  shows "system_reachable grow en key s'"
  using assms(2,1) by (rule fold_opt_invariant) (rule system_steps)

subsection \<open>What the engine publishes\<close>

text \<open>A result for a group: the JSON of what one of its points, read from a body, made the engine compute.\<close>

definition result_for :: "('bytes, 'db, 'b, 'doc, 'bson, 'text) engine \<Rightarrow> string \<Rightarrow> 'bytes \<Rightarrow> 'bytes \<Rightarrow> bool" where
  "result_for en key body m \<longleftrightarrow> (\<exists>d pt db db' ls ps ls' rs.
     en_unmarshal en body d = (None, pt) \<and> ll_GroupCode pt = key \<and>
     getLiveLinesDataFromMongo (en_store en db) key = Inr ls \<and> getPolygonDataFromMongo (en_store en db') key = Inr ps \<and>
     processData (en_rt en) ls ps (production_config (en_rt en)) = Some (Inr (ls', rs)) \<and>
     m = en_encode en \<lparr>rr_Polygons = rs, rr_LiveLines = ls'\<rparr>)"

lemma traced_engine_simps [simp]:
  "en_rt (traced_engine en) = en_rt en" "en_encode (traced_engine en) = en_encode en"
  "en_ops (traced_engine en) = traced (en_ops en)" "en_unmarshal (traced_engine en) = en_unmarshal en"
  "en_insert (traced_engine en) = en_insert en" "en_store (traced_engine en) = en_store en"
  by (simp_all add: traced_engine_def)

lemma routed_simps [simp]: "routed key [] = []" "routed key (evs @ evs') = routed key evs @ routed key evs'"
  "routed key (publish_calls m code) = (if code = key then [m] else [])"
  by (simp_all add: routed_def map_filter_def publish_calls_def)

lemma routed_take: "m' \<in> set (routed key (take n (publish_calls m code))) \<Longrightarrow> m' = m \<and> code = key"
proof -
  assume "m' \<in> set (routed key (take n (publish_calls m code)))"
  then have "m' \<in> set (routed key (take n (publish_calls m code) @ drop n (publish_calls m code)))"
    unfolding routed_simps by simp
  then show ?thesis by (simp split: if_splits)
qed

text \<open>What a task has is what it got for the code of its point.\<close>

definition task_ok :: "('bytes, 'db, 'b, 'doc, 'bson, 'text) engine \<Rightarrow> ('bytes, 'db, 'c) engine_run \<Rightarrow> bool" where
  "task_ok en e \<longleftrightarrow> (\<forall>t. er_Task e = Some t \<longrightarrow> tk_Body t \<in> set (er_Received e) \<and>
     (\<exists>d. en_unmarshal en (tk_Body t) d = (None, es_data (er_State e))) \<and>
     (\<forall>ls. tk_Lines t = Some (Inr ls) \<longrightarrow>
        (\<exists>db. getLiveLinesDataFromMongo (en_store en db) (ll_GroupCode (es_data (er_State e))) = Inr ls)) \<and>
     (\<forall>ps. tk_Polygons t = Some (Inr ps) \<longrightarrow>
        (\<exists>db. getPolygonDataFromMongo (en_store en db) (ll_GroupCode (es_data (er_State e))) = Inr ps)))"

lemma task_ok_take:
  assumes "engine_take (traced_engine en) body e = Some e'"
  shows "task_ok en e'" "er_Received e' = er_Received e @ [body]" "es_broker (er_State e') = es_broker (er_State e)"
    "es_acked (er_State e') = es_acked (er_State e)"
proof -
  obtain err data where u: "en_unmarshal en body (es_data (er_State e)) = (err, data)"
    by (cases "en_unmarshal en body (es_data (er_State e))")
  then have "\<exists>d. en_unmarshal en body d = (None, data)" if "err = None" using that by blast
  with u assms show "task_ok en e'" "er_Received e' = er_Received e @ [body]" "es_broker (er_State e') = es_broker (er_State e)"
    "es_acked (er_State e') = es_acked (er_State e)"
    by (cases err; auto simp: engine_take_def task_ok_def Let_def split: if_splits)+
qed

lemma task_ok_do:
  assumes "task_do (traced_engine en) step t s = Some (Some t', s')" "step \<noteq> Processes"
    "task_ok en e" "er_Task e = Some t" "er_State e = s"
  shows "task_ok en (e\<lparr>er_State := s', er_Task := Some t'\<rparr>) \<and> es_broker s' = es_broker s"
proof (cases step)
  case ReadsPolygons
  then obtain ls where "tk_Lines t = Some (Inr ls)" "s' = s"
      "t' = t\<lparr>tk_Polygons := Some (getPolygonDataFromMongo (en_store en (es_db s)) (ll_GroupCode (es_data s)))\<rparr>"
    using assms(1) by (auto split: option.splits sum.splits if_splits)
  then show ?thesis using assms(3-5) by (auto simp: task_ok_def)
qed (use assms in \<open>auto simp: task_ok_def split: if_splits\<close>)

lemma processes_events:
  assumes "runtime_ok (en_rt en)" "task_do (traced_engine en) Processes t s = Some (t', s')"
    "task_ok en e" "er_Task e = Some t" "er_State e = s" "es_broker s = (b, evs)"
  shows "t' = Some (t\<lparr>tk_Processed := True\<rparr>) \<and> (\<exists>b' new. s' = s\<lparr>es_broker := (b', evs @ new)\<rparr> \<and>
    (\<forall>k m. m \<in> set (routed k new) \<longrightarrow> result_for en k (tk_Body t) m))"
proof -
  let ?code = "ll_GroupCode (es_data s)"
  obtain lls ps r b1 where run: "task_reads t = Some (lls, ps)"
      "run_processor (en_rt en) (en_encode en) (traced (en_ops en)) ?code lls ps (b, evs) = Some (r, b1)"
      "t' = Some (t\<lparr>tk_Processed := True\<rparr>)" "s' = s\<lparr>es_broker := b1\<rparr>"
    using assms(2,6) by (auto split: if_splits Option.bind_splits prod.splits)
  note cases = run_processor_cases[OF assms(1) run(2)]
  obtain d where d: "en_unmarshal en (tk_Body t) d = (None, es_data s)" using assms(3-5) by (auto simp: task_ok_def)
  have "\<exists>b' new. b1 = (b', evs @ new) \<and> (\<forall>k m. m \<in> set (routed k new) \<longrightarrow> result_for en k (tk_Body t) m)"
  proof (cases r)
    case (Some x)
    then have "b1 = (b, evs)" using cases by simp
    then show ?thesis by (intro exI[of _ b] exI[of _ "[]"]) simp
  next
    case None
    then obtain l p l' rs where res: "lls = Inr l" "ps = Inr p"
        "processData (en_rt en) l p (production_config (en_rt en)) = Some (Inr (l', rs))"
        "b1 = snd (PublishWithContext (traced (en_ops en)) (en_encode en \<lparr>rr_Polygons = rs, rr_LiveLines = l'\<rparr>) ?code True (b, evs))"
      using cases by (elim conjE) blast
    have "tk_Lines t = Some (Inr l)" "tk_Polygons t = Some (Inr p)"
      using run(1) res(1,2) by (auto simp: task_reads.simps split: option.splits sum.splits)
    then obtain db db' where "getLiveLinesDataFromMongo (en_store en db) ?code = Inr l"
        "getPolygonDataFromMongo (en_store en db') ?code = Inr p"
      using assms(3-5) by (auto simp: task_ok_def)
    then have m: "result_for en ?code (tk_Body t) (en_encode en \<lparr>rr_Polygons = rs, rr_LiveLines = l'\<rparr>)"
      unfolding result_for_def using d res(3) by blast
    let ?m = "en_encode en \<lparr>rr_Polygons = rs, rr_LiveLines = l'\<rparr>"
    obtain n b2 where b1: "b1 = (b2, evs @ take n (publish_calls ?m ?code))"
      using publish_traced[of "en_ops en" ?m ?code b evs] res(4) by (elim exE conjE) (rule that, simp)
    then show ?thesis using m routed_take[of _ _ n ?m ?code]
      by (intro exI[of _ b2] exI[of _ "take n (publish_calls ?m ?code)"]) auto
  qed
  then show ?thesis using run(3,4) by blast
qed

lemma works_events:
  assumes "runtime_ok (en_rt en)" "engine_do (traced_engine en) step e = Some e'" "task_ok en e"
  shows "task_ok en e' \<and> er_Received e' = er_Received e \<and> (\<exists>new. engine_events e' = engine_events e @ new \<and>
    (\<forall>k m. m \<in> set (routed k new) \<longrightarrow> (\<exists>body\<in>set (er_Received e). result_for en k body m)))"
  using assms(2)
proof (rule engine_do_cases)
  fix t t' s'
  assume step: "er_Task e = Some t" "task_do (traced_engine en) step t (er_State e) = Some (t', s')"
    "e' = e\<lparr>er_State := s', er_Task := t'\<rparr>"
  obtain b evs where b: "es_broker (er_State e) = (b, evs)" by (cases "es_broker (er_State e)")
  consider "step = Processes" | "step = Acks" | t2 where "step \<noteq> Processes" "t' = Some t2"
    using task_do_None[of "traced_engine en" step t "er_State e" s'] step(2) by (cases t') auto
  then show ?thesis
  proof cases
    case 1
    obtain b' new where new: "t' = Some (t\<lparr>tk_Processed := True\<rparr>)" "s' = (er_State e)\<lparr>es_broker := (b', evs @ new)\<rparr>"
        "\<forall>k m. m \<in> set (routed k new) \<longrightarrow> result_for en k (tk_Body t) m"
      using processes_events[OF assms(1) step(2)[unfolded 1] assms(3) step(1) refl b] by blast
    have "task_ok en e'" "tk_Body t \<in> set (er_Received e)" using assms(3) step(1,3) new(1,2) by (auto simp: task_ok_def)
    then show ?thesis using new step(3) b by auto
  next
    case 2
    then have "t' = None" "es_broker s' = es_broker (er_State e)" using step(2) by (auto split: if_splits)
    then show ?thesis using step(3) by (auto simp: task_ok_def)
  next
    case 3
    then have "task_ok en e' \<and> es_broker s' = es_broker (er_State e)"
      using task_ok_do[of en step t "er_State e" t2 s' e] step assms(3) by simp
    then show ?thesis using step(3) by auto
  qed
qed

subsection \<open>Invariant\<close>

lemma published_step:
  "queue_do grow key l q = Some q' \<Longrightarrow> (\<And>m. l \<noteq> Publishes m) \<Longrightarrow> gq_Published q' = gq_Published q"
  by (cases l)
    (auto simp: broker_push_def consumer_receive_def consumer_work_def Let_def
      split: if_splits consumer.splits list.splits prod.splits bcast_label.splits Option.bind_splits)

lemma publishes_run:
  "fold_opt (queue_do grow key) (map Publishes ms) q =
     Some (q\<lparr>gq_Queue := gq_Queue q @ ms, gq_Published := gq_Published q @ ms\<rparr>)"
  by (induction ms arbitrary: q) simp_all

definition results_only :: "(nat \<Rightarrow> nat) \<Rightarrow> ('bytes, 'db, 'b, 'doc, 'bson, 'text) engine \<Rightarrow> string \<Rightarrow> ('bytes, 'db, 'b) system \<Rightarrow> bool" where
  "results_only grow en key s \<longleftrightarrow> queue_reachable grow key (sy_Group s) \<and> task_ok en (sy_Engine s) \<and>
     (\<forall>m\<in>set (gq_Published (sy_Group s)). \<exists>body\<in>set (er_Received (sy_Engine s)). result_for en key body m)"

lemma results_only_step:
  assumes "runtime_ok (en_rt en)" "system_do grow en key l s = Some s'" "results_only grow en key s"
  shows "results_only grow en key s'"
proof (cases l)
  case (Sends body)
  then show ?thesis using assms by (auto simp: results_only_def)
next
  case Consumes
  then obtain body live e where step: "engine_take (traced_engine en) body (sy_Engine s) = Some e"
      "s' = s\<lparr>sy_Live := live, sy_Engine := e\<rparr>"
    using assms(2) by (auto split: list.splits Option.bind_splits)
  then show ?thesis using assms(3) task_ok_take[OF step(1)] by (auto simp: results_only_def)
next
  case (Works step lost)
  then obtain e where e: "engine_do (traced_engine en) step (sy_Engine s) = Some e"
    using assms(2) by (auto split: Option.bind_splits)
  obtain new where new: "task_ok en e" "er_Received e = er_Received (sy_Engine s)" "engine_events e = engine_events (sy_Engine s) @ new"
      "\<forall>k m. m \<in> set (routed k new) \<longrightarrow> (\<exists>body\<in>set (er_Received (sy_Engine s)). result_for en k body m)"
    using works_events[OF assms(1) e] assms(3) unfolding results_only_def by blast
  let ?ms = "routed key (if lost then [] else new)"
  have s': "sy_Engine s' = e" "fold_opt (queue_do grow key) (map Publishes ?ms) (sy_Group s) = Some (sy_Group s')"
    using assms(2) Works e new(3) by (auto simp: publishes_run Let_def)
  have "sy_Group s' = (sy_Group s)\<lparr>gq_Queue := gq_Queue (sy_Group s) @ ?ms, gq_Published := gq_Published (sy_Group s) @ ?ms\<rparr>"
    using s'(2) unfolding publishes_run by (rule option.inject[THEN iffD1, symmetric])
  then have "gq_Published (sy_Group s') = gq_Published (sy_Group s) @ ?ms" by simp
  moreover have "\<exists>body\<in>set (er_Received e). result_for en key body m" if "m \<in> set ?ms \<or> m \<in> set (gq_Published (sy_Group s))" for m
    using that
  proof
    assume "m \<in> set ?ms"
    then have "m \<in> set (routed key new)" by (simp split: if_splits)
    then show ?thesis using new(2,4) by simp
  next
    assume "m \<in> set (gq_Published (sy_Group s))"
    then show ?thesis using assms(3) new(2) unfolding results_only_def by simp
  qed
  moreover have "queue_reachable grow key (sy_Group s')"
    using reach_run[OF _ s'(2)] assms(3) by (simp add: results_only_def)
  ultimately show ?thesis unfolding results_only_def s'(1) using new(1) by (simp only: set_append Un_iff) blast
next
  case (Serves l')
  then obtain q where q: "queue_do grow key l' (sy_Group s) = Some q" "s' = s\<lparr>sy_Group := q\<rparr>" "\<And>m. l' \<noteq> Publishes m"
    using assms(2) by (cases l') (auto simp del: queue_do.simps)
  then show ?thesis using assms(3) published_step[OF q(1,3)] reach_step[OF _ q(1)] by (simp add: results_only_def)
qed

lemma results_only_reachable:
  assumes "runtime_ok (en_rt en)" "system_reachable grow en key s"
  shows "results_only grow en key s"
  using assms(2)
proof (induction rule: system_reachable.induct)
  case (system_starts db b)
  have "gq_Published (queue_init :: 'a group_queue) = []" by (simp add: queue_init_def)
  then show ?case by (simp add: results_only_def system_init_def reach_init task_ok_def)
qed (rule results_only_step[OF assms(1)])

subsection \<open>A result on its way to the clients\<close>

text \<open>The consumer starts a goroutine for the next client, and it writes.\<close>

definition serve_one :: "ptr \<Rightarrow> ptr \<Rightarrow> 'm queue_label list" where
  "serve_one c d = [Work c Spawn, Work c (Wrote d)]"

lemma serve_one_run:
  assumes "gq_Consumer q c = Busy m b" "\<not> bc_Acked b" "bc_Pending b = []" "bc_Next b < sl_len (bc_Slice b)"
    and "slice_elems (grp_heap (gq_Map q)) (bc_Slice b) ! bc_Next b = d"
  shows "fold_opt (queue_do grow key) (serve_one c d) q =
    Some (q\<lparr>gq_Written := gq_Written q @ [(d, m)], gq_Consumer := (gq_Consumer q)(c :=
      Busy m (b\<lparr>bc_Next := bc_Next b + 1, bc_Map := gq_Map q, bc_Pending := [], bc_Written := bc_Written b @ [d]\<rparr>))\<rparr>)"
  using assms by (simp add: serve_one_def consumer_work_def Let_def)

lemma serve_all_run:
  assumes "gq_Consumer q c = Busy m b" "\<not> bc_Acked b" "bc_Pending b = []"
    and "slice_elems (grp_heap (gq_Map q)) (bc_Slice b) = ms" "sl_len (bc_Slice b) = length ms" "bc_Next b \<le> length ms"
  shows "\<exists>q'. fold_opt (queue_do grow key) (concat (map (serve_one c) (drop (bc_Next b) ms)) @ [Work c Ack]) q = Some q' \<and>
    gq_Written q' = gq_Written q @ map (\<lambda>d. (d, m)) (drop (bc_Next b) ms) \<and> gq_Acked q' = gq_Acked q @ [m] \<and>
    gq_Consumer q' c = Waiting \<and> gq_Buffer q' = gq_Buffer q \<and> gq_Map q' = gq_Map q"
  using assms
proof (induction "length ms - bc_Next b" arbitrary: q b)
  case 0
  then show ?case by (simp add: consumer_work_def Let_def)
next
  case (Suc n)
  let ?d = "ms ! bc_Next b"
  let ?b = "b\<lparr>bc_Next := bc_Next b + 1, bc_Map := gq_Map q, bc_Pending := [], bc_Written := bc_Written b @ [?d]\<rparr>"
  let ?q = "q\<lparr>gq_Written := gq_Written q @ [(?d, m)], gq_Consumer := (gq_Consumer q)(c := Busy m ?b)\<rparr>"
  have less: "bc_Next b < length ms" using Suc.hyps(2) by simp
  have one: "fold_opt (queue_do grow key) (serve_one c ?d) q = Some ?q"
    using less Suc.prems(4,5) by (intro serve_one_run[OF Suc.prems(1-3)]) simp_all
  have "\<exists>q'. fold_opt (queue_do grow key) (concat (map (serve_one c) (drop (bc_Next ?b) ms)) @ [Work c Ack]) ?q = Some q' \<and>
    gq_Written q' = gq_Written ?q @ map (\<lambda>d. (d, m)) (drop (bc_Next ?b) ms) \<and> gq_Acked q' = gq_Acked ?q @ [m] \<and>
    gq_Consumer q' c = Waiting \<and> gq_Buffer q' = gq_Buffer ?q \<and> gq_Map q' = gq_Map ?q"
    by (rule Suc.hyps(1)) (use Suc.hyps(2) Suc.prems less in simp_all)
  then obtain q' where q': "fold_opt (queue_do grow key) (concat (map (serve_one c) (drop (Suc (bc_Next b)) ms)) @ [Work c Ack]) ?q = Some q'"
      "gq_Written q' = gq_Written ?q @ map (\<lambda>d. (d, m)) (drop (Suc (bc_Next b)) ms)" "gq_Acked q' = gq_Acked ?q @ [m]"
      "gq_Consumer q' c = Waiting" "gq_Buffer q' = gq_Buffer ?q" "gq_Map q' = gq_Map ?q"
    by auto
  have drop: "drop (bc_Next b) ms = ?d # drop (Suc (bc_Next b)) ms" using less by (simp add: Cons_nth_drop_Suc)
  have "fold_opt (queue_do grow key) (serve_one c ?d @ concat (map (serve_one c) (drop (Suc (bc_Next b)) ms)) @ [Work c Ack]) q = Some q'"
    unfolding fold_opt_append[of _ "serve_one c ?d"] one bind.simps by (rule q'(1))
  then show ?case using q'(2-) unfolding drop by (intro exI[of _ q']) simp
qed

text \<open>A waiting consumer takes the next message of its subscription and writes it to everyone.\<close>

definition serve_message :: "ptr \<Rightarrow> ptr list \<Rightarrow> 'm queue_label list" where
  "serve_message c ms = Deliver c # concat (map (serve_one c) ms) @ [Work c Ack]"

lemma serve_message_run:
  assumes "group_ok (gq_Map q)" "gq_Consumer q c = Waiting" "group_members (gq_Map q) key = ms" "ms \<noteq> []"
    and "gq_Buffer q c = m # xs"
  shows "\<exists>q'. fold_opt (queue_do grow key) (serve_message c ms) q = Some q' \<and>
    gq_Written q' = gq_Written q @ map (\<lambda>d. (d, m)) ms \<and> gq_Acked q' = gq_Acked q @ [m] \<and>
    gq_Consumer q' c = Waiting \<and> gq_Buffer q' c = xs \<and> gq_Map q' = gq_Map q"
proof -
  obtain t where t: "gomap_get (grp_Map (gq_Map q)) key = Some t"
    using members_None[of "gq_Map q" key] assms(3,4) by (cases "gomap_get (grp_Map (gq_Map q)) key") auto
  have ms: "slice_elems (grp_heap (gq_Map q)) t = ms" using members_Some[OF t] assms(3) by simp
  then have len: "sl_len t = length ms"
    using group_okD(3)[OF assms(1) t] by (auto simp: slice_elems_def slice_wf_def)
  have get: "group_Get key (gq_Map q) = (t, True)" using t by (simp add: group_Get_def map_slice_def)
  define b where "b = bcast_start (gq_Map q) t"
  define q1 where "q1 = q\<lparr>gq_Buffer := (gq_Buffer q)(c := xs), gq_Consumer := (gq_Consumer q)(c := Busy m b)\<rparr>"
  have d: "queue_do grow key (Deliver c) q = Some q1" "gq_Written q1 = gq_Written q" "gq_Acked q1 = gq_Acked q"
      "gq_Buffer q1 c = xs" "gq_Map q1 = gq_Map q"
    using assms(2,5) get by (simp_all add: consumer_receive_def q1_def b_def)
  have "\<exists>q'. fold_opt (queue_do grow key) (concat (map (serve_one c) (drop (bc_Next b) ms)) @ [Work c Ack]) q1 = Some q' \<and>
      gq_Written q' = gq_Written q1 @ map (\<lambda>d. (d, m)) (drop (bc_Next b) ms) \<and> gq_Acked q' = gq_Acked q1 @ [m] \<and>
      gq_Consumer q' c = Waiting \<and> gq_Buffer q' = gq_Buffer q1 \<and> gq_Map q' = gq_Map q1"
    using ms len by (intro serve_all_run) (simp_all add: b_def bcast_start_def q1_def)
  then obtain q' where q': "fold_opt (queue_do grow key) (concat (map (serve_one c) ms) @ [Work c Ack]) q1 = Some q'"
      "gq_Written q' = gq_Written q1 @ map (\<lambda>d. (d, m)) ms" "gq_Acked q' = gq_Acked q1 @ [m]"
      "gq_Consumer q' c = Waiting" "gq_Buffer q' = gq_Buffer q1" "gq_Map q' = gq_Map q1"
    by (auto simp: b_def bcast_start_def)
  then show ?thesis using d unfolding serve_message_def by (intro exI[of _ q']) (simp del: queue_do.simps)
qed

lemma serve_messages_run:
  assumes "group_ok (gq_Map q)" "gq_Consumer q c = Waiting" "group_members (gq_Map q) key = ms" "ms \<noteq> []"
    and "gq_Buffer q c = xs"
  shows "\<exists>q'. fold_opt (queue_do grow key) (concat (map (\<lambda>_. serve_message c ms) xs)) q = Some q' \<and>
    gq_Written q' = gq_Written q @ concat (map (\<lambda>m. map (\<lambda>d. (d, m)) ms) xs) \<and> gq_Acked q' = gq_Acked q @ xs"
  using assms
proof (induction xs arbitrary: q)
  case (Cons m xs)
  obtain q1 where q1: "fold_opt (queue_do grow key) (serve_message c ms) q = Some q1"
      "gq_Written q1 = gq_Written q @ map (\<lambda>d. (d, m)) ms" "gq_Acked q1 = gq_Acked q @ [m]"
      "gq_Consumer q1 c = Waiting" "gq_Buffer q1 c = xs" "gq_Map q1 = gq_Map q"
    using serve_message_run[OF Cons.prems, where grow = grow] by (elim exE conjE) (rule that)
  have "group_ok (gq_Map q1)" "group_members (gq_Map q1) key = ms" using Cons.prems(1,3) q1(6) by simp_all
  from Cons.IH[OF this(1) q1(4) this(2) Cons.prems(4) q1(5)] q1(1-3)
  show ?case by (auto simp: fold_opt_append simp del: queue_do.simps)
qed simp

text \<open>The broker gives the result to a waiting consumer, which has to serve what it was given before.\<close>

lemma deliver_to_all:
  assumes "queue_reachable grow key q" "gq_Consumer q c = Waiting" "group_members (gq_Map q) key = ms" "ms \<noteq> []"
    and "gq_Queue q = [m]" "gq_Buffer q c = xs"
  shows "\<exists>ls q'. (\<forall>m. Publishes m \<notin> set ls) \<and> fold_opt (queue_do grow key) ls q = Some q' \<and>
    gq_Written q' = gq_Written q @ concat (map (\<lambda>m. map (\<lambda>d. (d, m)) ms) (xs @ [m])) \<and> gq_Acked q' = gq_Acked q @ xs @ [m]"
proof -
  define q1 where "q1 = q\<lparr>gq_Queue := [], gq_Buffer := (gq_Buffer q)(c := xs @ [m])\<rparr>"
  have push: "queue_do grow key (Push c) q = Some q1" using assms(2,5,6) by (simp add: broker_push_def q1_def)
  have q1: "gq_Written q1 = gq_Written q" "gq_Acked q1 = gq_Acked q" "gq_Consumer q1 c = Waiting" "gq_Map q1 = gq_Map q"
      "gq_Buffer q1 c = xs @ [m]" using assms(2) by (simp_all add: q1_def)
  have "group_ok (gq_Map q1)" "group_members (gq_Map q1) key = ms" using queue_group_ok[OF assms(1)] assms(3) q1(4) by simp_all
  from serve_messages_run[OF this(1) q1(3) this(2) assms(4) q1(5), where grow = grow]
  obtain q' where q': "fold_opt (queue_do grow key) (concat (map (\<lambda>_. serve_message c ms) (xs @ [m]))) q1 = Some q'"
      "gq_Written q' = gq_Written q1 @ concat (map (\<lambda>m. map (\<lambda>d. (d, m)) ms) (xs @ [m]))" "gq_Acked q' = gq_Acked q1 @ xs @ [m]"
    by (elim exE conjE) (rule that)
  let ?ls = "Push c # concat (map (\<lambda>_. serve_message c ms) (xs @ [m]))"
  have "fold_opt (queue_do grow key) ?ls q = Some q'"
    using push q'(1) by (simp only: fold_opt.simps bind.simps)
  moreover have "\<forall>m. Publishes m \<notin> set ?ls" by (auto simp: serve_message_def serve_one_def)
  ultimately show ?thesis using q'(2,3) q1(1,2) by (intro exI[of _ ?ls] exI[of _ q']) simp
qed

lemma serves_run:
  "\<forall>m. Publishes m \<notin> set ls \<Longrightarrow> fold_opt (queue_do grow key) ls (sy_Group s) = Some q \<Longrightarrow>
   fold_opt (system_do grow en key) (map Serves ls) s = Some (s\<lparr>sy_Group := q\<rparr>)"
proof (induction ls arbitrary: s)
  case (Cons l ls)
  then obtain q1 where q1: "queue_do grow key l (sy_Group s) = Some q1" "fold_opt (queue_do grow key) ls q1 = Some q"
    by (auto simp del: queue_do.simps split: Option.bind_splits)
  then have "system_do grow en key (Serves l) s = Some (s\<lparr>sy_Group := q1\<rparr>)"
    using Cons.prems(1) by (cases l) (auto simp del: queue_do.simps)
  then show ?case using Cons.IH[of "s\<lparr>sy_Group := q1\<rparr>"] Cons.prems(1) q1(2) by (simp del: queue_do.simps system_do.simps)
qed simp

subsection \<open>An engine that is answered\<close>

text \<open>
  The database answers both reads of a group, what is computed from any answers has JSON, and the broker
  accepts publications to the group.
\<close>

definition group_answers :: "('bytes, 'db, 'b, 'doc, 'bson, 'text) engine \<Rightarrow> string \<Rightarrow> bool" where
  "group_answers en key \<longleftrightarrow>
     (\<forall>db. \<exists>ls ps. getLiveLinesDataFromMongo (en_store en db) key = Inr ls \<and>
        getPolygonDataFromMongo (en_store en db) key = Inr ps) \<and>
     (\<forall>db db' ls ps ls' rs. getLiveLinesDataFromMongo (en_store en db) key = Inr ls \<longrightarrow>
        getPolygonDataFromMongo (en_store en db') key = Inr ps \<longrightarrow>
        processData (en_rt en) ls ps (production_config (en_rt en)) = Some (Inr (ls', rs)) \<longrightarrow>
        json_response \<lparr>rr_Polygons = rs, rr_LiveLines = ls'\<rparr>) \<and>
     (\<forall>m b. fst (PublishWithContext (en_ops en) m key True b) = None)"

lemma consume_publishes:
  assumes "runtime_ok (en_rt en)" "group_answers en (ll_GroupCode pt)" "en_unmarshal en body (es_data e) = (None, pt)"
    and "es_broker e = (b, evs)"
  obtains e' r b' where "consume (traced_engine en) (sched, body) e = Some e'" "result_for en (ll_GroupCode pt) body (en_encode en r)"
    "json_response r" "es_broker e' = (b', evs @ publish_calls (en_encode en r) (ll_GroupCode pt))" "es_data e' = pt"
    "es_db e' = snd (en_insert en pt (es_db e))" "es_acked e' = es_acked e @ [body]"
proof -
  let ?code = "ll_GroupCode pt" and ?db' = "snd (en_insert en pt (es_db e))"
  let ?dbl = "if sched = InsertFirst then ?db' else es_db e" and ?dbp = "if sched = InsertLast then es_db e else ?db'"
  note answers = assms(2)[unfolded group_answers_def]
  obtain ls where ls: "getLiveLinesDataFromMongo (en_store en ?dbl) ?code = Inr ls"
    using answers[THEN conjunct1] by blast
  obtain ps where ps: "getPolygonDataFromMongo (en_store en ?dbp) ?code = Inr ps"
    using answers[THEN conjunct1] by blast
  obtain ls' rs where proc: "processData (en_rt en) ls ps (production_config (en_rt en)) = Some (Inr (ls', rs))"
    using processData_outcome[OF assms(1), of ls ps "production_config (en_rt en)"] by (elim exE conjE) (rule that)
  let ?r = "\<lparr>rr_Polygons = rs, rr_LiveLines = ls'\<rparr>"
  have json: "json_response ?r" using answers[THEN conjunct2, THEN conjunct1] ls ps proc by blast
  let ?p = "PublishWithContext (traced (en_ops en)) (en_encode en ?r) ?code True (b, evs)"
  have "fst ?p = None" using answers[THEN conjunct2, THEN conjunct2] by (simp add: traced_same_error)
  then obtain n b' where "snd ?p = (b', evs @ take n (publish_calls (en_encode en ?r) ?code))" "n = 3"
    using publish_traced[of "en_ops en" "en_encode en ?r" ?code b evs] by (elim exE conjE) (rule that, auto)
  then have p: "snd ?p = (b', evs @ publish_calls (en_encode en ?r) ?code)" by (simp add: publish_calls_def)
  have "run_processor (en_rt en) (en_encode en) (traced (en_ops en)) ?code (Inr ls) (Inr ps) (b, evs) = Some (None, snd ?p)"
    by (simp add: run_processor_def proc json_Marshal_def json)
  then have "consume (traced_engine en) (sched, body) e =
      Some (e\<lparr>es_data := pt, es_db := ?db', es_broker := snd ?p, es_acked := es_acked e @ [body]\<rparr>)"
    using assms(3,4) ls ps by (simp add: consume_def)
  moreover have "result_for en ?code body (en_encode en ?r)" unfolding result_for_def using assms(3) ls ps proc by blast
  ultimately show thesis using that json p by simp
qed

text \<open>The steps of one message, none of whose publications is lost.\<close>

definition engine_round :: "schedule \<Rightarrow> 'bytes system_label list" where
  "engine_round sched = Consumes # map (\<lambda>step. Works step False) (schedule_steps sched True)"

definition publish_results ::
  "string \<Rightarrow> 'bytes amqp_event list \<Rightarrow> ('bytes, 'db, 'b \<times> 'bytes amqp_event list) engine_run \<Rightarrow> ('bytes, 'db, 'b) system \<Rightarrow>
   ('bytes, 'db, 'b) system" where
  "publish_results key evs e s = \<lparr>sy_Live = sy_Live s @ routed LIVE_LINES_QUEUE_NAME evs, sy_Engine = e,
     sy_Group = (sy_Group s)\<lparr>gq_Queue := gq_Queue (sy_Group s) @ routed key evs,
       gq_Published := gq_Published (sy_Group s) @ routed key evs\<rparr>\<rparr>"

lemma engine_do_extends:
  assumes "runtime_ok (en_rt en)" "engine_do (traced_engine en) step e = Some e'"
  shows "\<exists>new. engine_events e' = engine_events e @ new"
  using assms(2)
proof (rule engine_do_cases)
  fix t t' s'
  assume step: "er_Task e = Some t" "task_do (traced_engine en) step t (er_State e) = Some (t', s')"
    "e' = e\<lparr>er_State := s', er_Task := t'\<rparr>"
  obtain b evs where b: "es_broker (er_State e) = (b, evs)" by (cases "es_broker (er_State e)")
  show ?thesis
  proof (cases "step = Processes")
    case True
    obtain lls ps r b1 where run:
        "run_processor (en_rt en) (en_encode en) (traced (en_ops en)) (ll_GroupCode (es_data (er_State e))) lls ps (b, evs) = Some (r, b1)"
        "s' = (er_State e)\<lparr>es_broker := b1\<rparr>"
      using step(2) b True by (auto split: if_splits Option.bind_splits prod.splits)
    have "\<exists>new. snd b1 = evs @ new"
    proof (cases r)
      case (Some x)
      then have "b1 = (b, evs)" using run_processor_cases[OF assms(1) run(1)] by simp
      then show ?thesis by simp
    next
      case None
      then obtain data key where "b1 = snd (PublishWithContext (traced (en_ops en)) data key True (b, evs))"
        using run_processor_cases[OF assms(1) run(1)] by (elim conjE) blast
      then show ?thesis using publish_traced[of "en_ops en" data key b evs] by (elim exE conjE) simp
    qed
    then show ?thesis using step(3) run(2) b by simp
  next
    case False
    then have "es_broker s' = es_broker (er_State e)"
      using step(2) by (cases step) (auto split: if_splits option.splits sum.splits)
    then show ?thesis using step(3) by simp
  qed
qed

lemma works_run:
  assumes "runtime_ok (en_rt en)" "fold_opt (engine_do (traced_engine en)) steps (sy_Engine s) = Some e"
  shows "\<exists>new. engine_events e = engine_events (sy_Engine s) @ new \<and>
    fold_opt (system_do grow en key) (map (\<lambda>step. Works step False) steps) s = Some (publish_results key new e s)"
  using assms(2)
proof (induction steps arbitrary: s)
  case Nil
  then show ?case by (intro exI[of _ "[]"]) (simp add: publish_results_def)
next
  case (Cons step steps)
  obtain e1 where e1: "engine_do (traced_engine en) step (sy_Engine s) = Some e1"
      "fold_opt (engine_do (traced_engine en)) steps e1 = Some e"
    using Cons.prems by (auto split: Option.bind_splits)
  obtain new where new: "engine_events e1 = engine_events (sy_Engine s) @ new" using engine_do_extends[OF assms(1) e1(1)] by blast
  have one: "system_do grow en key (Works step False) s = Some (publish_results key new e1 s)"
    using e1(1) new by (simp add: publishes_run publish_results_def)
  have "fold_opt (engine_do (traced_engine en)) steps (sy_Engine (publish_results key new e1 s)) = Some e"
    using e1(2) by (simp add: publish_results_def)
  from Cons.IH[OF this] obtain new2 where "engine_events e = engine_events e1 @ new2"
      "fold_opt (system_do grow en key) (map (\<lambda>step. Works step False) steps) (publish_results key new e1 s) =
        Some (publish_results key new2 e (publish_results key new e1 s))"
    by (auto simp: publish_results_def)
  then show ?case using one new
    by (intro exI[of _ "new @ new2"]) (simp add: publish_results_def del: system_do.simps)
qed

lemma round_run:
  assumes "runtime_ok (en_rt en)" "group_answers en (ll_GroupCode pt)" "sy_Live s = body # live"
    and "er_Task (sy_Engine s) = None" "en_unmarshal en body (es_data (sy_State s)) = (None, pt)"
  obtains s' r where "fold_opt (system_do grow en key) (engine_round sched) s = Some s'"
    "result_for en (ll_GroupCode pt) body (en_encode en r)" "json_response r"
    "sy_Live s' = live @ (if ll_GroupCode pt = LIVE_LINES_QUEUE_NAME then [en_encode en r] else [])"
    "sy_Group s' = (let ms = (if ll_GroupCode pt = key then [en_encode en r] else []) in
      (sy_Group s)\<lparr>gq_Queue := gq_Queue (sy_Group s) @ ms, gq_Published := gq_Published (sy_Group s) @ ms\<rparr>)"
    "er_Task (sy_Engine s') = None" "es_data (sy_State s') = pt" "es_db (sy_State s') = snd (en_insert en pt (es_db (sy_State s)))"
    "es_acked (sy_State s') = es_acked (sy_State s) @ [body]"
proof -
  obtain b evs where b: "es_broker (sy_State s) = (b, evs)" by (cases "es_broker (sy_State s)")
  obtain e' r b' where e': "consume (traced_engine en) (sched, body) (sy_State s) = Some e'"
      "result_for en (ll_GroupCode pt) body (en_encode en r)" "json_response r"
      "es_broker e' = (b', evs @ publish_calls (en_encode en r) (ll_GroupCode pt))" "es_data e' = pt"
      "es_db e' = snd (en_insert en pt (es_db (sy_State s)))" "es_acked e' = es_acked (sy_State s) @ [body]"
    by (rule consume_publishes[OF assms(1,2,5) b])
  have second: "(\<exists>ls. getLiveLinesDataFromMongo (en_store (traced_engine en) db) (ll_GroupCode pt) = Inr ls) = True" for db
    using assms(2) unfolding group_answers_def traced_engine_simps by blast
  have "en_unmarshal (traced_engine en) body (es_data (sy_State s)) = (None, pt)" using assms(5) by simp
  from schedule_run[OF this assms(4) e'(1), unfolded second]
  obtain e0 where e0: "engine_take (traced_engine en) body (sy_Engine s) = Some e0"
      "fold_opt (engine_do (traced_engine en)) (schedule_steps sched True) e0 =
        Some \<lparr>er_State = e', er_Task = None, er_Received = er_Received (sy_Engine s) @ [body]\<rparr>"
    by blast
  let ?s0 = "s\<lparr>sy_Live := live, sy_Engine := e0\<rparr>"
  have take: "system_do grow en key Consumes s = Some ?s0" using assms(3) e0(1) by simp
  have "fold_opt (engine_do (traced_engine en)) (schedule_steps sched True) (sy_Engine ?s0) =
      Some \<lparr>er_State = e', er_Task = None, er_Received = er_Received (sy_Engine s) @ [body]\<rparr>"
    using e0(2) by simp
  from works_run[OF assms(1) this, where grow = grow and key = key]
  obtain new where new: "snd (es_broker e') = engine_events e0 @ new"
      "fold_opt (system_do grow en key) (map (\<lambda>step. Works step False) (schedule_steps sched True)) ?s0 =
        Some (publish_results key new \<lparr>er_State = e', er_Task = None, er_Received = er_Received (sy_Engine s) @ [body]\<rparr> ?s0)"
    by (auto simp del: system_do.simps)
  have "engine_events e0 = evs" using task_ok_take(3)[OF e0(1)] b by simp
  then have "new = publish_calls (en_encode en r) (ll_GroupCode pt)" using new(1) e'(4) by simp
  moreover have "fold_opt (system_do grow en key) (engine_round sched) s =
      Some (publish_results key new \<lparr>er_State = e', er_Task = None, er_Received = er_Received (sy_Engine s) @ [body]\<rparr> ?s0)"
    using take new(2) by (simp only: engine_round_def fold_opt.simps bind.simps)
  ultimately show thesis using that[of _ r] e' by (simp add: publish_results_def Let_def)
qed

subsection \<open>Properties\<close>

text \<open>C12: Whatever is written to a client of a group is the JSON of what the engine computed for this very
  group, from points and polygons that the database returned for it, after it had received a point of this
  group (which need not be acknowledged yet); and the client has joined the group. This holds for every
  interleaving of sending sessions, the engine's goroutines, receiving sessions and broadcasts, and whatever
  the broker loses.\<close>

theorem clients_get_only_results:
  assumes "runtime_ok (en_rt en)" "system_reachable grow en key s" "(d, m) \<in> set (gq_Written (sy_Group s))"
  shows "gq_Consumer (sy_Group s) d \<noteq> Off \<and> (\<exists>body\<in>set (er_Received (sy_Engine s)). \<exists>d pt db db' ls ps ls' rs.
     en_unmarshal en body d = (None, pt) \<and> ll_GroupCode pt = key \<and>
     getLiveLinesDataFromMongo (en_store en db) key = Inr ls \<and> getPolygonDataFromMongo (en_store en db') key = Inr ps \<and>
     processData (en_rt en) ls ps (production_config (en_rt en)) = Some (Inr (ls', rs)) \<and>
     m = en_encode en \<lparr>rr_Polygons = rs, rr_LiveLines = ls'\<rparr>)"
proof -
  have R: "results_only grow en key s" by (rule results_only_reachable[OF assms(1,2)])
  then have "queue_reachable grow key (sy_Group s)" by (simp add: results_only_def)
  then have "isolated key (sy_Group s)" by (rule isolated_reachable)
  then have "d \<in> joiners (sy_Group s) \<and> m \<in> set (gq_Published (sy_Group s))" using isolatedD(5)[OF _ assms(3)] by simp
  then show ?thesis using R unfolding results_only_def result_for_def joiners_def by auto
qed

text \<open>If the database and the broker answer, then a point that is sent while the engine is idle can reach
  everyone: there is a schedule after which it is acknowledged, and its result was written exactly once to each
  client of the group by the waiting consumer that the broker gave it to, after all that this consumer was
  given before, however the engine's goroutines interleave.\<close>

lemma point_reaches_everyone:
  assumes "runtime_ok (en_rt en)" "group_answers en key" "system_reachable grow en key s" "sy_Live s = []"
    and "er_Task (sy_Engine s) = None" "gq_Queue (sy_Group s) = []"
    and "gq_Consumer (sy_Group s) c = Waiting" "gq_Buffer (sy_Group s) c = xs"
    and "group_members (gq_Map (sy_Group s)) key = ms" "ms \<noteq> []"
    and "en_unmarshal en body (es_data (sy_State s)) = (None, pt)" "ll_GroupCode pt = key"
  shows "\<exists>labels s' m. fold_opt (system_do grow en key) (Sends body # engine_round sched @ map Serves labels) s = Some s' \<and>
    result_for en key body m \<and> es_acked (sy_State s') = es_acked (sy_State s) @ [body] \<and>
    gq_Written (sy_Group s') = gq_Written (sy_Group s) @ concat (map (\<lambda>x. map (\<lambda>d. (d, x)) ms) (xs @ [m])) \<and>
    gq_Acked (sy_Group s') = gq_Acked (sy_Group s) @ xs @ [m]"
proof -
  let ?s = "s\<lparr>sy_Live := [body]\<rparr>"
  have send: "system_do grow en key (Sends body) s = Some ?s" using assms(4) by simp
  obtain s1 r where s1: "fold_opt (system_do grow en key) (engine_round sched) ?s = Some s1"
      "result_for en key body (en_encode en r)" "es_acked (sy_State s1) = es_acked (sy_State s) @ [body]"
      "sy_Group s1 = (sy_Group s)\<lparr>gq_Queue := gq_Queue (sy_Group s) @ [en_encode en r],
        gq_Published := gq_Published (sy_Group s) @ [en_encode en r]\<rparr>"
    by (rule round_run[of en pt ?s body "[]" grow key sched]) (use assms in \<open>simp_all add: Let_def\<close>)
  have "system_reachable grow en key s1"
    by (rule system_reach_run[OF system_steps[OF assms(3) send] s1(1)])
  then have "queue_reachable grow key (sy_Group s1)"
    using results_only_reachable[OF assms(1)] by (simp add: results_only_def)
  from deliver_to_all[OF this, of c ms "en_encode en r" xs]
  obtain ls q where ls: "\<forall>m. Publishes m \<notin> set ls" "fold_opt (queue_do grow key) ls (sy_Group s1) = Some q"
      "gq_Written q = gq_Written (sy_Group s) @ concat (map (\<lambda>x. map (\<lambda>d. (d, x)) ms) (xs @ [en_encode en r]))"
      "gq_Acked q = gq_Acked (sy_Group s) @ xs @ [en_encode en r]"
    using assms(6-10) s1(4) by auto
  have "fold_opt (system_do grow en key) (Sends body # engine_round sched @ map Serves ls) s = Some (s1\<lparr>sy_Group := q\<rparr>)"
    using send s1(1) serves_run[OF ls(1,2)] by (simp add: fold_opt_append del: system_do.simps)
  then show ?thesis using s1(2,3) ls(3,4) by (intro exI[of _ ls] exI[of _ "s1\<lparr>sy_Group := q\<rparr>"] exI[of _ "en_encode en r"]) simp
qed

text \<open>C16: A point whose group code is the name of the queue of live points never comes to rest. The engine
  publishes the result to the queue it consumes; the result decodes into a point without an error and changes
  nothing, since the names of its fields are unknown there; so the engine stores the same point once more and
  publishes again, and after any number of rounds, whatever the order of the steps in each, there is one more
  message to consume.\<close>

theorem live_lines_group_feeds_back:
  assumes "runtime_ok (en_rt en)" "group_answers en LIVE_LINES_QUEUE_NAME"
    and "\<And>r d. json_response r \<Longrightarrow> en_unmarshal en (en_encode en r) d = (None, d)"
    and "sy_Live s = [body]" "er_Task (sy_Engine s) = None" "en_unmarshal en body (es_data (sy_State s)) = (None, pt)"
    and "ll_GroupCode pt = LIVE_LINES_QUEUE_NAME"
  shows "\<exists>s'. fold_opt (system_do grow en key) (concat (map engine_round scheds)) s = Some s' \<and>
    length (sy_Live s') = 1 \<and> length (es_acked (sy_State s')) = length (es_acked (sy_State s)) + length scheds \<and>
    es_db (sy_State s') = ((\<lambda>db. snd (en_insert en pt db)) ^^ length scheds) (es_db (sy_State s))"
  using assms(4-6)
proof (induction scheds arbitrary: s body)
  case (Cons sched scheds)
  obtain s1 r where s1: "fold_opt (system_do grow en key) (engine_round sched) s = Some s1" "json_response r"
      "sy_Live s1 = [en_encode en r]" "er_Task (sy_Engine s1) = None"
      "es_data (sy_State s1) = pt" "es_db (sy_State s1) = snd (en_insert en pt (es_db (sy_State s)))"
      "es_acked (sy_State s1) = es_acked (sy_State s) @ [body]"
    by (rule round_run[OF assms(1) _ Cons.prems, of grow key sched]) (use assms(2,7) in simp_all)
  have "en_unmarshal en (en_encode en r) (es_data (sy_State s1)) = (None, pt)" using assms(3)[OF s1(2)] s1(5) by simp
  from Cons.IH[OF s1(3,4) this] show ?case
    using s1(1,6,7) funpow_swap1[of "\<lambda>db. snd (en_insert en pt db)" "length scheds" "es_db (sy_State s)"]
    by (auto simp: fold_opt_append simp del: system_do.simps)
qed simp

subsection \<open>An example\<close>

text \<open>
  A database without documents. A point is the code of its group, every result is the text \<open>r\<close>, which
  changes nothing when it is decoded.
\<close>

definition empty_store :: "(nat, nat, nat) group_store" where
  "empty_store = \<lparr>gs_read = \<lparr>mongo_Find = (\<lambda>_ _ _. Inr []), cursor_Decode = Inr, bson_MarshalExtJSON = Inr,
       extJSON_fields = (\<lambda>_. Inr [])\<rparr>,
     decode_LiveLines = (\<lambda>_ _. Inl ''none''), decode_Polygon = (\<lambda>_ _. Inl ''none'')\<rparr>"

definition point_of :: "string \<Rightarrow> live_line" where
  "point_of code = zero_live_line\<lparr>ll_GroupCode := code\<rparr>"

definition echo_engine :: "(string, live_line list, nat, nat, nat, nat) engine" where
  "echo_engine = \<lparr>en_rt = plain_rt, en_encode = (\<lambda>_. ''r''), en_ops = quiet_broker,
     en_unmarshal = (\<lambda>m d. (None, if m = ''r'' then d else point_of m)),
     en_insert = (\<lambda>l db. (None, db @ [l])), en_store = (\<lambda>_. empty_store)\<rparr>"

lemma echo_engine_simps [simp]:
  "en_rt echo_engine = plain_rt" "en_encode echo_engine r = ''r''" "en_ops echo_engine = quiet_broker"
  "en_unmarshal echo_engine m d = (None, if m = ''r'' then d else point_of m)"
  "en_insert echo_engine l db = (None, db @ [l])" "ll_GroupCode (point_of code) = code"
  "getLiveLinesDataFromMongo (en_store echo_engine db) key = Inr []"
  "getPolygonDataFromMongo (en_store echo_engine db) key = Inr []"
  by (simp_all add: echo_engine_def point_of_def empty_store_def getLiveLinesDataFromMongo_def getPolygonDataFromMongo_def getData_def)

lemma no_points: "processData plain_rt [] [] (production_config plain_rt) = Some (Inr ([], []))"
  by code_simp

lemma echo_answers: "group_answers echo_engine key"
  by (simp add: group_answers_def no_points json_response_def PublishWithContext_def DeclareAndBindQueue_def and_err_def quiet_broker_def)

text \<open>The result is written to the client before its message is acknowledged.\<close>

definition example_steps :: "string system_label list" where
  "example_steps = [Serves (Connects 1), Sends ''g'', Consumes, Works ReadsLines False, Works ReadsPolygons False,
     Works Processes False, Serves (Push 1), Serves (Deliver 1), Serves (Work 1 Spawn), Serves (Work 1 (Wrote 1))]"

lemma example_steps_run:
  "\<exists>s. fold_opt (system_do (\<lambda>n. n) echo_engine ''g'') example_steps (system_init [] 0) = Some s \<and>
    gq_Written (sy_Group s) = [(1, ''r'')] \<and> es_acked (sy_State s) = []"
  by (simp add: example_steps_def system_init_def queue_init_def engine_take_def engine_do_def task_reads.simps run_processor_def
      no_points json_Marshal_def json_response_def PublishWithContext_def DeclareAndBindQueue_def and_err_def traced_def logged_def
      quiet_broker_def routed_def map_filter_def LIVE_LINES_QUEUE_NAME_def broker_push_def consumer_receive_def consumer_work_def
      bcast_start_def Let_def group_Add_def group_Get_def map_slice_def slice_append_def slice_elems_def sl_nil_def heap_empty_def
      NewGroupCodeDataClientManagerMap_def)

lemma example_reachable:
  "fold_opt (system_do (\<lambda>n. n) echo_engine ''g'') ls (system_init [] 0) = Some s \<Longrightarrow>
   system_reachable (\<lambda>n. n) echo_engine ''g'' s"
  by (rule system_reach_run[OF system_starts]) (simp_all add: LIVE_LINES_QUEUE_NAME_def)

theorem clients_get_only_results_witness:
  "\<exists>s ls' rs. fold_opt (system_do (\<lambda>n. n) echo_engine ''g'') example_steps (system_init [] 0) = Some s \<and>
    es_acked (sy_State s) = [] \<and> er_Received (sy_Engine s) \<noteq> [] \<and>
    gq_Consumer (sy_Group s) 1 \<noteq> Off \<and> processData plain_rt [] [] (production_config plain_rt) = Some (Inr (ls', rs))"
proof -
  obtain s where s: "fold_opt (system_do (\<lambda>n. n) echo_engine ''g'') example_steps (system_init [] 0) = Some s"
      "gq_Written (sy_Group s) = [(1, ''r'')]" "es_acked (sy_State s) = []" using example_steps_run by blast
  have "runtime_ok (en_rt echo_engine)" by (simp add: runtime_ok_plain_rt)
  from clients_get_only_results[OF this example_reachable[OF s(1)], of 1 "''r''"] s show ?thesis by auto
qed

theorem live_lines_group_feeds_back_witness:
  "\<exists>s s'. sy_Live s = [''live_lines''] \<and>
    fold_opt (system_do (\<lambda>n. n) echo_engine ''g'') (concat (map engine_round [InsertFirst, InsertLast, InsertFirst])) s = Some s' \<and>
    length (sy_Live s') = 1 \<and> es_db (sy_State s') = replicate 3 (point_of ''live_lines'')"
proof -
  let ?s = "(system_init [] 0 :: (string, live_line list, nat) system)\<lparr>sy_Live := [''live_lines'']\<rparr>"
  have "\<exists>s'. fold_opt (system_do (\<lambda>n. n) echo_engine ''g'') (concat (map engine_round [InsertFirst, InsertLast, InsertFirst])) ?s = Some s' \<and>
    length (sy_Live s') = 1 \<and> length (es_acked (sy_State s')) = length (es_acked (sy_State ?s)) + length [InsertFirst, InsertLast, InsertFirst] \<and>
    es_db (sy_State s') = ((\<lambda>db. snd (en_insert echo_engine (point_of ''live_lines'') db)) ^^ length [InsertFirst, InsertLast, InsertFirst]) (es_db (sy_State ?s))"
    by (rule live_lines_group_feeds_back[where body = "''live_lines''"])
      (simp_all add: runtime_ok_plain_rt echo_answers LIVE_LINES_QUEUE_NAME_def system_init_def)
  then obtain s' where "fold_opt (system_do (\<lambda>n. n) echo_engine ''g'') (concat (map engine_round [InsertFirst, InsertLast, InsertFirst])) ?s = Some s'"
      "length (sy_Live s') = 1" "es_db (sy_State s') = replicate 3 (point_of ''live_lines'')"
    by (auto simp: system_init_def numeral_3_eq_3 simp del: system_do.simps)
  then show ?thesis by (intro exI[of _ ?s] exI[of _ s']) simp
qed

end
