(* ===== verification/Routes.thy ===== *)
theory Routes
  imports RunnerGroups
begin

section \<open>The routes: packages api, healthcheck_api, runner_api, runner_ws\<close>

text \<open>
  A handler is registered with its path, method and middlewares, in a group with a path and
  middlewares of its own. Constructing the middlewares reads the environment and can end the
  process, so the constructors return an \<open>outcome\<close>. gin's router is the list of the registrations;
  a request runs through the middlewares of the group, those of the handler and the handler
  (\<open>run_chain\<close>). The two websocket handlers, which keep state of their own (\<open>PersistWs\<close>, \<open>EatWs\<close>),
  are arguments. \<open>AuthRequired\<close> of the groups is not part of the interface and is not called.
\<close>

record 'w handler_interface =
  hi_Pattern :: string
  hi_RequestMethod :: string
  hi_Middlewares :: "'w middleware list"
  hi_Handler :: "'w handler"

record 'w server_group =
  sg_Group :: string
  sg_RouteHandlers :: "'w handler_interface list"
  sg_Middlewares :: "'w middleware list"

record 'w route =
  rt_Method :: string
  rt_Group :: string
  rt_Pattern :: string
  rt_Middlewares :: "'w middleware list"
  rt_Handler :: "'w handler"

subsection \<open>Health checks\<close>

definition HealthCheck :: "'w handler" where
  "HealthCheck c = io_return (ctx_JSON StatusOK (Message ''ok'') c)"

text \<open>After an error the handler goes on with what was decoded.\<close>

definition AuthHealthCheck :: "'w auth_ops \<Rightarrow> 'w handler" where
  "AuthHealthCheck ops c =
     (let (err, userData) = dec_UserData ops (GetHeader ''userData'' c);
          c = (case err of None \<Rightarrow> c | Some e \<Rightarrow> AbortWithError StatusInternalServerError e c)
      in io_return (ctx_JSON StatusOK (UserBody userData) c))"

definition NewHealthCheckHandler :: "'w handler_interface" where
  "NewHealthCheckHandler =
     \<lparr>hi_Pattern = ''/healthcheck'', hi_RequestMethod = ''GET'', hi_Middlewares = [], hi_Handler = HealthCheck\<rparr>"

definition NewAuthHealthCheckHandler :: "'w auth_ops \<Rightarrow> env \<Rightarrow> 'w handler_interface outcome" where
  "NewAuthHealthCheckHandler ops e =
     and_then (AuthMiddleware ops e) (\<lambda>auth.
     and_then (UserInfoMiddleware ops e) (\<lambda>userInfo.
       Done \<lparr>hi_Pattern = ''/authHealthcheck'', hi_RequestMethod = ''GET'',
         hi_Middlewares = [auth, userInfo, ValidatePermissions ops [''read:all'']],
         hi_Handler = AuthHealthCheck ops\<rparr>))"

definition NewHealthCheckGroup :: "'w auth_ops \<Rightarrow> env \<Rightarrow> 'w server_group outcome" where
  "NewHealthCheckGroup ops e =
     and_then (NewAuthHealthCheckHandler ops e) (\<lambda>authHandler.
       Done \<lparr>sg_Group = ''/healthcheck'', sg_RouteHandlers = [NewHealthCheckHandler, authHandler], sg_Middlewares = []\<rparr>)"

subsection \<open>Running groups\<close>

definition create_RequestMethod :: string where
  "create_RequestMethod = ''POST''"

definition create_Middlewares :: "'w middleware list" where
  "create_Middlewares = []"

definition join_RequestMethod :: string where
  "join_RequestMethod = ''GET''"

definition join_Middlewares :: "'w middleware list" where
  "join_Middlewares = []"

definition NewCreateRunnerGroupHandler :: "'w auth_ops \<Rightarrow> 'w group_ops \<Rightarrow> 'w handler_interface" where
  "NewCreateRunnerGroupHandler ops db =
     \<lparr>hi_Pattern = ''/createRunnerGroup'', hi_RequestMethod = create_RequestMethod, hi_Middlewares = create_Middlewares,
      hi_Handler = CreateRunnerGroup db (dec_UserData ops)\<rparr>"

definition NewJoinRunnerGroupHandler :: "'w auth_ops \<Rightarrow> 'w group_ops \<Rightarrow> 'w handler_interface" where
  "NewJoinRunnerGroupHandler ops db =
     \<lparr>hi_Pattern = ''/joinRunnerGroup/:groupCode'', hi_RequestMethod = join_RequestMethod, hi_Middlewares = join_Middlewares,
      hi_Handler = JoinRunnerGroup db (dec_UserData ops)\<rparr>"

text \<open>The constructor of the area handler builds a handler that creates groups.\<close>

definition NewAreaCalculatorGroupHandler :: "'w auth_ops \<Rightarrow> 'w group_ops \<Rightarrow> 'w handler_interface" where
  "NewAreaCalculatorGroupHandler ops db =
     \<lparr>hi_Pattern = ''/createRunnerGroup'', hi_RequestMethod = create_RequestMethod, hi_Middlewares = create_Middlewares,
      hi_Handler = CreateRunnerGroup db (dec_UserData ops)\<rparr>"

text \<open>
  The area handler's own methods. It has \<open>Method\<close> where the interface wants \<open>RequestMethod\<close>, which it
  inherits from a nil interface, so it cannot be registered.
\<close>

record 'w area_handler =
  ah_Pattern :: string
  ah_Method :: string
  ah_Middlewares :: "'w middleware list"
  ah_Handler :: "'w handler"

definition AreaCalculatorGroupHandler ::
  "go_rt \<Rightarrow> ('w \<Rightarrow> ('doc, 'bson, 'text) group_store) \<Rightarrow> 'w area_handler" where
  "AreaCalculatorGroupHandler rt store =
     \<lparr>ah_Pattern = ''/area/:groupCode'', ah_Method = ''GET'', ah_Middlewares = [], ah_Handler = AreaCalculatorGroup rt store\<rparr>"

definition NewRunnerGroup :: "'w auth_ops \<Rightarrow> 'w group_ops \<Rightarrow> env \<Rightarrow> 'w server_group outcome" where
  "NewRunnerGroup ops db e =
     and_then (UserInfoMiddleware ops e) (\<lambda>userInfo.
       Done \<lparr>sg_Group = ''/runner'',
         sg_RouteHandlers = [NewCreateRunnerGroupHandler ops db, NewJoinRunnerGroupHandler ops db],
         sg_Middlewares = [userInfo]\<rparr>)"

subsection \<open>Websockets\<close>

definition put_RequestMethod :: string where
  "put_RequestMethod = ''GET''"

definition put_Middlewares :: "'w middleware list" where
  "put_Middlewares = []"

definition eat_RequestMethod :: string where
  "eat_RequestMethod = ''GET''"

definition eat_Middlewares :: "'w middleware list" where
  "eat_Middlewares = []"

definition NewPutOnQueueGroupHandler :: "'w handler \<Rightarrow> 'w handler_interface" where
  "NewPutOnQueueGroupHandler handler =
     \<lparr>hi_Pattern = ''/putOnQueueGroup/'', hi_RequestMethod = put_RequestMethod, hi_Middlewares = put_Middlewares,
      hi_Handler = handler\<rparr>"

definition NewEatProcessorQueueHandler :: "'w handler \<Rightarrow> 'w handler_interface" where
  "NewEatProcessorQueueHandler handler =
     \<lparr>hi_Pattern = ''/eatProcessorQueue/:groupCode'', hi_RequestMethod = eat_RequestMethod, hi_Middlewares = eat_Middlewares,
      hi_Handler = handler\<rparr>"

definition NewRunnerWsGroup :: "'w auth_ops \<Rightarrow> 'w handler \<Rightarrow> 'w handler \<Rightarrow> env \<Rightarrow> 'w server_group outcome" where
  "NewRunnerWsGroup ops put eat e =
     and_then (UserInfoMiddleware ops e) (\<lambda>userInfo.
       Done \<lparr>sg_Group = ''/ws'',
         sg_RouteHandlers = [NewPutOnQueueGroupHandler put, NewEatProcessorQueueHandler eat],
         sg_Middlewares = [userInfo]\<rparr>)"

subsection \<open>Registration\<close>

text \<open>Only two methods are registered; any other is dropped silently.\<close>

definition newRoute :: "'w server_group \<Rightarrow> 'w handler_interface \<Rightarrow> 'w route list \<Rightarrow> 'w route list" where
  "newRoute groupHandler routeHandler router =
     (let route = \<lparr>rt_Method = hi_RequestMethod routeHandler, rt_Group = sg_Group groupHandler,
            rt_Pattern = hi_Pattern routeHandler,
            rt_Middlewares = sg_Middlewares groupHandler @ hi_Middlewares routeHandler,
            rt_Handler = hi_Handler routeHandler\<rparr>
      in if hi_RequestMethod routeHandler = ''GET'' then router @ [route]
         else if hi_RequestMethod routeHandler = ''POST'' then router @ [route]
         else router)"

definition newGroup :: "'w server_group \<Rightarrow> 'w route list \<Rightarrow> 'w route list" where
  "newGroup groupHandler router = fold (newRoute groupHandler) (sg_RouteHandlers groupHandler) router"

definition NewRoutes ::
  "'w auth_ops \<Rightarrow> 'w group_ops \<Rightarrow> 'w handler \<Rightarrow> 'w handler \<Rightarrow> env \<Rightarrow> 'w route list outcome" where
  "NewRoutes ops db put eat e =
     and_then (NewHealthCheckGroup ops e) (\<lambda>health.
     and_then (NewRunnerGroup ops db e) (\<lambda>runner.
     and_then (NewRunnerWsGroup ops put eat e) (\<lambda>ws.
       Done (fold newGroup [health, runner, ws] []))))"

text \<open>The middlewares and the handler of a request, each called by \<open>Next\<close> of the one before.\<close>

definition run_chain :: "'w route \<Rightarrow> 'w handler" where
  "run_chain r = foldr (\<lambda>middleware next. middleware next) (rt_Middlewares r) (rt_Handler r)"

subsection \<open>The table\<close>

definition env_conf :: "env \<Rightarrow> mgmt_config" where
  "env_conf e = \<lparr>mgmtAudience = env_Getenv e MGMT_AUTH0_AUDIENCE, mgmtClientId = env_Getenv e MGMT_AUTH0_CLIENT_ID,
     mgmtClientSecret = env_Getenv e MGMT_AUTH0_CLIENT_SECRET, mgmtAuthority = env_Getenv e AUTH0_AUTHORITY\<rparr>"

lemma auth_keys [simp]:
  "AUTH0_AUDIENCE \<noteq> ENV" "AUTH0_AUDIENCE \<noteq> SERVER_PORT" "AUTH0_AUTHORITY \<noteq> ENV" "AUTH0_AUTHORITY \<noteq> SERVER_PORT"
  "MGMT_AUTH0_AUDIENCE \<noteq> ENV" "MGMT_AUTH0_AUDIENCE \<noteq> SERVER_PORT"
  "MGMT_AUTH0_CLIENT_ID \<noteq> ENV" "MGMT_AUTH0_CLIENT_ID \<noteq> SERVER_PORT"
  "MGMT_AUTH0_CLIENT_SECRET \<noteq> ENV" "MGMT_AUTH0_CLIENT_SECRET \<noteq> SERVER_PORT"
  by (simp_all add: env_keys)

lemma UserInfoMiddleware_eq:
  "env_Load e = None \<Longrightarrow> UserInfoMiddleware ops e = Done (user_info_handler ops (env_conf e))"
  by (simp add: UserInfoMiddleware_def GetDotEnvVariable_plain env_conf_def)

lemma AuthMiddleware_eq:
  "env_Load e = None \<Longrightarrow> net_Parse ops (env_Getenv e AUTH0_AUTHORITY) = Inr issuer \<Longrightarrow>
   validator_New ops issuer (env_Getenv e AUTH0_AUTHORITY) [env_Getenv e AUTH0_AUDIENCE] = Inr jwt \<Longrightarrow>
   AuthMiddleware ops e = Done jwt"
  by (simp add: AuthMiddleware_def GetDotEnvVariable_plain)

text \<open>What a route shows to its callers: method, paths, and the chain it runs.\<close>

definition route_view :: "'w route \<Rightarrow> string \<times> string \<times> 'w handler" where
  "route_view r = (rt_Method r, rt_Group r @ rt_Pattern r, run_chain r)"

lemmas route_defs = NewHealthCheckGroup_def NewAuthHealthCheckHandler_def NewHealthCheckHandler_def NewRunnerGroup_def
  NewCreateRunnerGroupHandler_def NewJoinRunnerGroupHandler_def NewRunnerWsGroup_def NewPutOnQueueGroupHandler_def
  NewEatProcessorQueueHandler_def newGroup_def newRoute_def NewRoutes_def create_RequestMethod_def create_Middlewares_def
  join_RequestMethod_def join_Middlewares_def put_RequestMethod_def put_Middlewares_def eat_RequestMethod_def eat_Middlewares_def

lemma NewRoutes_view:
  assumes "env_Load e = None" "net_Parse ops (env_Getenv e AUTH0_AUTHORITY) = Inr issuer"
    and "validator_New ops issuer (env_Getenv e AUTH0_AUTHORITY) [env_Getenv e AUTH0_AUDIENCE] = Inr jwt"
  shows "\<exists>rs. NewRoutes ops db put eat e = Done rs \<and> map route_view rs =
    [(''GET'', ''/healthcheck/healthcheck'', HealthCheck),
     (''GET'', ''/healthcheck/authHealthcheck'',
        jwt (user_info_handler ops (env_conf e) (ValidatePermissions ops [''read:all''] (AuthHealthCheck ops)))),
     (''POST'', ''/runner/createRunnerGroup'', user_info_handler ops (env_conf e) (CreateRunnerGroup db (dec_UserData ops))),
     (''GET'', ''/runner/joinRunnerGroup/:groupCode'',
        user_info_handler ops (env_conf e) (JoinRunnerGroup db (dec_UserData ops))),
     (''GET'', ''/ws/putOnQueueGroup/'', user_info_handler ops (env_conf e) put),
     (''GET'', ''/ws/eatProcessorQueue/:groupCode'', user_info_handler ops (env_conf e) eat)]"
  by (simp add: route_defs AuthMiddleware_eq[OF assms] UserInfoMiddleware_eq[OF assms(1)] route_view_def run_chain_def)

subsection \<open>Properties\<close>

text \<open>C37: The server has exactly six routes, with these chains of middlewares; the token is validated on
  one of them only, and none of them computes areas.\<close>

theorem NewRoutes_correct:
  assumes "env_Load e = None" "net_Parse ops (env_Getenv e AUTH0_AUTHORITY) = Inr issuer"
    and "validator_New ops issuer (env_Getenv e AUTH0_AUTHORITY) [env_Getenv e AUTH0_AUDIENCE] = Inr jwt"
  shows "\<exists>rs. NewRoutes ops db put eat e = Done rs \<and>
    map (\<lambda>r. (rt_Method r, rt_Group r @ rt_Pattern r, run_chain r)) rs =
    [(''GET'', ''/healthcheck/healthcheck'', HealthCheck),
     (''GET'', ''/healthcheck/authHealthcheck'',
        jwt (user_info_handler ops (env_conf e) (ValidatePermissions ops [''read:all''] (AuthHealthCheck ops)))),
     (''POST'', ''/runner/createRunnerGroup'', user_info_handler ops (env_conf e) (CreateRunnerGroup db (dec_UserData ops))),
     (''GET'', ''/runner/joinRunnerGroup/:groupCode'',
        user_info_handler ops (env_conf e) (JoinRunnerGroup db (dec_UserData ops))),
     (''GET'', ''/ws/putOnQueueGroup/'', user_info_handler ops (env_conf e) put),
     (''GET'', ''/ws/eatProcessorQueue/:groupCode'', user_info_handler ops (env_conf e) eat)]"
  using NewRoutes_view[OF assms] unfolding route_view_def .

definition checking_jwt :: "string option middleware" where
  "checking_jwt next c =
     (if GetHeader ''authorization'' c = ''Bearer good'' then next c else io_return (AbortWithError 401 ''JWT is invalid'' c))"

definition checking_net :: "string option auth_ops" where
  "checking_net = example_net\<lparr>validator_New := (\<lambda>_ _ _. Inr checking_jwt)\<rparr>"

theorem NewRoutes_correct_witness:
  "\<exists>rs. NewRoutes checking_net log_db HealthCheck HealthCheck \<lparr>env_Load = None, env_Getenv = (\<lambda>k. k)\<rparr> = Done rs \<and>
    length rs = 6"
  using NewRoutes_correct[of "\<lparr>env_Load = None, env_Getenv = (\<lambda>k. k)\<rparr>" checking_net AUTH0_AUTHORITY checking_jwt
      log_db HealthCheck HealthCheck]
  by (auto simp: checking_net_def example_net_def map_eq_Cons_conv)

end
