(* ===== verification/Server.thy ===== *)
theory Server
  imports Clients Config Engine Routes
begin

section \<open>The two programs: middlewares/log, packages fx_utils and main\<close>

text \<open>
  \<open>newServerEngine\<close> builds the gin engine: gin's mode, the middlewares of every request and the
  routes. A request runs through these middlewares and then the chain of its route (\<open>serve\<close>).
  The dependency injection container calls each constructor once, when its result is needed, so
  both programs start with the same constructions (\<open>build_app\<close>), of which one that panics or exits
  ends the program. The start of the engine's consumer is \<open>invoke_engine\<close>, that of the server
  \<open>invoke_service\<close>.

  gin, its cors package, zap, the clock and the network are the record \<open>server_lib\<close>.
  \<open>request_log_correct\<close> says what becomes of a request under the documented behaviour of gin's
  middlewares, \<open>app_starts_iff\<close> when the programs start.
\<close>

subsection \<open>The libraries\<close>

datatype log_value = LogString string | LogInt nat | LogDuration int

type_synonym log_fields = "(string \<times> log_value) list"

record 'w server_lib =
  gin_SetMode :: "string \<Rightarrow> unit outcome"
  gin_Logger :: "'w middleware"
  gin_Recovery :: "'w middleware"
  gin_ClientIP :: "gin_ctx \<Rightarrow> string"
  gin_Status :: "reply list \<Rightarrow> nat"
  gin_ErrorsString :: "string list \<Rightarrow> string"
  cors_DefaultConfig :: cors_config
  cors_New :: "cors_config \<Rightarrow> 'w middleware outcome"
  time_Now :: "'w \<Rightarrow> gotime \<times> 'w"
  zap_Info :: "string \<Rightarrow> log_fields \<Rightarrow> 'w \<Rightarrow> 'w"
  zap_Error :: "string \<Rightarrow> 'w \<Rightarrow> 'w"
  zap_Sync :: "'w \<Rightarrow> string option \<times> 'w"

subsection \<open>middlewares/log/log.go\<close>

text \<open>The private errors of a context are those that \<open>AbortWithError\<close> recorded.\<close>

fun abort_errors :: "reply list \<Rightarrow> string list" where
  "abort_errors [] = []"
| "abort_errors (Aborted code err # rs) = err # abort_errors rs"
| "abort_errors (Json code body # rs) = abort_errors rs"

text \<open>
  The part behind \<open>c.Next()\<close>: \<open>start\<close>, \<open>path\<close> and \<open>raw\<close> were read before it, the rest is read from the
  context as the handlers left it.
\<close>

definition log_request :: "'w server_lib \<Rightarrow> gotime \<Rightarrow> string \<Rightarrow> string \<Rightarrow> gin_ctx \<Rightarrow> 'w \<Rightarrow> 'w" where
  "log_request lib start path raw c w =
     (let (timeStamp, w) = time_Now lib w;
          latency = time_Sub timeStamp start;
          clientIP = gin_ClientIP lib c;
          method = ctx_Method c;
          statusCode = gin_Status lib (ctx_replies c);
          errorMessage = gin_ErrorsString lib (abort_errors (ctx_replies c));
          path = (if raw \<noteq> [] then path @ ''?'' @ raw else path)
      in zap_Info lib ''Request Details''
           [(''client_id'', LogString clientIP), (''method'', LogString method),
            (''status_code'', LogInt statusCode), (''path'', LogString path),
            (''latency'', LogDuration latency), (''error_message'', LogString errorMessage),
            (''user_agent'', LogString (GetHeader ''User-Agent'' c))] w)"

definition StructuredLogger :: "'w server_lib \<Rightarrow> 'w middleware" where
  "StructuredLogger lib next c w =
     (let (start, w) = time_Now lib w; path = ctx_Path c; raw = ctx_RawQuery c
      in io_bind (next c) (\<lambda>c w. (Done c, log_request lib start path raw c w)) w)"

definition DefaultStructuredLogger :: "'w server_lib \<Rightarrow> 'w middleware" where
  "DefaultStructuredLogger lib = StructuredLogger lib"

subsection \<open>fx/server_module.go\<close>

text \<open>The engine of gin: its middlewares in the order of \<open>Use\<close>, and the routes.\<close>

record 'w gin_engine =
  eng_Use :: "'w middleware list"
  eng_Routes :: "'w route list"

record 'w fx_hook =
  OnStart :: "'w \<Rightarrow> string option \<times> 'w"
  OnStop :: "'w \<Rightarrow> string option \<times> 'w"

definition server_hook :: "'w server_lib \<Rightarrow> server_config \<Rightarrow> 'w fx_hook" where
  "server_hook lib config =
     \<lparr>OnStart = (\<lambda>w. (None, zap_Info lib ''Starting server on port'' [(''port'', LogString (srv_Port config))] w)),
      OnStop = (\<lambda>w.
        let w = zap_Info lib ''Stopping server'' [] w;
            (err, w) = zap_Sync lib w
        in (None, case err of None \<Rightarrow> w | Some e \<Rightarrow> zap_Error lib e w))\<rparr>"

definition server_cors :: "'w server_lib \<Rightarrow> cors_config" where
  "server_cors lib = (cors_DefaultConfig lib)\<lparr>
     AllowAllOrigins := True,
     AllowMethods := [''POST'', ''GET'', ''PUT'', ''OPTIONS''],
     AllowHeaders := [''Origin'', ''Content-Type'', ''Authorization'', ''Accept'', ''User-Agent'',
       ''Cache-Control'', ''Pragma''],
     ExposeHeaders := [''Content-Length''],
     AllowCredentials := True,
     MaxAge := 12 * 3600 * 1000000000\<rparr>"

text \<open>\<open>gin.Default()\<close> is an engine with gin's logger and recovery.\<close>

definition newServerEngine ::
  "'w server_lib \<Rightarrow> 'w auth_ops \<Rightarrow> 'w group_ops \<Rightarrow> 'w handler \<Rightarrow> 'w handler \<Rightarrow> env \<Rightarrow> server_config \<Rightarrow>
   ('w gin_engine \<times> 'w fx_hook) outcome" where
  "newServerEngine lib ops db put eat e config =
     and_then (gin_SetMode lib (srv_GinMode config)) (\<lambda>_.
       let use = [gin_Logger lib, gin_Recovery lib] in
     and_then (cors_New lib (server_cors lib)) (\<lambda>cors.
       let use = use @ [cors];
           use = use @ [DefaultStructuredLogger lib];
           use = use @ [gin_Recovery lib] in
     and_then (NewRoutes ops db put eat e) (\<lambda>routes.
       Done (\<lparr>eng_Use = use, eng_Routes = routes\<rparr>, server_hook lib config))))"

text \<open>A request for a route.\<close>

definition serve :: "'w gin_engine \<Rightarrow> 'w route \<Rightarrow> 'w handler" where
  "serve server r = foldr (\<lambda>middleware next. middleware next) (eng_Use server) (run_chain r)"

subsection \<open>fx modules and the programs\<close>

record app_config =
  app_Server :: server_config
  app_Redis :: redis_config
  app_Mongo :: mongo_config
  app_Amqp :: amqp_config
  app_Ws :: upgrader

text \<open>What start-up needs of the outside: whether zap, Redis and MongoDB answer.\<close>

record start_ops =
  so_zapBuild :: "logger \<Rightarrow> string option"
  so_redisPing :: "redis_options \<Rightarrow> string option"
  so_mongoConnect :: "string \<Rightarrow> string option"
  so_mongoPing :: "string \<Rightarrow> string option"

definition ConfigModule ::
  "('b, 'bytes) amqp_ops \<Rightarrow> cors_config \<Rightarrow> env \<Rightarrow> 'b \<Rightarrow> app_config outcome \<times> 'b" where
  "ConfigModule amqp corsDefault e b =
     (let (amqpConfig, b) = DefaultAmqpConfig amqp e b in
      (and_then (server_Default corsDefault e) (\<lambda>server.
       and_then (DefaultRedisConfigForAuth e) (\<lambda>redis.
       and_then (mongo_DefaultConfig e) (\<lambda>mongo.
       and_then amqpConfig (\<lambda>amqpConfig.
         Done \<lparr>app_Server = server, app_Redis = redis, app_Mongo = mongo, app_Amqp = amqpConfig,
           app_Ws = DefaultWsConfig\<rparr>)))), b))"

definition DBModule :: "start_ops \<Rightarrow> app_config \<Rightarrow> (redis_options \<times> string) outcome" where
  "DBModule so config =
     and_then (NewRedisClient (so_redisPing so) (app_Redis config)) (\<lambda>redis.
     and_then (mongo_Connect (so_mongoConnect so) (so_mongoPing so) (app_Mongo config)) (\<lambda>mongo.
       Done (redis, mongo)))"

definition DTOModule :: "ptr gomap \<times> group_map" where
  "DTOModule = (NewPersistAuditDataManagerMap, NewGroupCodeDataClientManagerMap)"

text \<open>What the container has built when the function given to \<open>fx.Invoke\<close> runs.\<close>

record 'w app =
  app_Log :: logger
  app_Config :: app_config
  app_Redis_client :: redis_options
  app_Mongo_client :: string
  app_Persist :: "ptr gomap"
  app_Group :: group_map
  app_Engine :: "'w gin_engine"
  app_Hook :: "'w fx_hook"

definition build_app ::
  "'w server_lib \<Rightarrow> start_ops \<Rightarrow> ('b, 'bytes) amqp_ops \<Rightarrow> 'w auth_ops \<Rightarrow> 'w group_ops \<Rightarrow> 'w handler \<Rightarrow> 'w handler \<Rightarrow>
   env \<Rightarrow> 'b \<Rightarrow> 'w app outcome \<times> 'b" where
  "build_app lib so amqp ops db put eat e b =
     (let (config, b) = ConfigModule amqp (cors_DefaultConfig lib) e b;
          (persist, group_clients) = DTOModule in
      (and_then (NewProduction (so_zapBuild so) e) (\<lambda>log.
       and_then config (\<lambda>config.
       and_then (DBModule so config) (\<lambda>(redis, mongo).
       and_then (newServerEngine lib ops db put eat e (app_Server config)) (\<lambda>(server, hook).
         Done \<lparr>app_Log = log, app_Config = config, app_Redis_client = redis, app_Mongo_client = mongo,
           app_Persist = persist, app_Group = group_clients, app_Engine = server, app_Hook = hook\<rparr>)))), b))"

text \<open>The goroutine that each program starts; \<open>run\<close> is \<open>gin.Engine.Run\<close>, which returns on an error.\<close>

definition invoke_service ::
  "'w server_lib \<Rightarrow> ('w gin_engine \<Rightarrow> string \<Rightarrow> 'w \<Rightarrow> string option \<times> 'w) \<Rightarrow> 'w app \<Rightarrow> 'w \<Rightarrow> 'w" where
  "invoke_service lib run app w =
     (let (err, w) = run (app_Engine app) (srv_Port (app_Server (app_Config app))) w
      in case err of None \<Rightarrow> w | Some err \<Rightarrow> zap_Error lib err w)"

definition invoke_engine ::
  "'w server_lib \<Rightarrow> ('bytes, 'db, 'b, 'doc, 'bson, 'text) engine \<Rightarrow> string + (schedule \<times> 'bytes) list \<Rightarrow> 'db \<Rightarrow>
   'b \<Rightarrow> 'w \<Rightarrow> ('bytes, 'db, 'b) engine_state outcome \<times> 'w" where
  "invoke_engine lib en delivered db b w =
     (PersistAuditData en delivered db b, zap_Info lib ''Starting Audit Consumer'' [] w)"

definition service_main ::
  "'w server_lib \<Rightarrow> ('w gin_engine \<Rightarrow> string \<Rightarrow> 'w \<Rightarrow> string option \<times> 'w) \<Rightarrow> start_ops \<Rightarrow> ('b, 'bytes) amqp_ops \<Rightarrow>
   'w auth_ops \<Rightarrow> 'w group_ops \<Rightarrow> 'w handler \<Rightarrow> 'w handler \<Rightarrow> env \<Rightarrow> 'b \<Rightarrow> 'w \<Rightarrow> 'w outcome" where
  "service_main lib run so amqp ops db put eat e b w =
     and_then (fst (build_app lib so amqp ops db put eat e b)) (\<lambda>app. Done (invoke_service lib run app w))"

definition engine_main ::
  "'w server_lib \<Rightarrow> start_ops \<Rightarrow> ('b, 'bytes) amqp_ops \<Rightarrow> 'w auth_ops \<Rightarrow> 'w group_ops \<Rightarrow> 'w handler \<Rightarrow> 'w handler \<Rightarrow>
   env \<Rightarrow> ('bytes, 'db, 'b, 'doc, 'bson, 'text) engine \<Rightarrow> string + (schedule \<times> 'bytes) list \<Rightarrow> 'db \<Rightarrow> 'b \<Rightarrow> 'w \<Rightarrow>
   ('bytes, 'db, 'b) engine_state outcome" where
  "engine_main lib so amqp ops db put eat e en delivered database b w =
     (case build_app lib so amqp ops db put eat e b of (app, b) \<Rightarrow>
        and_then app (\<lambda>app. fst (invoke_engine lib en delivered database b w)))"

subsection \<open>Facts\<close>

text \<open>
  The documented behaviour of gin's middlewares: the recovery turns a panic behind it into a reply and
  changes nothing else; the logger only writes to the standard output. The cors middleware lets a
  request from the same origin pass.
\<close>

definition recovers :: "'w middleware \<Rightarrow> bool" where
  "recovers m \<longleftrightarrow> (\<forall>next c w. case next c w of
     (Panic msg, w') \<Rightarrow> \<exists>c'. m next c w = (Done c', w')
   | r \<Rightarrow> m next c w = r)"

definition transparent :: "'w middleware \<Rightarrow> bool" where
  "transparent m \<longleftrightarrow> (\<forall>next c w. m next c w = next c w)"

definition cors_passes :: "'w server_lib \<Rightarrow> gin_ctx \<Rightarrow> 'w \<Rightarrow> bool" where
  "cors_passes lib c w \<longleftrightarrow> (\<forall>cors next. cors_New lib (server_cors lib) = Done cors \<longrightarrow> cors next c w = next c w)"

lemma recovers_cases:
  assumes "recovers m"
  shows "next c w = (Panic msg, w') \<Longrightarrow> \<exists>c'. m next c w = (Done c', w')"
    and "next c w = (Done c', w') \<Longrightarrow> m next c w = (Done c', w')"
    and "next c w = (Exit, w') \<Longrightarrow> m next c w = (Exit, w')"
    and "next c w = (Diverges, w') \<Longrightarrow> m next c w = (Diverges, w')"
  using assms unfolding recovers_def by (auto dest!: spec[of _ "next"] spec[of _ c] spec[of _ w])

lemma newServerEngine_Use:
  "newServerEngine lib ops db put eat e config = Done (server, hook) \<Longrightarrow>
   \<exists>cors. cors_New lib (server_cors lib) = Done cors \<and>
     eng_Use server = [gin_Logger lib, gin_Recovery lib, cors, StructuredLogger lib, gin_Recovery lib]"
  by (auto simp: newServerEngine_def and_then_Done_iff DefaultStructuredLogger_def Let_def)

lemma NewRoutes_Done_iff:
  "(\<exists>rs. NewRoutes ops db put eat e = Done rs) \<longleftrightarrow> env_Load e = None \<and>
     (\<exists>issuer jwt. net_Parse ops (env_Getenv e AUTH0_AUTHORITY) = Inr issuer \<and>
       validator_New ops issuer (env_Getenv e AUTH0_AUTHORITY) [env_Getenv e AUTH0_AUDIENCE] = Inr jwt)"
proof (cases "env_Load e")
  case None
  then have "(\<exists>rs. NewRoutes ops db put eat e = Done rs) \<longleftrightarrow> (\<exists>auth. AuthMiddleware ops e = Done auth)"
    by (auto simp: route_defs and_then_Done_iff UserInfoMiddleware_eq)
  then show ?thesis using None
    by (auto simp: AuthMiddleware_def GetDotEnvVariable_plain split: sum.splits)
next
  case (Some err)
  then show ?thesis
    by (auto simp: route_defs and_then_Done_iff AuthMiddleware_def GetDotEnvVariable_def)
qed

lemma start_keys [simp]:
  "RABBITMQ_HOST \<noteq> ENV" "RABBITMQ_HOST \<noteq> SERVER_PORT" "REDIS_HOST \<noteq> ENV" "REDIS_HOST \<noteq> SERVER_PORT"
  "REDIS_PORT \<noteq> ENV" "REDIS_PORT \<noteq> SERVER_PORT" "REDIS_PASSWORD \<noteq> ENV" "REDIS_PASSWORD \<noteq> SERVER_PORT"
  "MONGO_HOST \<noteq> ENV" "MONGO_HOST \<noteq> SERVER_PORT" "MONGO_INITDB_ROOT_USERNAME \<noteq> ENV"
  "MONGO_INITDB_ROOT_USERNAME \<noteq> SERVER_PORT" "MONGO_INITDB_ROOT_PASSWORD \<noteq> ENV"
  "MONGO_INITDB_ROOT_PASSWORD \<noteq> SERVER_PORT" "ME_CONFIG_MONGODB_PORT \<noteq> ENV" "ME_CONFIG_MONGODB_PORT \<noteq> SERVER_PORT"
  by (simp_all add: env_keys)

text \<open>The configuration that the environment describes.\<close>

definition env_server :: "cors_config \<Rightarrow> env \<Rightarrow> server_config" where
  "env_server corsDefault e =
     (let port = env_Getenv e (if env_Getenv e SERVER = SERVICE then SERVER_SERVICE_PORT else SERVER_ENGINE_PORT)
      in \<lparr>srv_Port = port, srv_GinMode = env_Getenv e ENV,
        srv_Cors = corsDefault\<lparr>AllowOrigins := [env_Getenv e SERVER_HOST @ port]\<rparr>\<rparr>)"

definition env_redis :: "env \<Rightarrow> redis_config" where
  "env_redis e = \<lparr>rc_Host = env_Getenv e REDIS_HOST, rc_Port = env_Getenv e REDIS_PORT,
     rc_Password = env_Getenv e REDIS_PASSWORD, rc_DB = 0\<rparr>"

definition env_mongo :: "env \<Rightarrow> mongo_config" where
  "env_mongo e = \<lparr>mc_UserName = env_Getenv e MONGO_INITDB_ROOT_USERNAME,
     mc_Password = env_Getenv e MONGO_INITDB_ROOT_PASSWORD, mc_Host = env_Getenv e MONGO_HOST,
     mc_Port = env_Getenv e ME_CONFIG_MONGODB_PORT\<rparr>"

definition env_ok :: "env \<Rightarrow> bool" where
  "env_ok e \<longleftrightarrow> env_Load e = None \<and> env_Getenv e SERVER \<in> {SERVICE, ENGINE} \<and>
     env_Getenv e ENV \<in> {''debug'', ''release'', ''test''}"

lemma server_Default_ok: "env_ok e \<Longrightarrow> server_Default cors e = Done (env_server cors e)"
  by (auto simp: env_ok_def server_Default_correct env_server_def Let_def)

lemma server_Default_not_ok: "\<not> env_ok e \<Longrightarrow> server_Default cors e \<noteq> Done config"
  by (auto simp: env_ok_def server_Default_correct Let_def split: option.splits)

lemma redis_mongo_ok:
  assumes "env_ok e"
  shows "DefaultRedisConfigForAuth e = Done (env_redis e)" "mongo_DefaultConfig e = Done (env_mongo e)"
  using assms
  by (simp_all add: env_ok_def DefaultRedisConfigForAuth_def NewRedisConfig_def WithRedisDB_def env_redis_def
      mongo_DefaultConfig_def mongo_NewConfig_def WithUserName_def WithPassword_def WithHost_def WithPort_def
      env_mongo_def GetDotEnvVariable_plain)

text \<open>Whether RabbitMQ accepts the connection and the declarations.\<close>

definition amqp_ok :: "('b, 'bytes) amqp_ops \<Rightarrow> env \<Rightarrow> 'b \<Rightarrow> bool" where
  "amqp_ok amqp e b \<longleftrightarrow> (case fst (NewAmqpConfig amqp (env_Getenv e RABBITMQ_HOST) b) of Done (Inr config) \<Rightarrow> True | _ \<Rightarrow> False)"

lemma amqp_ok_iff:
  "amqp_ok amqp e b \<longleftrightarrow> (\<exists>config. fst (NewAmqpConfig amqp (env_Getenv e RABBITMQ_HOST) b) = Done (Inr config))"
  by (auto simp: amqp_ok_def split: outcome.splits sum.splits)

lemma NewAmqpConfig_host: "fst (NewAmqpConfig amqp host b) = Done (Inr config) \<Longrightarrow> config = \<lparr>amqp_Host = host\<rparr>"
  by (auto simp: NewAmqpConfig_def split: prod.splits option.splits)

lemma DefaultAmqpConfig_iff:
  assumes "env_ok e"
  shows "fst (DefaultAmqpConfig amqp e b) = Done config \<longleftrightarrow>
    amqp_ok amqp e b \<and> config = \<lparr>amqp_Host = env_Getenv e RABBITMQ_HOST\<rparr>"
proof -
  have "GetDotEnvVariable e RABBITMQ_HOST = Done (env_Getenv e RABBITMQ_HOST)"
    using assms by (simp add: env_ok_def GetDotEnvVariable_plain)
  then have "fst (DefaultAmqpConfig amqp e b) = and_then (fst (NewAmqpConfig amqp (env_Getenv e RABBITMQ_HOST) b))
      (\<lambda>r. case r of Inl err \<Rightarrow> Panic (''Failed to get amqp config: '' @ err) | Inr config \<Rightarrow> Done config)"
    by (simp add: DefaultAmqpConfig_def split: prod.split)
  then show ?thesis using NewAmqpConfig_host[of amqp "env_Getenv e RABBITMQ_HOST" b]
    by (cases "fst (NewAmqpConfig amqp (env_Getenv e RABBITMQ_HOST) b)") (auto simp: amqp_ok_def split: sum.split)
qed

definition env_config :: "cors_config \<Rightarrow> env \<Rightarrow> app_config" where
  "env_config cors e = \<lparr>app_Server = env_server cors e, app_Redis = env_redis e, app_Mongo = env_mongo e,
     app_Amqp = \<lparr>amqp_Host = env_Getenv e RABBITMQ_HOST\<rparr>, app_Ws = DefaultWsConfig\<rparr>"

lemma ConfigModule_iff:
  "fst (ConfigModule amqp cors e b) = Done config \<longleftrightarrow> env_ok e \<and> amqp_ok amqp e b \<and> config = env_config cors e"
proof (cases "env_ok e")
  case True
  have "fst (ConfigModule amqp cors e b) = Done config \<longleftrightarrow> (\<exists>c. fst (DefaultAmqpConfig amqp e b) = Done c \<and>
      config = \<lparr>app_Server = env_server cors e, app_Redis = env_redis e, app_Mongo = env_mongo e,
        app_Amqp = c, app_Ws = DefaultWsConfig\<rparr>)"
    using redis_mongo_ok[OF True] server_Default_ok[OF True]
    by (auto simp: ConfigModule_def and_then_Done_iff split: prod.split)
  then show ?thesis using True unfolding DefaultAmqpConfig_iff[OF True] env_config_def by auto
next
  case False
  then show ?thesis using server_Default_not_ok
    by (auto simp: ConfigModule_def and_then_Done_iff split: prod.splits)
qed

definition env_redis_options :: "env \<Rightarrow> redis_options" where
  "env_redis_options e = \<lparr>ro_Addr = env_Getenv e REDIS_HOST @ '':'' @ env_Getenv e REDIS_PORT,
     ro_Password = env_Getenv e REDIS_PASSWORD, ro_DB = 0\<rparr>"

lemma DBModule_Done_iff:
  "(\<exists>r. DBModule so (env_config cors e) = Done r) \<longleftrightarrow> so_redisPing so (env_redis_options e) = None \<and>
     so_mongoConnect so (GetURI (env_mongo e)) = None \<and> so_mongoPing so (GetURI (env_mongo e)) = None"
  by (auto simp: DBModule_def env_config_def NewRedisClient_def mongo_Connect_def Let_def env_redis_def
      env_redis_options_def and_then_Done_iff)

lemma newServerEngine_Done_iff:
  "(\<exists>r. newServerEngine lib ops db put eat e config = Done r) \<longleftrightarrow>
     gin_SetMode lib (srv_GinMode config) = Done () \<and> (\<exists>cors. cors_New lib (server_cors lib) = Done cors) \<and>
     (\<exists>rs. NewRoutes ops db put eat e = Done rs)"
  by (auto simp: newServerEngine_def and_then_Done_iff Let_def)

lemma NewProduction_iff:
  "env_ok e \<Longrightarrow> (\<exists>l. NewProduction build e = Done l) \<longleftrightarrow>
     build (if env_Getenv e ENV = ''release'' then ProductionLogger else DevelopmentLogger) = None"
  by (auto simp: env_ok_def NewProduction_def GetDotEnvVariable_ENV zap_Must_def split: option.splits)

subsection \<open>Properties\<close>

text \<open>C22: Both programs start exactly if the environment is complete (the .env file loads, SERVER names a
  program, ENV a mode), the logger can be built, Redis, MongoDB and RabbitMQ answer, gin accepts the
  mode and the cors configuration, and the validator of Auth0's tokens can be built: the engine, which
  serves no requests, needs the last three too. No partly built program runs.\<close>

theorem app_starts_iff:
  "(\<exists>app. fst (build_app lib so amqp ops db put eat e b) = Done app) \<longleftrightarrow>
     env_Load e = None \<and> env_Getenv e SERVER \<in> {SERVICE, ENGINE} \<and> env_Getenv e ENV \<in> {''debug'', ''release'', ''test''} \<and>
     so_zapBuild so (if env_Getenv e ENV = ''release'' then ProductionLogger else DevelopmentLogger) = None \<and>
     (\<exists>config. fst (NewAmqpConfig amqp (env_Getenv e RABBITMQ_HOST) b) = Done (Inr config)) \<and>
     so_redisPing so (env_redis_options e) = None \<and>
     so_mongoConnect so (GetURI (env_mongo e)) = None \<and> so_mongoPing so (GetURI (env_mongo e)) = None \<and>
     gin_SetMode lib (env_Getenv e ENV) = Done () \<and> (\<exists>cors. cors_New lib (server_cors lib) = Done cors) \<and>
     (\<exists>issuer jwt. net_Parse ops (env_Getenv e AUTH0_AUTHORITY) = Inr issuer \<and>
       validator_New ops issuer (env_Getenv e AUTH0_AUTHORITY) [env_Getenv e AUTH0_AUDIENCE] = Inr jwt)"
proof -
  let ?config = "env_config (cors_DefaultConfig lib) e"
  have mode: "srv_GinMode (app_Server ?config) = env_Getenv e ENV"
    by (simp add: env_config_def env_server_def Let_def)
  have "(\<exists>app. fst (build_app lib so amqp ops db put eat e b) = Done app) \<longleftrightarrow>
      (\<exists>l. NewProduction (so_zapBuild so) e = Done l) \<and> env_ok e \<and> amqp_ok amqp e b \<and>
      (\<exists>r. DBModule so ?config = Done r) \<and> (\<exists>r. newServerEngine lib ops db put eat e (app_Server ?config) = Done r)"
    using ConfigModule_iff[of amqp "cors_DefaultConfig lib" e b]
    by (cases "ConfigModule amqp (cors_DefaultConfig lib) e b")
      (fastforce simp: build_app_def DTOModule_def and_then_Done_iff)
  also have "\<dots> \<longleftrightarrow> env_ok e \<and>
      so_zapBuild so (if env_Getenv e ENV = ''release'' then ProductionLogger else DevelopmentLogger) = None \<and>
      amqp_ok amqp e b \<and> (\<exists>r. DBModule so ?config = Done r) \<and>
      (\<exists>r. newServerEngine lib ops db put eat e (app_Server ?config) = Done r)"
    using NewProduction_iff by blast
  finally show ?thesis
    unfolding newServerEngine_Done_iff NewRoutes_Done_iff DBModule_Done_iff mode env_ok_def amqp_ok_iff
    by (simp only: conj_ac conj_absorb conj_left_absorb)
qed

text \<open>C21: Behind gin's recovery and logger, a request that cors lets pass is logged exactly once, with its path
  and query, whether its handlers return or panic, and a panic does not end the server. A request
  that ends the process, as an error of the middleware of users does, is not logged.\<close>

theorem request_log_correct:
  assumes "newServerEngine lib ops db put eat e config = Done (server, hook)"
    and "recovers (gin_Recovery lib)" "transparent (gin_Logger lib)" "cors_passes lib c w"
    and "time_Now lib w = (start, w1)"
  shows "case run_chain r c w1 of
      (Done c1, w2) \<Rightarrow> serve server r c w = (Done c1, log_request lib start (ctx_Path c) (ctx_RawQuery c) c1 w2)
    | (Panic msg, w2) \<Rightarrow>
        \<exists>c1. serve server r c w = (Done c1, log_request lib start (ctx_Path c) (ctx_RawQuery c) c1 w2)
    | (Exit, w2) \<Rightarrow> serve server r c w = (Exit, w2)
    | (Diverges, w2) \<Rightarrow> serve server r c w = (Diverges, w2)"
proof -
  let ?inner = "gin_Recovery lib (run_chain r)" and ?log = "log_request lib start (ctx_Path c) (ctx_RawQuery c)"
  obtain cors where cors: "cors_New lib (server_cors lib) = Done cors"
      "eng_Use server = [gin_Logger lib, gin_Recovery lib, cors, StructuredLogger lib, gin_Recovery lib]"
    using newServerEngine_Use[OF assms(1)] by blast
  have "serve server r c w = gin_Recovery lib (cors (StructuredLogger lib ?inner)) c w"
    using assms(3) cors(2) by (simp add: serve_def transparent_def)
  moreover have "cors (StructuredLogger lib ?inner) c w = StructuredLogger lib ?inner c w"
    using assms(4) cors(1) by (simp add: cors_passes_def)
  moreover have "StructuredLogger lib ?inner c w = io_bind (?inner c) (\<lambda>c w. (Done c, ?log c w)) w1"
    using assms(5) by (simp add: StructuredLogger_def)
  ultimately show ?thesis
    using recovers_cases[OF assms(2), of "run_chain r" c w1]
      recovers_cases[OF assms(2), of "cors (StructuredLogger lib ?inner)" c w]
    by (cases "run_chain r c w1"; cases "fst (run_chain r c w1)") (auto simp: io_bind_def)
qed

text \<open>
  A library for examples: the world is the text of the log; the recovery answers 500. The handler of
  \<open>bad_route\<close> panics.
\<close>

definition recovery_500 :: "'w middleware" where
  "recovery_500 next c w = (case next c w of (Panic msg, w') \<Rightarrow> (Done (AbortWithError 500 msg c), w') | r \<Rightarrow> r)"

lemma recovers_recovery_500: "recovers recovery_500"
  by (auto simp: recovers_def recovery_500_def split: prod.split outcome.split)

definition example_lib :: "string option server_lib" where
  "example_lib = \<lparr>gin_SetMode = (\<lambda>_. Done ()), gin_Logger = (\<lambda>next. next), gin_Recovery = recovery_500,
     gin_ClientIP = (\<lambda>_. ''::1''), gin_Status = (\<lambda>rs. case rs of Aborted code err # _ \<Rightarrow> code | _ \<Rightarrow> 200),
     gin_ErrorsString = concat,
     cors_DefaultConfig = srv_Cors zero_server_config, cors_New = (\<lambda>_. Done (\<lambda>next. next)),
     time_Now = (\<lambda>w. (zero_time, w)), zap_Info = (\<lambda>msg fs w. case map_of fs ''path'' of Some (LogString p) \<Rightarrow> Some p | _ \<Rightarrow> w),
     zap_Error = (\<lambda>msg w. Some msg), zap_Sync = (\<lambda>w. (None, w))\<rparr>"

definition bad_route :: "string option route" where
  "bad_route = \<lparr>rt_Method = ''GET'', rt_Group = ''/a'', rt_Pattern = ''/b'', rt_Middlewares = [],
     rt_Handler = (\<lambda>c. io_panic ''nil map'')\<rparr>"

theorem request_log_correct_witness:
  "\<exists>server hook c1. newServerEngine example_lib checking_net log_db HealthCheck HealthCheck
      \<lparr>env_Load = None, env_Getenv = (\<lambda>k. k)\<rparr> zero_server_config = Done (server, hook) \<and>
    serve server bad_route ((request_with [])\<lparr>ctx_Path := ''/a/b'', ctx_RawQuery := ''x=1''\<rparr>) None =
      (Done c1, Some ''/a/b?x=1'')"
proof -
  let ?e = "\<lparr>env_Load = None, env_Getenv = (\<lambda>k. k)\<rparr>"
  let ?c = "(request_with [])\<lparr>ctx_Path := ''/a/b'', ctx_RawQuery := ''x=1''\<rparr>"
  have "\<exists>rs. NewRoutes checking_net log_db HealthCheck HealthCheck ?e = Done rs"
    unfolding NewRoutes_Done_iff by (simp add: checking_net_def example_net_def)
  then obtain server hook where
    s: "newServerEngine example_lib checking_net log_db HealthCheck HealthCheck ?e zero_server_config = Done (server, hook)"
    by (auto simp: newServerEngine_def example_lib_def Let_def)
  have lib: "recovers (gin_Recovery example_lib)" "transparent (gin_Logger example_lib)"
      "cors_passes example_lib ?c None" "time_Now example_lib None = (zero_time, None)"
    using recovers_recovery_500 by (auto simp: example_lib_def transparent_def cors_passes_def)
  have "run_chain bad_route ?c None = (Panic ''nil map'', None)" by (simp add: run_chain_def bad_route_def)
  then have "\<exists>c1. serve server bad_route ?c None = (Done c1, log_request example_lib zero_time ''/a/b'' ''x=1'' c1 None)"
    using request_log_correct[OF s lib, of bad_route] by simp
  moreover have "log_request example_lib zero_time ''/a/b'' ''x=1'' c1 None = Some ''/a/b?x=1''" for c1
    by (simp add: log_request_def example_lib_def)
  ultimately show ?thesis using s by auto
qed

end
