(* ===== verification/PersistWs.thy ===== *)
theory PersistWs
  imports Http Amqp Clients
begin

section \<open>Sending points: the websocket handler PersistAuditDataGroupHandler\<close>

text \<open>
  The handler registers its client, then turns each message of the connection into a point and
  publishes it, until the connection fails or a message has no group code. The variable that the
  messages are decoded into is shared by all iterations, and \<open>FailIfError\<close> does not leave the
  iteration. \<open>frame\<close> is one message with what the rest of the server does meanwhile: the other
  handlers change the registry before the two points at which this one looks at it.

  \<open>persist_loop_trace\<close> describes every publication of a session; the sender is always the session's
  user.
\<close>

record frame =
  fr_Message :: string
  fr_BeforeGet :: "ptr gomap \<Rightarrow> ptr gomap"
  fr_BeforeRemove :: "ptr gomap \<Rightarrow> ptr gomap"
  fr_WriteErr :: "string option"

text \<open>
  \<open>pw_unmarshal\<close> decodes a message into the variable; \<open>pw_marshal\<close> is the JSON of a point, which can
  fail on its time.
\<close>

record 'b persist_ops =
  pw_unmarshal :: "string \<Rightarrow> live_line_request \<Rightarrow> string option \<times> live_line_request"
  pw_marshal :: "live_line \<Rightarrow> string + string"
  pw_user :: "string \<Rightarrow> string option \<times> user_data"
  pw_amqp :: "('b, string) amqp_ops"

record 'b persist_state =
  ps_Registry :: "ptr gomap"
  ps_Ctx :: gin_ctx
  ps_Request :: live_line_request
  ps_Broker :: 'b
  ps_Closed :: "nat list"

definition zero_request :: live_line_request where
  "zero_request = \<lparr>req_X = Fin 0, req_Y = Fin 0, req_Time = 0, req_GroupCode = []\<rparr>"

text \<open>
  One iteration; the first component says that the handler returns. A point that cannot be encoded
  is published as an empty body.
\<close>

definition persist_frame ::
  "'b persist_ops \<Rightarrow> (ptr \<Rightarrow> persist_client) \<Rightarrow> string \<Rightarrow> frame \<Rightarrow> 'b persist_state \<Rightarrow> bool \<times> 'b persist_state" where
  "persist_frame ops clients sub f s =
     (let (err, requestData) = pw_unmarshal ops (fr_Message f) (ps_Request s);
          c = FailIfError err StatusBadRequest (ps_Ctx s);
          data = ToRunnerLiveLinesSchema requestData sub;
          s = s\<lparr>ps_Request := requestData\<rparr>
      in if req_GroupCode requestData = []
         then (True, s\<lparr>ps_Ctx := AbortWithError StatusBadRequest ''group code is required'' c\<rparr>)
         else
           let (jsonData, err) = (case pw_marshal ops data of Inl err \<Rightarrow> ([], Some err) | Inr json \<Rightarrow> (json, None));
               c = FailIfError err StatusInternalServerError c;
               (err, b) = PublishWithContext (pw_amqp ops) jsonData LIVE_LINES_QUEUE_NAME True (ps_Broker s);
               c = FailIfError err StatusInternalServerError c;
               reg = fr_BeforeGet f (ps_Registry s);
               s = s\<lparr>ps_Broker := b, ps_Registry := reg, ps_Ctx := c\<rparr>
           in (case persist_Get sub reg of
                 None \<Rightarrow> (False, s)
               | Some client \<Rightarrow>
                   let s = (if fr_WriteErr f = None then s
                            else s\<lparr>ps_Registry := persist_RemoveClient clients client (fr_BeforeRemove f reg),
                              ps_Closed := ps_Closed s @ [pc_Conn (clients client)]\<rparr>)
                   in (False, s\<lparr>ps_Ctx := ctx_JSON StatusOK (Message ''Points added to queue successfully'') c\<rparr>)))"

fun persist_loop ::
  "'b persist_ops \<Rightarrow> (ptr \<Rightarrow> persist_client) \<Rightarrow> string \<Rightarrow> frame list \<Rightarrow> 'b persist_state \<Rightarrow> 'b persist_state" where
  "persist_loop ops clients sub [] s = s"
| "persist_loop ops clients sub (f # fs) s =
     (case persist_frame ops clients sub f s of
        (True, s) \<Rightarrow> s
      | (False, s) \<Rightarrow> persist_loop ops clients sub fs s)"

text \<open>
  The handler. \<open>upgrade\<close> is the connection or the error of the upgrade, after which the code goes on
  with a nil connection (0 here); \<open>frames\<close> are the messages that \<open>ReadMessage\<close> delivers before it
  fails; the deferred functions run however the loop ends. \<open>client\<close> is the new client's address.
\<close>

definition PersistAuditDataHandler ::
  "'b persist_ops \<Rightarrow> (ptr \<Rightarrow> persist_client) \<Rightarrow> ptr \<Rightarrow> string + nat \<Rightarrow> frame list \<Rightarrow>
   (ptr gomap \<Rightarrow> ptr gomap) \<Rightarrow> gin_ctx \<Rightarrow> ptr gomap \<Rightarrow> 'b \<Rightarrow> 'b persist_state" where
  "PersistAuditDataHandler ops clients client upgrade frames beforeEnd c reg b =
     (let (ws, err) = (case upgrade of Inl err \<Rightarrow> (0, Some err) | Inr ws \<Rightarrow> (ws, None));
          c = FailIfError err StatusInternalServerError c;
          (err, userData) = pw_user ops (GetHeader ''userData'' c);
          c = FailIfError err StatusInternalServerError c;
          clients = clients(client := \<lparr>pc_Conn = ws, pc_Sub = ud_Sub userData\<rparr>);
          s = persist_loop ops clients (ud_Sub userData) frames
            \<lparr>ps_Registry = persist_Add (ud_Sub userData) client reg, ps_Ctx = c, ps_Request = zero_request,
             ps_Broker = b, ps_Closed = []\<rparr>
      in s\<lparr>ps_Registry := persist_RemoveClient clients client (beforeEnd (ps_Registry s)),
         ps_Closed := ps_Closed s @ [ws, ws]\<rparr>)"

subsection \<open>What a session publishes\<close>

definition with_trace :: "'b persist_ops \<Rightarrow> ('b \<times> string amqp_event list) persist_ops" where
  "with_trace ops = \<lparr>pw_unmarshal = pw_unmarshal ops, pw_marshal = pw_marshal ops, pw_user = pw_user ops,
     pw_amqp = traced (pw_amqp ops)\<rparr>"

lemma with_trace_simps [simp]:
  "pw_unmarshal (with_trace ops) = pw_unmarshal ops" "pw_marshal (with_trace ops) = pw_marshal ops"
  "pw_user (with_trace ops) = pw_user ops" "pw_amqp (with_trace ops) = traced (pw_amqp ops)"
  by (simp_all add: with_trace_def)

text \<open>The publications that a session of a user may make.\<close>

definition sent_by :: "'b persist_ops \<Rightarrow> string \<Rightarrow> string amqp_event \<Rightarrow> bool" where
  "sent_by ops sub e \<longleftrightarrow> (case e of
     Published x key body \<Rightarrow> x = EXCHANGE_NAME \<and> key = LIVE_LINES_QUEUE_NAME \<and>
       (body = [] \<or> (\<exists>l. pw_marshal ops l = Inr body \<and> ll_Sender l = sub \<and> ll_GroupCode l \<noteq> []))
   | _ \<Rightarrow> True)"

lemma publish_sent_by:
  assumes "body = [] \<or> (\<exists>l. pw_marshal ops l = Inr body \<and> ll_Sender l = sub \<and> ll_GroupCode l \<noteq> [])"
    and "PublishWithContext (traced (pw_amqp ops)) body LIVE_LINES_QUEUE_NAME True b = (err, b')"
  shows "\<exists>es. snd b' = snd b @ es \<and> list_all (sent_by ops sub) es"
proof -
  obtain n b1 where "(b' :: 'a \<times> string amqp_event list) = (b1, snd b @ take n (publish_calls body LIVE_LINES_QUEUE_NAME))"
    using publish_traced[of "pw_amqp ops" body LIVE_LINES_QUEUE_NAME "fst b" "snd b"] assms(2) by auto
  moreover have "list_all (sent_by ops sub) (publish_calls body LIVE_LINES_QUEUE_NAME)"
    using assms(1) by (simp add: publish_calls_def sent_by_def)
  ultimately show ?thesis by (auto simp: list_all_iff dest: in_set_takeD)
qed

lemma persist_frame_trace:
  assumes "persist_frame (with_trace ops) clients sub f s = (stop, s')"
  shows "\<exists>es. snd (ps_Broker s') = snd (ps_Broker s) @ es \<and> list_all (sent_by ops sub) es"
proof -
  obtain err req where u: "pw_unmarshal ops (fr_Message f) (ps_Request s) = (err, req)"
    by (cases "pw_unmarshal ops (fr_Message f) (ps_Request s)")
  show ?thesis
  proof (cases "req_GroupCode req = []")
    case True
    then have "ps_Broker s' = ps_Broker s" using assms u by (auto simp: persist_frame_def)
    then show ?thesis by simp
  next
    case False
    let ?data = "ToRunnerLiveLinesSchema req sub"
    define body where "body = (case pw_marshal ops ?data of Inl err \<Rightarrow> [] | Inr json \<Rightarrow> json)"
    obtain e b where p: "PublishWithContext (traced (pw_amqp ops)) body LIVE_LINES_QUEUE_NAME True (ps_Broker s) = (e, b)"
      by (cases "PublishWithContext (traced (pw_amqp ops)) body LIVE_LINES_QUEUE_NAME True (ps_Broker s)")
    have "body = [] \<or> (\<exists>l. pw_marshal ops l = Inr body \<and> ll_Sender l = sub \<and> ll_GroupCode l \<noteq> [])"
      using False unfolding body_def
      by (cases "pw_marshal ops ?data") (auto intro!: exI[of _ ?data] simp: ToRunnerLiveLinesSchema_def)
    moreover have "ps_Broker s' = b"
      using assms False u p unfolding body_def
      by (cases "pw_marshal ops ?data") (auto simp: persist_frame_def Let_def split: option.splits if_splits)
    ultimately show ?thesis using publish_sent_by[OF _ p] by blast
  qed
qed

lemma persist_loop_trace:
  "\<exists>es. snd (ps_Broker (persist_loop (with_trace ops) clients sub fs s)) = snd (ps_Broker s) @ es \<and>
     list_all (sent_by ops sub) es"
proof (induction fs arbitrary: s)
  case (Cons f fs)
  obtain stop s1 where f: "persist_frame (with_trace ops) clients sub f s = (stop, s1)"
    by (cases "persist_frame (with_trace ops) clients sub f s")
  obtain es where es: "snd (ps_Broker s1) = snd (ps_Broker s) @ es" "list_all (sent_by ops sub) es"
    using persist_frame_trace[OF f] by blast
  obtain es' where "snd (ps_Broker (persist_loop (with_trace ops) clients sub fs s1)) = snd (ps_Broker s1) @ es'"
      "list_all (sent_by ops sub) es'"
    using Cons.IH by blast
  then show ?case using f es by (cases stop) auto
qed simp

text \<open>The user of a session, by the header that the handler reads.\<close>

definition session_sub :: "'b persist_ops \<Rightarrow> gin_ctx \<Rightarrow> string" where
  "session_sub ops c = ud_Sub (snd (pw_user ops (GetHeader ''userData'' c)))"

lemma GetHeader_FailIfError [simp]: "GetHeader key (FailIfError err code c) = GetHeader key c"
  by (simp add: FailIfError_def GetHeader_def split: option.splits)

lemma handler_eq:
  "\<exists>ws c1 closed. PersistAuditDataHandler ops clients client upgrade frames beforeEnd c reg b =
    (let clients = clients(client := \<lparr>pc_Conn = ws, pc_Sub = session_sub ops c\<rparr>);
         s = persist_loop ops clients (session_sub ops c) frames
           \<lparr>ps_Registry = persist_Add (session_sub ops c) client reg, ps_Ctx = c1, ps_Request = zero_request,
            ps_Broker = b, ps_Closed = []\<rparr>
     in s\<lparr>ps_Registry := persist_RemoveClient clients client (beforeEnd (ps_Registry s)), ps_Closed := closed s\<rparr>)"
proof -
  obtain err u where "pw_user ops (GetHeader ''userData'' c) = (err, u)"
    by (cases "pw_user ops (GetHeader ''userData'' c)")
  then show ?thesis
    by (cases upgrade) (auto simp: PersistAuditDataHandler_def session_sub_def Let_def intro!: exI)
qed

lemma handler_trace:
  "\<exists>es. snd (ps_Broker (PersistAuditDataHandler (with_trace ops) clients client upgrade frames beforeEnd c reg (b, evs))) =
      evs @ es \<and> list_all (sent_by ops (session_sub ops c)) es"
proof -
  have sub: "session_sub (with_trace ops) c = session_sub ops c" by (simp add: session_sub_def)
  obtain clients' s0 where
    "ps_Broker (PersistAuditDataHandler (with_trace ops) clients client upgrade frames beforeEnd c reg (b, evs)) =
      ps_Broker (persist_loop (with_trace ops) clients' (session_sub ops c) frames s0)" "ps_Broker s0 = (b, evs)"
    using handler_eq[of "with_trace ops" clients client upgrade frames beforeEnd c reg "(b, evs)"] sub
    by (force simp: Let_def)
  moreover obtain es where "snd (ps_Broker (persist_loop (with_trace ops) clients' (session_sub ops c) frames s0)) =
      snd (ps_Broker s0) @ es" "list_all (sent_by ops (session_sub ops c)) es"
    using persist_loop_trace by blast
  ultimately show ?thesis by auto
qed

subsection \<open>The points of a session\<close>

text \<open>
  The points that the messages of a connection amount to: each message changes the request that the one
  before has left, up to the first that leaves it without a group code.
\<close>

fun session_points :: "'b persist_ops \<Rightarrow> string \<Rightarrow> live_line_request \<Rightarrow> frame list \<Rightarrow> live_line list" where
  "session_points ops sub req [] = []"
| "session_points ops sub req (f # fs) =
     (let req = snd (pw_unmarshal ops (fr_Message f) req) in
      if req_GroupCode req = [] then []
      else \<lparr>ll_X = req_X req, ll_Y = req_Y req, ll_Time = time_UnixMilli (req_Time req), ll_Sender = sub,
        ll_GroupCode = req_GroupCode req\<rparr> # session_points ops sub req fs)"

text \<open>The bodies that a trace publishes to the queue of live points, without the empty ones.\<close>

fun published_bodies :: "string amqp_event list \<Rightarrow> string list" where
  "published_bodies [] = []"
| "published_bodies (e # es) =
     (case e of Published x key body \<Rightarrow> if x = EXCHANGE_NAME \<and> key = LIVE_LINES_QUEUE_NAME \<and> body \<noteq> [] then [body] else [] | _ \<Rightarrow> []) @ published_bodies es"

lemma published_bodies_append [simp]: "published_bodies (es @ es') = published_bodies es @ published_bodies es'"
  by (induction es) auto

lemma published_bodies_take:
  assumes "n \<le> 3"
  shows "published_bodies (take n (publish_calls body LIVE_LINES_QUEUE_NAME)) = (if n = 3 \<and> body \<noteq> [] then [body] else [])"
proof -
  from assms consider "n = 0" | "n = 1" | "n = 2" | "n = 3" by linarith
  then show ?thesis by cases (simp_all add: publish_calls_def numeral_2_eq_2 numeral_3_eq_3)
qed

definition accepting :: "'b persist_ops \<Rightarrow> bool" where
  "accepting ops \<longleftrightarrow> (\<forall>body b. fst (PublishWithContext (pw_amqp ops) body LIVE_LINES_QUEUE_NAME True b) = None)"

lemma persist_frame_cases:
  assumes "persist_frame (with_trace ops) clients sub f s = (stop, s')"
    and "req = snd (pw_unmarshal ops (fr_Message f) (ps_Request s))"
    and "body = (case pw_marshal ops (ToRunnerLiveLinesSchema req sub) of Inl err \<Rightarrow> [] | Inr json \<Rightarrow> json)"
  shows "ps_Request s' = req \<and> (if req_GroupCode req = [] then stop \<and> ps_Broker s' = ps_Broker s
    else \<not> stop \<and> (\<exists>n b'. n \<le> 3 \<and> (accepting ops \<longrightarrow> n = 3) \<and>
      ps_Broker s' = (b', snd (ps_Broker s) @ take n (publish_calls body LIVE_LINES_QUEUE_NAME))))"
proof -
  obtain err where u: "pw_unmarshal ops (fr_Message f) (ps_Request s) = (err, req)"
    using assms(2) by (cases "pw_unmarshal ops (fr_Message f) (ps_Request s)") simp
  show ?thesis
  proof (cases "req_GroupCode req = []")
    case True
    then show ?thesis using assms(1) u by (auto simp: persist_frame_def)
  next
    case False
    obtain e b where p: "PublishWithContext (traced (pw_amqp ops)) body LIVE_LINES_QUEUE_NAME True (ps_Broker s) = (e, b)"
      by (cases "PublishWithContext (traced (pw_amqp ops)) body LIVE_LINES_QUEUE_NAME True (ps_Broker s)")
    have "\<not> stop \<and> ps_Request s' = req \<and> ps_Broker s' = b"
      using assms(1) False u p unfolding assms(3)
      by (cases "pw_marshal ops (ToRunnerLiveLinesSchema req sub)")
        (auto simp: persist_frame_def Let_def split: option.splits if_splits)
    moreover obtain n b1 where "n \<le> 3" "b = (b1, snd (ps_Broker s) @ take n (publish_calls body LIVE_LINES_QUEUE_NAME))"
        "e = None \<longrightarrow> n = 3"
      using publish_traced[of "pw_amqp ops" body LIVE_LINES_QUEUE_NAME "fst (ps_Broker s)" "snd (ps_Broker s)"] p by auto
    moreover have "accepting ops \<longrightarrow> e = None"
      using traced_same_error[of "pw_amqp ops" body LIVE_LINES_QUEUE_NAME "fst (ps_Broker s)" "snd (ps_Broker s)"] p
      by (auto simp: accepting_def)
    ultimately show ?thesis using False by auto
  qed
qed

lemma persist_loop_points:
  "\<exists>es ls. snd (ps_Broker (persist_loop (with_trace ops) clients sub fs s)) = snd (ps_Broker s) @ es \<and>
     list_all2 (\<lambda>body l. pw_marshal ops l = Inr body) (published_bodies es) ls \<and>
     subseq ls (session_points ops sub (ps_Request s) fs) \<and>
     (accepting ops \<and> (\<forall>l\<in>set (session_points ops sub (ps_Request s) fs). \<exists>body. pw_marshal ops l = Inr body \<and> body \<noteq> []) \<longrightarrow>
       ls = session_points ops sub (ps_Request s) fs)"
proof (induction fs arbitrary: s)
  case Nil
  then show ?case by (intro exI[of _ "[]"]) simp
next
  case (Cons f fs)
  obtain stop s1 where f: "persist_frame (with_trace ops) clients sub f s = (stop, s1)"
    by (cases "persist_frame (with_trace ops) clients sub f s")
  define req where "req = snd (pw_unmarshal ops (fr_Message f) (ps_Request s))"
  define body where "body = (case pw_marshal ops (ToRunnerLiveLinesSchema req sub) of Inl err \<Rightarrow> [] | Inr json \<Rightarrow> json)"
  note frame = persist_frame_cases[OF f req_def body_def]
  show ?case
  proof (cases "req_GroupCode req = []")
    case True
    then have "stop" "ps_Broker s1 = ps_Broker s" using frame by simp_all
    then show ?thesis using f True
      by (intro exI[of _ "[]"]) (simp add: req_def[symmetric])
  next
    case False
    let ?l = "\<lparr>ll_X = req_X req, ll_Y = req_Y req, ll_Time = time_UnixMilli (req_Time req), ll_Sender = sub,
        ll_GroupCode = req_GroupCode req\<rparr>"
    have l: "ToRunnerLiveLinesSchema req sub = ?l" by (simp add: ToRunnerLiveLinesSchema_def)
    obtain n b' where step: "\<not> stop" "ps_Request s1 = req" "n \<le> 3" "accepting ops \<longrightarrow> n = 3"
        "ps_Broker s1 = (b', snd (ps_Broker s) @ take n (publish_calls body LIVE_LINES_QUEUE_NAME))"
      using frame False by auto
    obtain es ls where rest: "snd (ps_Broker (persist_loop (with_trace ops) clients sub fs s1)) = snd (ps_Broker s1) @ es"
        "list_all2 (\<lambda>body l. pw_marshal ops l = Inr body) (published_bodies es) ls"
        "subseq ls (session_points ops sub req fs)"
        "accepting ops \<and> (\<forall>l\<in>set (session_points ops sub req fs). \<exists>body. pw_marshal ops l = Inr body \<and> body \<noteq> []) \<longrightarrow>
          ls = session_points ops sub req fs"
      using Cons.IH[of s1] unfolding step(2) by blast
    have points: "session_points ops sub (ps_Request s) (f # fs) = ?l # session_points ops sub req fs"
      using False by (simp add: req_def[symmetric])
    have loop: "snd (ps_Broker (persist_loop (with_trace ops) clients sub (f # fs) s)) =
        snd (ps_Broker s) @ (take n (publish_calls body LIVE_LINES_QUEUE_NAME) @ es)"
      using f step(1,5) rest(1) by simp
    note bodies = published_bodies_take[OF step(3), of body]
    show ?thesis
    proof (cases "n = 3 \<and> body \<noteq> []")
      case True
      then have "pw_marshal ops ?l = Inr body" unfolding body_def l by (cases "pw_marshal ops ?l") simp_all
      then show ?thesis unfolding points loop using True bodies rest(2-4)
        by (intro exI[of _ "take n (publish_calls body LIVE_LINES_QUEUE_NAME) @ es"] exI[of _ "?l # ls"]) simp
    next
      case False
      then have "\<not> (accepting ops \<and> (\<exists>body. pw_marshal ops ?l = Inr body \<and> body \<noteq> []))"
        using step(4) unfolding body_def l by auto
      then show ?thesis unfolding points loop using False bodies rest(2,3)
        by (intro exI[of _ "take n (publish_calls body LIVE_LINES_QUEUE_NAME) @ es"] exI[of _ ls]) auto
    qed
  qed
qed

lemma handler_points:
  "\<exists>ls. list_all2 (\<lambda>body l. pw_marshal ops l = Inr body)
      (published_bodies (snd (ps_Broker (PersistAuditDataHandler (with_trace ops) clients client upgrade frames beforeEnd c reg (b, []))))) ls \<and>
    subseq ls (session_points ops (session_sub ops c) zero_request frames) \<and>
    (accepting ops \<and> (\<forall>l\<in>set (session_points ops (session_sub ops c) zero_request frames). \<exists>body. pw_marshal ops l = Inr body \<and> body \<noteq> []) \<longrightarrow>
      ls = session_points ops (session_sub ops c) zero_request frames)"
proof -
  have sub: "session_sub (with_trace ops) c = session_sub ops c" by (simp add: session_sub_def)
  obtain clients' s0 where
    "ps_Broker (PersistAuditDataHandler (with_trace ops) clients client upgrade frames beforeEnd c reg (b, [])) =
      ps_Broker (persist_loop (with_trace ops) clients' (session_sub ops c) frames s0)" "ps_Broker s0 = (b, [])" "ps_Request s0 = zero_request"
    using handler_eq[of "with_trace ops" clients client upgrade frames beforeEnd c reg "(b, [])"] sub
    by (force simp: Let_def)
  then show ?thesis using persist_loop_points[of ops clients' "session_sub ops c" frames s0] by auto
qed

lemma session_points_of: "l \<in> set (session_points ops sub req fs) \<Longrightarrow> ll_Sender l = sub \<and> ll_GroupCode l \<noteq> []"
  by (induction fs arbitrary: req) (auto simp: Let_def split: if_splits)

subsection \<open>Properties\<close>

text \<open>Everything a session publishes goes to the queue of live points, and its body is either empty or
  the JSON of a point that is sent by the session's own user and names a group, whatever the client
  sends and however other sessions interfere.\<close>

lemma persist_session_sender:
  "\<exists>es. snd (ps_Broker (PersistAuditDataHandler (with_trace ops) clients client upgrade frames beforeEnd c reg (b, evs))) =
      evs @ es \<and>
    (\<forall>x key body. Published x key body \<in> set es \<longrightarrow> x = EXCHANGE_NAME \<and> key = LIVE_LINES_QUEUE_NAME \<and>
      (body = [] \<or> (\<exists>l. pw_marshal ops l = Inr body \<and>
        ll_Sender l = ud_Sub (snd (pw_user ops (GetHeader ''userData'' c))) \<and> ll_GroupCode l \<noteq> [])))"
proof -
  obtain es where "snd (ps_Broker (PersistAuditDataHandler (with_trace ops) clients client upgrade frames beforeEnd c reg (b, evs))) =
      evs @ es" "list_all (sent_by ops (session_sub ops c)) es"
    using handler_trace[of ops clients client upgrade frames beforeEnd c reg b evs] by blast
  then show ?thesis by (intro exI[of _ es]) (force simp: list_all_iff sent_by_def session_sub_def)
qed

text \<open>
  A client whose messages are the name of a group, or \<open>{\<close>, which does not decode; the JSON of a point is
  its group.
\<close>

definition example_ops :: "nat persist_ops" where
  "example_ops = \<lparr>pw_unmarshal = (\<lambda>m r. if m = ''{'' then (Some ''unexpected end of JSON input'', r)
       else (None, r\<lparr>req_GroupCode := m\<rparr>)),
     pw_marshal = (\<lambda>l. Inr (ll_GroupCode l)), pw_user = (\<lambda>s. (None, zero_user_data\<lparr>ud_Sub := s\<rparr>)),
     pw_amqp = quiet_broker\<rparr>"

definition plain_frame :: "string \<Rightarrow> frame" where
  "plain_frame m = \<lparr>fr_Message = m, fr_BeforeGet = (\<lambda>r. r), fr_BeforeRemove = (\<lambda>r. r), fr_WriteErr = None\<rparr>"

definition user_request :: gin_ctx where
  "user_request = \<lparr>ctx_Method = ''GET'', ctx_Path = ''/ws/putOnQueueGroup/'', ctx_RawQuery = [],
     ctx_Header = [(''Userdata'', ''u'')], ctx_Params = [], ctx_Body = [], ctx_replies = []\<rparr>"

lemma persist_session_sender_witness:
  "Published EXCHANGE_NAME ''g'' ''g'' \<notin> set (snd (ps_Broker (PersistAuditDataHandler (with_trace example_ops)
      (\<lambda>_. \<lparr>pc_Conn = 0, pc_Sub = []\<rparr>) 1 (Inr 1) [plain_frame ''g''] (\<lambda>r. r) user_request gomap_empty (0, []))))"
  using persist_session_sender[of example_ops "\<lambda>_. \<lparr>pc_Conn = 0, pc_Sub = []\<rparr>" 1 "Inr 1" "[plain_frame ''g'']"
      "\<lambda>r. r" user_request gomap_empty 0 "[]"] by (auto simp: LIVE_LINES_QUEUE_NAME_def)

text \<open>C35: A message that does not decode makes the handler send the user's previous point again: with a
  queue that accepts everything, the same JSON is published twice, and the client gets an error and
  a success for the one message.\<close>

theorem malformed_message_repeats_point:
  assumes "\<And>b. fst (PublishWithContext (traced (pw_amqp ops)) json LIVE_LINES_QUEUE_NAME True b) = None"
    and "pw_unmarshal ops (fr_Message f) (ps_Request s) = (None, req)" "req_GroupCode req \<noteq> []"
    and "pw_unmarshal ops (fr_Message g) req = (Some err, req)"
    and "pw_marshal ops (ToRunnerLiveLinesSchema req sub) = Inr json"
    and "\<And>reg. persist_Get sub (fr_BeforeGet f reg) = Some client" "\<And>reg. persist_Get sub (fr_BeforeGet g reg) = Some client"
  shows "snd (ps_Broker (persist_loop (with_trace ops) clients sub [f, g] s)) =
      snd (ps_Broker s) @ publish_calls json LIVE_LINES_QUEUE_NAME @ publish_calls json LIVE_LINES_QUEUE_NAME \<and>
    ctx_replies (ps_Ctx (persist_loop (with_trace ops) clients sub [f, g] s)) = ctx_replies (ps_Ctx s) @
      [Json 200 (Message ''Points added to queue successfully''), Aborted 400 err,
       Json 200 (Message ''Points added to queue successfully'')]"
proof -
  have pub: "\<exists>b'. PublishWithContext (traced (pw_amqp ops)) json LIVE_LINES_QUEUE_NAME True b =
      (None, (b', snd b @ publish_calls json LIVE_LINES_QUEUE_NAME))" for b
    using publish_traced[of "pw_amqp ops" json LIVE_LINES_QUEUE_NAME "fst b" "snd b"] assms(1)[of b]
    by (cases "PublishWithContext (traced (pw_amqp ops)) json LIVE_LINES_QUEUE_NAME True b")
      (auto simp: publish_calls_def)
  obtain b1 where 1: "PublishWithContext (traced (pw_amqp ops)) json LIVE_LINES_QUEUE_NAME True (ps_Broker s) =
      (None, (b1, snd (ps_Broker s) @ publish_calls json LIVE_LINES_QUEUE_NAME))"
    using pub by blast
  obtain b2 where 2: "PublishWithContext (traced (pw_amqp ops)) json LIVE_LINES_QUEUE_NAME True
      (b1, snd (ps_Broker s) @ publish_calls json LIVE_LINES_QUEUE_NAME) =
      (None, (b2, snd (ps_Broker s) @ publish_calls json LIVE_LINES_QUEUE_NAME @ publish_calls json LIVE_LINES_QUEUE_NAME))"
    using pub[of "(b1, snd (ps_Broker s) @ publish_calls json LIVE_LINES_QUEUE_NAME)"] by auto
  show ?thesis
    using assms(2-) 1 2 by (simp add: persist_frame_def Let_def status_defs)
qed

lemma quiet_publish: "fst (PublishWithContext (traced quiet_broker) d k True b) = None"
  by (cases b) (simp add: PublishWithContext_def DeclareAndBindQueue_def and_err_def traced_def logged_def quiet_broker_def)

theorem malformed_message_repeats_point_witness:
  "snd (ps_Broker (persist_loop (with_trace example_ops) (\<lambda>_. \<lparr>pc_Conn = 1, pc_Sub = ''u''\<rparr>) ''u''
      [(plain_frame ''g'')\<lparr>fr_BeforeGet := persist_Add ''u'' 1\<rparr>, (plain_frame ''{'')\<lparr>fr_BeforeGet := persist_Add ''u'' 1\<rparr>]
      \<lparr>ps_Registry = gomap_empty, ps_Ctx = user_request, ps_Request = zero_request, ps_Broker = (0, []), ps_Closed = []\<rparr>)) =
    publish_calls ''g'' LIVE_LINES_QUEUE_NAME @ publish_calls ''g'' LIVE_LINES_QUEUE_NAME"
proof -
  note * = malformed_message_repeats_point[where ops = example_ops and json = "''g''" and sub = "''u''" and
      f = "(plain_frame ''g'')\<lparr>fr_BeforeGet := persist_Add ''u'' 1\<rparr>" and
      g = "(plain_frame ''{'')\<lparr>fr_BeforeGet := persist_Add ''u'' 1\<rparr>" and
      s = "\<lparr>ps_Registry = gomap_empty, ps_Ctx = user_request, ps_Request = zero_request, ps_Broker = (0, []), ps_Closed = []\<rparr>" and
      clients = "\<lambda>_. \<lparr>pc_Conn = 1, pc_Sub = ''u''\<rparr>" and req = "zero_request\<lparr>req_GroupCode := ''g''\<rparr>" and
      err = "''unexpected end of JSON input''" and client = 1, THEN conjunct1]
  show ?thesis
    by (rule trans[OF *]) (simp_all add: example_ops_def plain_frame_def quiet_publish ToRunnerLiveLinesSchema_def
        persist_Get_def persist_Add_def)
qed

text \<open>When a session ends, its user has no entry in the registry, even if the user has opened another
  session since, whose entry is then gone.\<close>

lemma session_end_unregisters_user:
  "persist_Get (ud_Sub (snd (pw_user ops (GetHeader ''userData'' c))))
     (ps_Registry (PersistAuditDataHandler ops clients client upgrade frames beforeEnd c reg b)) = None"
proof -
  obtain ws m where "ps_Registry (PersistAuditDataHandler ops clients client upgrade frames beforeEnd c reg b) =
      persist_RemoveClient (clients(client := \<lparr>pc_Conn = ws, pc_Sub = session_sub ops c\<rparr>)) client m"
    using handler_eq[of ops clients client upgrade frames beforeEnd c reg b] by (auto simp: Let_def)
  then show ?thesis by (simp add: persist_Get_def persist_RemoveClient_def session_sub_def)
qed

end
