(* ===== verification/Spec2Isabelle.thy ===== *)
theory Spec2Isabelle
  imports Processor Distance Area Clients Config GroupStore System Server PersistWs
begin

text \<open>
  RunnerIO is a game for groups of runners. Two programs share the code under \<open>src/internal\<close>. The
  service serves HTTP and websockets: runners create and join groups, send the points of their live
  line, and receive the state of their group. The engine consumes the points from a queue: it stores
  each, reads all points and polygons of the group, computes which polygons eat, merge or close, and
  publishes the result to the group's queue, from which the service broadcasts it.

  \<^bold>\<open>How the parts interact.\<close> \<open>PersistWs\<close> (websocket, points in) publishes to the queue of live points
  through \<open>Amqp\<close>; \<open>Engine\<close> consumes that queue, reads the database through \<open>Mongo\<close>, runs \<open>Processor\<close>
  and publishes to the group's queue; \<open>EatWs\<close> (websocket, results out) consumes it and writes to the
  clients that \<open>Clients\<close> has registered. \<open>RunnerGroups\<close> keeps the groups in the database. All requests
  come through \<open>Routes\<close> and the middlewares of \<open>Auth\<close>.

  \<^bold>\<open>Theories, and the code they model.\<close>
  \<^item> \<open>Prelude\<close>, \<open>Float64\<close>, \<open>GoTime\<close>: the language. Slices, maps, sorting, integer division; IEEE
    doubles with exact rational values and rounding; instants and saturating 64-bit durations.
  \<^item> \<open>Schema\<close>: dto/schema, the records, their conversions, and their tags with the documents that the
    database driver makes of them.
  \<^item> \<open>Geometry\<close>, \<open>Distance\<close>, \<open>Polygon\<close>: services/utils.go, run_processor_config.go. Distance, the cycle
    test, the nearest-neighbour order; the ray casting test and the search for inner points.
  \<^item> \<open>Helper\<close>, \<open>Eating\<close>, \<open>Cleaning\<close>, \<open>Processor\<close>: services/run_processor_helper.go and
    run_processor.go. Lines per runner, eating and merging of two polygons, cleaning of all, removal of
    covered live points, and \<open>processData\<close>, which composes them.
  \<^item> \<open>Mongo\<close>, \<open>Area\<close>, \<open>Engine\<close>: \<open>getData\<close> of services/utils.go, area.go, \<open>RunProcessorOnGroup\<close> and
    live_lines.go.
  \<^item> \<open>Clients\<close>: dto/ws, the two registries of websocket clients.
  \<^item> \<open>Env\<close>, \<open>Config\<close>, \<open>Amqp\<close>: utils/dotenv.go and log.go, the packages under config.
  \<^item> \<open>Http\<close>, \<open>Auth\<close>: headers and the gin context, utils/req.go, middlewares/auth, dto/auth.go and
    claims.go.
  \<^item> \<open>RunnerGroups\<close>, \<open>PersistWs\<close>, \<open>EatWs\<close>, \<open>Routes\<close>: the handlers under api, utils/misc.go, and the
    routes. \<open>GroupStore\<close> is about the documents that \<open>RunnerGroups\<close> keeps, \<open>GroupQueue\<close> composes the
    consumers of \<open>EatWs\<close> with the queue that they share, \<open>Isolation\<close> shows that it reads only clients of
    its own group, and \<open>System\<close> composes it with the engine and the queue of live points.
  \<^item> \<open>Server\<close>: middlewares/log, fx and cmd. The engine of gin with its middlewares, and what the two
    programs construct and start.

  \<^bold>\<open>How code becomes definitions.\<close> A definition has the name of its Go function, with a prefix or suffix
  where two packages use the same one. \<open>'a option\<close> is code that may panic or not end; \<open>string + 'a\<close> is a
  result with an \<open>error\<close>; \<open>'a outcome\<close> adds the end of the process (\<open>log.Fatal\<close>, \<open>panic\<close>) and
  divergence. Loops are folds or recursive functions named after the function they are in. Whatever is
  not under \<open>src/\<close> is an argument: the MongoDB driver, the AMQP client, Redis, the HTTP client, the JWT
  library, the JSON codecs, gin's binding, the random numbers, the clock, the trigonometric functions,
  the order of equal elements after a sort and the order in which \<open>range\<close> visits a map. Hypotheses about
  them state their documented behaviour (\<open>runtime_ok\<close>, \<open>sort_func\<close>, \<open>acos_ok\<close>, \<open>cos_even\<close>,
  \<open>finds_by_document\<close>, \<open>store_laws\<close>, \<open>json_laws\<close>, \<open>recovers\<close>, \<open>group_answers\<close>) and are met by a concrete
  instance in each witness.

  \<^bold>\<open>Concurrency.\<close> Operations under a mutex are atomic. A broadcast is a list of labels, one for each
  atomic step of its goroutines and of the other sessions (\<open>EatWs\<close>); the queue of a group with all its
  sessions and their consumers is a transition system (\<open>queue_do\<close>, \<open>queue_reachable\<close>), and so are both
  programs together (\<open>system_do\<close>, \<open>system_reachable\<close>); joins are a step relation on reads and writes of
  the members (\<open>RunnerGroups\<close>); the two goroutines of a consumed message are the steps of \<open>engine_do\<close>
  (insertion, two reads, processing with publication, acknowledgement), which \<open>System\<close> interleaves with
  all else, and \<open>engine_runs_are_consumes\<close> reduces to three schedules of one step per message
  (\<open>consume\<close>); other sessions change the registry between the steps of a frame (\<open>PersistWs\<close>). Statements
  quantify over all of these.

  \<^bold>\<open>What the lemmas show.\<close>
  \<^item> Processing: every step returns without an error; the result has polygons sorted by runner for the
    right runners, no invented point, and no live point inside a returned polygon; it does not depend
    on the order of maps or of the database if no two polygons share a time. In production it never
    turns a line into a polygon, since the cycle test subtracts the last time from the first.
  \<^item> Geometry: the inside test is the parity rule over the edges and never divides by zero; the order by
    distance goes through distinct indices, each time to the first of the nearest points left, and
    through all of them unless a distance is a NaN; when a distance is a NaN, and its bound; the area is
    exact on integer coordinates of bounded size.
  \<^item> Engine and queues: which messages are stored, acknowledged and published, for every interleaving;
    \<open>session_points_stored\<close> below follows a point from the websocket to the database.
  \<^item> Registries and sessions: slices refine lists of clients; when a broadcast reaches everyone once,
    and how a client can be skipped; the sender of a point is always the session's user.
  \<^item> The queue of a group: no message is lost or processed twice among queue, deliveries, broadcasts,
    acknowledgements (those that fail included) and messages stranded at a returned consumer; a message
    is acknowledged only after all writes of its broadcast; every broadcast can be completed; how
    messages get stranded, and how two consumers write to one client at a time. Every write goes to a
    client that joined the group, although broadcasts read slices that change under them.
  \<^item> Both programs together: a client gets only results of its own group, after the engine has received a
    point of this group (the acknowledgement may come later, or never); a sent point can reach every
    client of its group (\<open>frame_reaches_everyone\<close> below); a point for the group \<open>live_lines\<close> makes the
    engine consume its own results for ever.
  \<^item> Groups: at most 16 distinct members under interleaved joins, and the lost update; when a code is
    found; what every stored group satisfies.
  \<^item> Programs: when they start; each request that returns or panics is logged once and does not end
    the server.
  \<^item> Identity: what \<open>ValidatePermissions\<close> admits, and that a client's own headers override the looked-up
    user and permissions.

  \<^bold>\<open>Interfaces.\<close> The locales are \<open>string_map\<close> (Go maps, provided by association lists), \<open>cmp_order\<close> and
  \<open>sort_func\<close> (\<open>slices.SortFunc\<close>, provided by insertion sort, which Go runs on short slices) and \<open>registry\<close>
  (groups of clients, provided by the slices on a heap).

  \<^bold>\<open>Bounds.\<close> No definition uses fuel: loops are structural, or have a termination proof (\<open>sort_loop\<close>,
  whose unvisited points get fewer, and \<open>last_before\<close>, whose index wraps around modulo the number of
  points), or are a partial function (\<open>CreateCode\<close>). Go's \<open>int\<close> indices are unbounded integers, as no
  slice reaches \<open>2^63\<close> elements; the conversion of a float to an integer in \<open>cmp_radius\<close> follows amd64.

  \<^bold>\<open>Not modelled.\<close> The life cycle of the dependency injection container (the order in which it calls
  constructors that do not depend on each other, signals, stopping), the files of documentation and the
  tests. \<open>json_time\<close> takes the year of an instant in UTC, while \<open>time.UnixMilli\<close> yields local time: the
  server is taken to run in UTC, which matters for the hours around the first and the last year of JSON.
  A failing acknowledgement by the engine is only logged and is left out (that of a broadcast is the
  label \<open>AckFails\<close>). In \<open>System\<close> one engine runs; the broker keeps the order of a queue and delivers each message once;
  which subscribed session it gives a message to is left open (\<open>Push\<close>); and the group's queue is not the
  queue of live points. In \<open>GroupQueue\<close> all sessions are of different users, since RabbitMQ refuses a
  second consumer with the same tag; what the websocket library does with two writers at a time is left
  to the library, and so is what gin does with a second reply to one request: the replies are recorded
  in order.
\<close>

section \<open>From the websocket to the database\<close>

lemma decode_all_points:
  assumes "\<And>l body d. marshal l = Inr body \<Longrightarrow> unmarshal body d = (None, l)"
    and "\<And>d. \<exists>err. unmarshal [] d = (Some err, d)"
    and "list_all2 (\<lambda>body l. marshal l = Inr body) (filter (\<lambda>body. body \<noteq> []) bodies) ls"
  shows "decode_all unmarshal d bodies = zip (filter (\<lambda>body. body \<noteq> []) bodies) ls"
  using assms(3)
proof (induction bodies arbitrary: d ls)
  case (Cons body bodies)
  obtain err where "unmarshal [] d = (Some err, d)" using assms(2) by blast
  then show ?case using Cons assms(1) by (cases "body = []") (auto simp: list_all2_Cons1)
qed simp

lemma published_bodies_routed: "published_bodies evs = filter (\<lambda>body. body \<noteq> []) (routed LIVE_LINES_QUEUE_NAME evs)"
  by (induction evs) (auto simp: routed_def map_filter_simps split: amqp_event.splits)

text \<open>C9: If decoding undoes encoding and the empty text does not decode, then the engine stores and
  acknowledges, in the order in which they were sent, points that the session's messages stand for: each
  point has the coordinates, the time and the group of its message (what the message lacks is taken from the
  one before), names a group, and has the session's user as sender. It is one point for each nonempty body
  that the session published to the queue of live points (an empty one stands for a point that could not be
  encoded, and the engine drops it); and if the broker accepts every publication and every point has JSON,
  it is every point up to the first message without a group code. This holds for every interference of other
  sessions and every interleaving in the engine.\<close>

theorem session_points_stored:
  assumes "runtime_ok (en_rt en)"
    and "\<And>l body d. pw_marshal ops l = Inr body \<Longrightarrow> en_unmarshal en body d = (None, l)"
    and "\<And>d. \<exists>err. en_unmarshal en [] d = (Some err, d)"
    and "snd (ps_Broker (PersistAuditDataHandler (with_trace ops) clients client upgrade frames beforeEnd c reg (b, []))) = evs"
    and "map snd msgs = routed LIVE_LINES_QUEUE_NAME evs" "points = session_points ops (ud_Sub (snd (pw_user ops (GetHeader ''userData'' c)))) zero_request frames"
  shows "\<exists>s ls. PersistAuditData en (Inr msgs) db b' = Done s \<and> es_acked s = published_bodies evs \<and>
    es_db s = fold (\<lambda>l db. snd (en_insert en l db)) ls db \<and>
    list_all2 (\<lambda>body l. pw_marshal ops l = Inr body) (published_bodies evs) ls \<and> subseq ls points \<and>
    list_all (\<lambda>l. ll_Sender l = ud_Sub (snd (pw_user ops (GetHeader ''userData'' c))) \<and> ll_GroupCode l \<noteq> []) ls \<and>
    (accepting ops \<and> (\<forall>l\<in>set points. \<exists>body. pw_marshal ops l = Inr body \<and> body \<noteq> []) \<longrightarrow> ls = points)"
proof -
  have points: "points = session_points ops (session_sub ops c) zero_request frames"
    using assms(6) by (simp add: session_sub_def)
  obtain ls where ls: "list_all2 (\<lambda>body l. pw_marshal ops l = Inr body) (published_bodies evs) ls" "subseq ls points"
      "accepting ops \<and> (\<forall>l\<in>set points. \<exists>body. pw_marshal ops l = Inr body \<and> body \<noteq> []) \<longrightarrow> ls = points"
    using handler_points[of ops clients client upgrade frames beforeEnd c reg b] unfolding assms(4) points by blast
  have "decode_all (en_unmarshal en) zero_live_line (map snd msgs) = zip (published_bodies evs) ls"
    unfolding assms(5) published_bodies_routed
    by (rule decode_all_points[where marshal = "pw_marshal ops" and unmarshal = "en_unmarshal en", OF assms(2,3) ls(1)[unfolded published_bodies_routed]])
  then obtain s where "PersistAuditData en (Inr msgs) db b' = Done s"
      "es_acked s = map fst (zip (published_bodies evs) ls)"
      "es_db s = insert_all (en_insert en) (map snd (zip (published_bodies evs) ls)) db"
    using consume_all[OF assms(1), of msgs "\<lparr>es_data = zero_live_line, es_db = db, es_broker = b', es_acked = []\<rparr>"]
    by (auto simp: PersistAuditData_def)
  moreover have "list_all (\<lambda>l. ll_Sender l = ud_Sub (snd (pw_user ops (GetHeader ''userData'' c))) \<and> ll_GroupCode l \<noteq> []) ls"
    unfolding list_all_iff
  proof
    fix l assume "l \<in> set ls"
    then have "l \<in> set points" using ls(2) by (auto elim: list_emb_set)
    then show "ll_Sender l = ud_Sub (snd (pw_user ops (GetHeader ''userData'' c))) \<and> ll_GroupCode l \<noteq> []"
      unfolding assms(6) by (rule session_points_of)
  qed
  ultimately show ?thesis using ls list_all2_lengthD[OF ls(1)]
    by (intro exI[of _ s] exI[of _ ls]) (simp add: insert_all_def)
qed

text \<open>A codec that knows one point.\<close>

definition the_point :: live_line where
  "the_point = ToRunnerLiveLinesSchema (zero_request\<lparr>req_GroupCode := ''g''\<rparr>) ''u''"

definition point_ops :: "nat persist_ops" where
  "point_ops = example_ops\<lparr>pw_marshal := (\<lambda>l. if l = the_point then Inr ''p'' else Inl ''unsupported'')\<rparr>"

definition point_engine :: "(string, live_line list, nat, nat, nat, nat) engine" where
  "point_engine = \<lparr>en_rt = plain_rt, en_encode = (\<lambda>_. []), en_ops = quiet_broker,
     en_unmarshal = (\<lambda>m l. if m = [] then (Some ''unexpected end of JSON input'', l) else (None, the_point)),
     en_insert = (\<lambda>l db. (None, db @ [l])), en_store = (\<lambda>_. down_store)\<rparr>"

theorem session_points_stored_witness:
  "\<exists>s. PersistAuditData point_engine (Inr [(InsertLast, ''p'')]) [] 0 = Done s \<and> es_acked s = [''p''] \<and> es_db s = [the_point]"
proof -
  let ?evs = "publish_calls ''p'' LIVE_LINES_QUEUE_NAME"
  have t: "snd (ps_Broker (PersistAuditDataHandler (with_trace point_ops) (\<lambda>_. \<lparr>pc_Conn = 0, pc_Sub = []\<rparr>) 1 (Inr 1)
      [plain_frame ''g''] (\<lambda>r. r) user_request gomap_empty (0, []))) = ?evs"
    by (simp add: PersistAuditDataHandler_def point_ops_def example_ops_def plain_frame_def user_request_def GetHeader_def
        header_Get_def canonical_keys persist_frame_def the_point_def[symmetric] Let_def PublishWithContext_def
        DeclareAndBindQueue_def and_err_def traced_def logged_def quiet_broker_def publish_calls_def persist_Get_def persist_Add_def)
  have insert: "fold (\<lambda>l db. snd (en_insert point_engine l db)) ls db = db @ ls" for ls db
    by (induction ls arbitrary: db) (simp_all add: point_engine_def)
  have bodies: "published_bodies ?evs = [''p'']" by (simp add: publish_calls_def LIVE_LINES_QUEUE_NAME_def)
  have msgs: "routed LIVE_LINES_QUEUE_NAME ?evs = [''p'']" by simp
  have sub: "ud_Sub (snd (pw_user point_ops (GetHeader ''userData'' user_request))) = ''u''"
    by (simp add: point_ops_def example_ops_def user_request_def GetHeader_def header_Get_def canonical_keys)
  have points: "session_points point_ops ''u'' zero_request [plain_frame ''g''] = [the_point]"
    by (simp add: point_ops_def example_ops_def plain_frame_def the_point_def ToRunnerLiveLinesSchema_def)
  have codec: "en_unmarshal point_engine body d = (None, l)" if "pw_marshal point_ops l = Inr body" for l body d
    using that by (auto simp: point_engine_def point_ops_def split: if_splits)
  have empty: "\<exists>err. en_unmarshal point_engine [] d = (Some err, d)" for d by (simp add: point_engine_def)
  have "accepting point_ops \<and> (\<forall>l\<in>set [the_point]. \<exists>body. pw_marshal point_ops l = Inr body \<and> body \<noteq> [])"
    by (simp add: accepting_def point_ops_def example_ops_def PublishWithContext_def DeclareAndBindQueue_def and_err_def quiet_broker_def)
  moreover have "runtime_ok (en_rt point_engine)" by (simp add: point_engine_def runtime_ok_plain_rt)
  note session_points_stored[OF this codec empty t, of "[(InsertLast, ''p'')]" "[the_point]" "[]" 0, unfolded sub points bodies msgs]
  ultimately obtain s where "PersistAuditData point_engine (Inr [(InsertLast, ''p'')]) [] 0 = Done s" "es_acked s = [''p'']"
      "es_db s = fold (\<lambda>l db. snd (en_insert point_engine l db)) [the_point] []"
    by auto
  then show ?thesis unfolding insert by simp
qed

section \<open>From the websocket to the clients of the group\<close>

lemma traced_accepts:
  assumes "fst (PublishWithContext ops data key True (fst b)) = None"
  shows "\<exists>b'. PublishWithContext (traced ops) data key True b = (None, b', snd b @ publish_calls data key)"
proof -
  obtain n b' where n: "snd (PublishWithContext (traced ops) data key True b) = (b', snd b @ take n (publish_calls data key))"
      "fst (PublishWithContext (traced ops) data key True b) = None \<longrightarrow> n = 3"
    using publish_traced[of ops data key "fst b" "snd b"] by auto
  moreover have "fst (PublishWithContext (traced ops) data key True b) = None"
    using traced_same_error[of ops data key "fst b" "snd b"] assms by simp
  ultimately have "PublishWithContext (traced ops) data key True b = (None, b', snd b @ publish_calls data key)"
    by (cases "PublishWithContext (traced ops) data key True b") (simp add: publish_calls_def)
  then show ?thesis by blast
qed

lemma frame_publishes:
  assumes "pw_unmarshal ops (fr_Message f) (ps_Request t) = (None, req)" "req_GroupCode req \<noteq> []"
    and "pw_marshal ops (ToRunnerLiveLinesSchema req sub) = Inr body"
    and "fst (PublishWithContext (pw_amqp ops) body LIVE_LINES_QUEUE_NAME True (fst (ps_Broker t))) = None"
  shows "\<exists>t' b'. persist_frame (with_trace ops) clients sub f t = (False, t') \<and>
    ps_Broker t' = (b', snd (ps_Broker t) @ publish_calls body LIVE_LINES_QUEUE_NAME)"
proof -
  obtain b' where "PublishWithContext (traced (pw_amqp ops)) body LIVE_LINES_QUEUE_NAME True (ps_Broker t) =
      (None, b', snd (ps_Broker t) @ publish_calls body LIVE_LINES_QUEUE_NAME)"
    using traced_accepts[OF assms(4)] by blast
  then show ?thesis using assms(1-3) by (simp add: persist_frame_def Let_def split: option.split)
qed

text \<open>C13: From websocket to websocket: if the brokers and the database answer and decoding undoes encoding, then a
  message that a runner sends, while the engine is idle and the group's queue is empty, is published as one
  body; and whichever waiting consumer the broker gives the result to, there is a schedule of engine and
  sessions after which this body is acknowledged, and that consumer has written, first what it was given
  before, then the result of processing the group, exactly once to each connected client of the group that
  the message names.\<close>

theorem frame_reaches_everyone:
  assumes "runtime_ok (en_rt en)" "group_answers en key" "\<And>l body d. pw_marshal ops l = Inr body \<Longrightarrow> en_unmarshal en body d = (None, l)"
    and "pw_unmarshal ops (fr_Message f) (ps_Request t) = (None, req)" "req_GroupCode req = key" "key \<noteq> []"
    and "pw_marshal ops (ToRunnerLiveLinesSchema req sub) = Inr body"
    and "fst (PublishWithContext (pw_amqp ops) body LIVE_LINES_QUEUE_NAME True (fst (ps_Broker t))) = None"
    and "system_reachable grow en key s" "sy_Live s = []" "er_Task (sy_Engine s) = None" "gq_Queue (sy_Group s) = []"
    and "gq_Consumer (sy_Group s) c = Waiting" "gq_Buffer (sy_Group s) c = xs"
    and "group_members (gq_Map (sy_Group s)) key = ms" "ms \<noteq> []"
  shows "\<exists>t' b' evs labels s' m. persist_frame (with_trace ops) clients sub f t = (False, t') \<and>
    ps_Broker t' = (b', snd (ps_Broker t) @ evs) \<and>
    fold_opt (system_do grow en key) (map Sends (routed LIVE_LINES_QUEUE_NAME evs) @ engine_round sched @ map Serves labels) s = Some s' \<and>
    result_for en key body m \<and> es_acked (sy_State s') = es_acked (sy_State s) @ [body] \<and>
    gq_Written (sy_Group s') = gq_Written (sy_Group s) @ concat (map (\<lambda>x. map (\<lambda>d. (d, x)) ms) (xs @ [m]))"
proof -
  have "req_GroupCode req \<noteq> []" using assms(5,6) by simp
  from frame_publishes[where t = t and clients = clients, OF assms(4) this assms(7,8)]
  obtain t' b' where t': "persist_frame (with_trace ops) clients sub f t = (False, t')"
      "ps_Broker t' = (b', snd (ps_Broker t) @ publish_calls body LIVE_LINES_QUEUE_NAME)" by blast
  have "en_unmarshal en body (es_data (sy_State s)) = (None, ToRunnerLiveLinesSchema req sub)" using assms(3,7) by simp
  moreover have "ll_GroupCode (ToRunnerLiveLinesSchema req sub) = key" using assms(5) by (simp add: ToRunnerLiveLinesSchema_def)
  ultimately obtain labels s' m where
    "fold_opt (system_do grow en key) (Sends body # engine_round sched @ map Serves labels) s = Some s'"
    "result_for en key body m" "es_acked (sy_State s') = es_acked (sy_State s) @ [body]"
    "gq_Written (sy_Group s') = gq_Written (sy_Group s) @ concat (map (\<lambda>x. map (\<lambda>d. (d, x)) ms) (xs @ [m]))"
    using point_reaches_everyone[OF assms(1,2,9-16), of body "ToRunnerLiveLinesSchema req sub" sched] by blast
  moreover have "map Sends (routed LIVE_LINES_QUEUE_NAME (publish_calls body LIVE_LINES_QUEUE_NAME)) @ engine_round sched @ map Serves labels =
    Sends body # engine_round sched @ map Serves labels" by simp
  ultimately show ?thesis using t' by metis
qed

text \<open>The point of the example is the only one that the codec knows; two clients are connected.\<close>

definition point_echo :: "(string, live_line list, nat, nat, nat, nat) engine" where
  "point_echo = echo_engine\<lparr>en_unmarshal := (\<lambda>_ _. (None, the_point))\<rparr>"

definition point_state :: "(nat \<times> string amqp_event list) persist_state" where
  "point_state = \<lparr>ps_Registry = gomap_empty, ps_Ctx = user_request, ps_Request = zero_request, ps_Broker = (0, []), ps_Closed = []\<rparr>"

theorem frame_reaches_everyone_witness:
  "\<exists>s t' evs labels s'. fold_opt (system_do (\<lambda>n. n) point_echo ''g'') [Serves (Connects 1), Serves (Connects 2)] (system_init [] 0) = Some s \<and>
    persist_frame (with_trace point_ops) (\<lambda>_. \<lparr>pc_Conn = 0, pc_Sub = []\<rparr>) ''u'' (plain_frame ''g'') point_state = (False, t') \<and>
    snd (ps_Broker t') = evs \<and>
    fold_opt (system_do (\<lambda>n. n) point_echo ''g'') (map Sends (routed LIVE_LINES_QUEUE_NAME evs) @ engine_round InsertFirst @ map Serves labels) s = Some s' \<and>
    map fst (gq_Written (sy_Group s')) = [1, 2]"
proof -
  obtain s where s: "fold_opt (system_do (\<lambda>n. n) point_echo ''g'') [Serves (Connects 1), Serves (Connects 2)] (system_init [] 0) = Some s"
      "sy_Live s = []" "er_Task (sy_Engine s) = None" "gq_Queue (sy_Group s) = []" "gq_Consumer (sy_Group s) 1 = Waiting"
      "gq_Buffer (sy_Group s) 1 = []" "group_members (gq_Map (sy_Group s)) ''g'' = [1, 2]" "gq_Written (sy_Group s) = []"
    by (simp add: system_init_def queue_init_def group_members_def group_Add_def map_slice_def slice_append_def slice_elems_def
        sl_nil_def heap_empty_def NewGroupCodeDataClientManagerMap_def)
  have ans: "group_answers point_echo ''g''"
    using echo_answers[of "''g''"] by (simp add: group_answers_def point_echo_def)
  have reach: "system_reachable (\<lambda>n. n) point_echo ''g'' s"
    by (rule system_reach_run[OF system_starts s(1)]) (simp add: LIVE_LINES_QUEUE_NAME_def)
  have "\<exists>t' b' evs labels s' m. persist_frame (with_trace point_ops) (\<lambda>_. \<lparr>pc_Conn = 0, pc_Sub = []\<rparr>) ''u'' (plain_frame ''g'') point_state = (False, t') \<and>
    ps_Broker t' = (b', snd (ps_Broker point_state) @ evs) \<and>
    fold_opt (system_do (\<lambda>n. n) point_echo ''g'') (map Sends (routed LIVE_LINES_QUEUE_NAME evs) @ engine_round InsertFirst @ map Serves labels) s = Some s' \<and>
    result_for point_echo ''g'' ''p'' m \<and> es_acked (sy_State s') = es_acked (sy_State s) @ [''p''] \<and>
    gq_Written (sy_Group s') = gq_Written (sy_Group s) @ concat (map (\<lambda>x. map (\<lambda>d. (d, x)) [1, 2]) ([] @ [m]))"
  proof (rule frame_reaches_everyone[where req = "zero_request\<lparr>req_GroupCode := ''g''\<rparr>", OF _ ans _ _ _ _ _ _ reach s(2-7)])
    show "runtime_ok (en_rt point_echo)" by (simp add: point_echo_def runtime_ok_plain_rt)
    show "en_unmarshal point_echo body d = (None, l)" if "pw_marshal point_ops l = Inr body" for l body d
      using that by (simp add: point_echo_def point_ops_def split: if_splits)
    show "pw_unmarshal point_ops (fr_Message (plain_frame ''g'')) (ps_Request point_state) =
        (None, zero_request\<lparr>req_GroupCode := ''g''\<rparr>)"
      by (simp add: point_ops_def example_ops_def plain_frame_def point_state_def)
    show "pw_marshal point_ops (ToRunnerLiveLinesSchema (zero_request\<lparr>req_GroupCode := ''g''\<rparr>) ''u'') = Inr ''p''"
      by (simp add: point_ops_def the_point_def)
    show "fst (PublishWithContext (pw_amqp point_ops) ''p'' LIVE_LINES_QUEUE_NAME True (fst (ps_Broker point_state))) = None"
      by (simp add: point_ops_def example_ops_def PublishWithContext_def DeclareAndBindQueue_def and_err_def quiet_broker_def)
  qed simp_all
  then obtain t' b' evs labels s' m where
      frame: "persist_frame (with_trace point_ops) (\<lambda>_. \<lparr>pc_Conn = 0, pc_Sub = []\<rparr>) ''u'' (plain_frame ''g'') point_state = (False, t')"
      and "ps_Broker t' = (b', snd (ps_Broker point_state) @ evs)"
      and run: "fold_opt (system_do (\<lambda>n. n) point_echo ''g'') (map Sends (routed LIVE_LINES_QUEUE_NAME evs) @ engine_round InsertFirst @ map Serves labels) s = Some s'"
      and "gq_Written (sy_Group s') = gq_Written (sy_Group s) @ concat (map (\<lambda>x. map (\<lambda>d. (d, x)) [1, 2]) ([] @ [m]))"
    by (elim exE conjE) (rule that, assumption+)
  then have "snd (ps_Broker t') = evs" "map fst (gq_Written (sy_Group s')) = [1, 2]" using s(8) by (simp_all add: point_state_def)
  with s(1) frame run show ?thesis
    by (intro exI[of _ s] exI[of _ t'] exI[of _ evs] exI[of _ labels] exI[of _ s'] conjI)
qed

section \<open>A point that cannot be encoded\<close>

text \<open>What \<open>encoding/json\<close> does with a time after the year 9999 and with an empty text.\<close>

definition json_laws :: "'b persist_ops \<Rightarrow> (string, 'db, 'c, 'doc, 'bson, 'text) engine \<Rightarrow> bool" where
  "json_laws ops en \<longleftrightarrow> (\<forall>l. json_time (ll_Time l) \<or> (\<exists>err. pw_marshal ops l = Inl err)) \<and>
     (\<forall>l. \<exists>err. en_unmarshal en [] l = (Some err, l))"

lemma json_time_UnixMilli: "253402300800000 \<le> ms \<Longrightarrow> \<not> json_time (time_UnixMilli ms)"
  by (simp add: json_time_def time_UnixMilli_def)

text \<open>C40: A point whose time, in milliseconds, is in the year 10000 or later is lost although the client gets a
  success: the session publishes an empty body, and records an error and then status 200 for the same
  request; the engine neither stores nor acknowledges the empty body.\<close>

theorem late_point_lost:
  assumes "json_laws ops en" "253402300800000 \<le> req_Time req" "req_GroupCode req \<noteq> []"
    and "pw_unmarshal ops (fr_Message f) (ps_Request s) = (None, req)"
    and "PublishWithContext (pw_amqp ops) [] LIVE_LINES_QUEUE_NAME True (ps_Broker s) = (None, b)"
    and "persist_Get sub (fr_BeforeGet f (ps_Registry s)) = Some client"
  shows "\<exists>s' err. persist_frame ops clients sub f s = (False, s') \<and> ps_Broker s' = b \<and>
    ctx_replies (ps_Ctx s') = ctx_replies (ps_Ctx s) @
      [Aborted 500 err, Json 200 (Message ''Points added to queue successfully'')] \<and>
    consume en (sched, []) es = Some es"
proof -
  have "\<not> json_time (ll_Time (ToRunnerLiveLinesSchema req sub))"
    using json_time_UnixMilli[OF assms(2)] by (simp add: ToRunnerLiveLinesSchema_def)
  then obtain err where "pw_marshal ops (ToRunnerLiveLinesSchema req sub) = Inl err"
    using assms(1) unfolding json_laws_def by blast
  moreover have "consume en (sched, []) es = Some es"
  proof -
    obtain err where "en_unmarshal en [] (es_data es) = (Some err, es_data es)" using assms(1) unfolding json_laws_def by blast
    then show ?thesis by (simp add: consume_def)
  qed
  ultimately show ?thesis using assms(3-) by (simp add: persist_frame_def Let_def status_defs)
qed

definition late_ops :: "nat persist_ops" where
  "late_ops = example_ops\<lparr>pw_unmarshal := (\<lambda>m r. (None, r\<lparr>req_Time := 253402300800000, req_GroupCode := m\<rparr>)),
     pw_marshal := (\<lambda>l. if json_time (ll_Time l) then Inr (ll_GroupCode l) else Inl ''year outside of range'')\<rparr>"

definition late_engine :: "(string, live_line list, nat, nat, nat, nat) engine" where
  "late_engine = point_engine"

theorem late_point_lost_witness:
  "\<exists>s'. persist_frame late_ops (\<lambda>_. \<lparr>pc_Conn = 1, pc_Sub = ''u''\<rparr>) ''u'' (plain_frame ''g'')
      \<lparr>ps_Registry = persist_Add ''u'' 1 gomap_empty, ps_Ctx = user_request, ps_Request = zero_request, ps_Broker = 0,
       ps_Closed = []\<rparr> = (False, s') \<and> ps_Broker s' = 1"
proof -
  let ?s = "\<lparr>ps_Registry = persist_Add ''u'' 1 gomap_empty, ps_Ctx = user_request, ps_Request = zero_request, ps_Broker = 0 :: nat,
       ps_Closed = []\<rparr>"
  have laws: "json_laws late_ops late_engine"
    by (simp add: json_laws_def late_ops_def late_engine_def point_engine_def example_ops_def)
  have "\<exists>s' err. persist_frame late_ops (\<lambda>_. \<lparr>pc_Conn = 1, pc_Sub = ''u''\<rparr>) ''u'' (plain_frame ''g'') ?s = (False, s') \<and>
      ps_Broker s' = 1 \<and> ctx_replies (ps_Ctx s') = ctx_replies (ps_Ctx ?s) @
        [Aborted 500 err, Json 200 (Message ''Points added to queue successfully'')] \<and>
      consume late_engine (InsertFirst, []) \<lparr>es_data = the_point, es_db = [], es_broker = 0, es_acked = []\<rparr> =
        Some \<lparr>es_data = the_point, es_db = [], es_broker = 0, es_acked = []\<rparr>"
    by (rule late_point_lost[OF laws, where req = "zero_request\<lparr>req_Time := 253402300800000, req_GroupCode := ''g''\<rparr>" and
          client = 1])
      (simp_all add: late_ops_def example_ops_def plain_frame_def quiet_broker_def PublishWithContext_def
        DeclareAndBindQueue_def and_err_def persist_Get_def persist_Add_def)
  then show ?thesis by blast
qed

end
